(* ===== verification/Relay_Prelude.thy ===== *)
theory Relay_Prelude
  imports Main "HOL-Library.Word" "HOL-Library.AList"
begin

text \<open>
  Shared vocabulary of the relay-agent development.

  \<^item> \<open>type_synonym\<close>s that name the machine integers of the Go source;
  \<^item> \<open>scan\<close>, a Go \<open>for\<close> loop whose body may \<open>return\<close> an error: every validation loop of
    the program (source policies, mappings, retirements, ledger epochs, ledger entries) is
    an instance of it;
  \<^item> the locale \<open>keyed_loop\<close>: the contract such a loop body promises when it checks an element
    on its own and against the keys seen so far. Its lemmas say exactly when the loop
    succeeds; each component interprets the locale on its own loop body;
  \<^item> generic lemmas on lists and association lists used by several components.
\<close>

type_synonym u8 = "8 word"
type_synonym u16 = "16 word"
type_synonym u32 = "32 word"
type_synonym u64 = "64 word"
type_synonym ('e, 'a) result = "'e + 'a"

named_theorems relay_defs \<open>definitions unfolded together in component proofs\<close>

subsection \<open>Results\<close>

text \<open>\<open>x, err := f(); if err != nil \<open>{\<close> return err \<open>}\<close>\<close>.\<close>

definition rbind :: "('e, 'a) result \<Rightarrow> ('a \<Rightarrow> ('e, 'b) result) \<Rightarrow> ('e, 'b) result" where
  "rbind r f = (case r of Inl e \<Rightarrow> Inl e | Inr x \<Rightarrow> f x)"

lemma rbind_simps [simp]:
  "rbind (Inl e) f = Inl e"
  "rbind (Inr x) f = f x"
  by (simp_all add: rbind_def)

lemma rbind_Inr_iff: "rbind r f = Inr y \<longleftrightarrow> (\<exists>x. r = Inr x \<and> f x = Inr y)"
  by (cases r) auto

lemma rbind_Inl_iff: "rbind r f = Inl e \<longleftrightarrow> r = Inl e \<or> (\<exists>x. r = Inr x \<and> f x = Inl e)"
  by (cases r) auto

definition is_ok :: "('e, 'a) result \<Rightarrow> bool" where
  "is_ok r = (case r of Inl _ \<Rightarrow> False | Inr _ \<Rightarrow> True)"

lemma is_ok_simps [simp]: "is_ok (Inr x)" "\<not> is_ok (Inl e)"
  by (simp_all add: is_ok_def)

lemma is_ok_iff: "is_ok r \<longleftrightarrow> (\<exists>x. r = Inr x)"
  by (cases r) auto

lemma if_Inr_iff [simp]:
  "(if b then Inl e else r) = Inr x \<longleftrightarrow> \<not> b \<and> r = Inr x"
  by simp

subsection \<open>Loops that may return an error\<close>

fun scan :: "('s \<Rightarrow> 'a \<Rightarrow> ('e, 's) result) \<Rightarrow> 's \<Rightarrow> 'a list \<Rightarrow> ('e, 's) result" where
  "scan f s [] = Inr s"
| "scan f s (x # xs) = (case f s x of Inl e \<Rightarrow> Inl e | Inr t \<Rightarrow> scan f t xs)"

lemma scan_append:
  "scan f s (xs @ ys) = (case scan f s xs of Inl e \<Rightarrow> Inl e | Inr t \<Rightarrow> scan f t ys)"
  by (induction xs arbitrary: s) (auto split: sum.splits)

lemma scan_error_at:
  assumes "scan f s xs = Inl e"
  shows "\<exists>ys x zs t. xs = ys @ x # zs \<and> scan f s ys = Inr t \<and> f t x = Inl e"
  using assms
proof (induction xs arbitrary: s)
  case Nil
  then show ?case by simp
next
  case (Cons x xs)
  show ?case
  proof (cases "f s x")
    case (Inl e')
    with Cons.prems have "x # xs = [] @ x # xs" "scan f s [] = Inr s" "f s x = Inl e" by auto
    then show ?thesis by blast
  next
    case (Inr u)
    with Cons.prems obtain ys y zs t where
      "xs = ys @ y # zs" "scan f u ys = Inr t" "f t y = Inl e"
      using Cons.IH[of u] by auto
    with Inr have "x # xs = (x # ys) @ y # zs" "scan f s (x # ys) = Inr t" by auto
    with \<open>f t y = Inl e\<close> show ?thesis by blast
  qed
qed

lemma scan_invariant:
  assumes "scan f s xs = Inr t" and "I s"
    and "\<And>u x v. I u \<Longrightarrow> x \<in> set xs \<Longrightarrow> f u x = Inr v \<Longrightarrow> I v"
  shows "I t"
  using assms
proof (induction xs arbitrary: s)
  case Nil
  then show ?case by simp
next
  case (Cons x xs)
  from Cons.prems(1) obtain u where u: "f s x = Inr u" and rest: "scan f u xs = Inr t"
    by (auto split: sum.splits)
  have "I u" by (rule Cons.prems(3)[OF Cons.prems(2) _ u]) simp
  then show ?case
    using Cons.IH[OF rest] Cons.prems(3) list.set_intros(2) by metis
qed

text \<open>A loop that maps every element and appends the images to an output slice.\<close>

lemma scan_collect:
  assumes "scan f s xs = Inr t"
    and "\<And>u x v. f u x = Inr v \<Longrightarrow> out v = out u @ [g x]"
  shows "out t = out s @ map g xs"
  using assms(1)
proof (induction xs arbitrary: s)
  case Nil
  then show ?case by simp
next
  case (Cons x xs)
  then obtain u where "f s x = Inr u" and "scan f u xs = Inr t"
    by (auto split: sum.splits)
  with Cons.IH assms(2) show ?case by simp
qed

subsection \<open>The contract of a validation loop\<close>

text \<open>
  A loop body with a check of the element itself (\<open>elem_ok\<close>) and a check against the keys
  of the elements before it: \<open>seen\<close> reads the key set off the loop state.
\<close>

locale keyed_loop =
  fixes step :: "'s \<Rightarrow> 'a \<Rightarrow> ('e, 's) result"
    and elem_ok :: "'a \<Rightarrow> bool"
    and keys :: "'a \<Rightarrow> 'k set"
    and seen :: "'s \<Rightarrow> 'k set"
  assumes step_ok: "step s a = Inr t \<Longrightarrow> elem_ok a \<and> keys a \<inter> seen s = {} \<and> seen t = seen s \<union> keys a"
    and step_progress: "elem_ok a \<Longrightarrow> keys a \<inter> seen s = {} \<Longrightarrow> is_ok (step s a)"
begin

definition keys_apart :: "'a list \<Rightarrow> bool" where
  "keys_apart xs = sorted_wrt (\<lambda>a b. keys a \<inter> keys b = {}) xs"

lemma keys_apart_Cons:
  "keys_apart (x # xs) \<longleftrightarrow> (\<forall>y\<in>set xs. keys x \<inter> keys y = {}) \<and> keys_apart xs"
  by (simp add: keys_apart_def)

lemma loop_seen: "scan step s xs = Inr t \<Longrightarrow> seen t = seen s \<union> (\<Union>x\<in>set xs. keys x)"
proof (induction xs arbitrary: s)
  case Nil
  then show ?case by simp
next
  case (Cons x xs)
  then obtain u where "step s x = Inr u" "scan step u xs = Inr t"
    by (auto split: sum.splits)
  with Cons.IH[of u] step_ok[of s x u] show ?case by auto
qed

lemma loop_sound:
  "scan step s xs = Inr t \<Longrightarrow>
   (\<forall>x\<in>set xs. elem_ok x \<and> keys x \<inter> seen s = {}) \<and> keys_apart xs"
proof (induction xs arbitrary: s)
  case Nil
  then show ?case by (simp add: keys_apart_def)
next
  case (Cons x xs)
  then obtain u where st: "step s x = Inr u" and rest: "scan step u xs = Inr t"
    by (auto split: sum.splits)
  from step_ok[OF st] Cons.IH[OF rest] show ?case
    by (auto simp: keys_apart_Cons)
qed

lemma loop_complete:
  "(\<forall>x\<in>set xs. elem_ok x \<and> keys x \<inter> seen s = {}) \<Longrightarrow> keys_apart xs \<Longrightarrow>
   is_ok (scan step s xs)"
proof (induction xs arbitrary: s)
  case Nil
  then show ?case by simp
next
  case (Cons x xs)
  then have "is_ok (step s x)" by (intro step_progress) auto
  then obtain u where st: "step s x = Inr u" by (auto simp: is_ok_iff)
  from step_ok[OF st] Cons.prems have "\<forall>y\<in>set xs. elem_ok y \<and> keys y \<inter> seen u = {}"
    by (auto simp: keys_apart_Cons)
  with Cons.prems have "is_ok (scan step u xs)"
    by (intro Cons.IH) (auto simp: keys_apart_Cons)
  with st show ?case by simp
qed

lemma loop_iff:
  "is_ok (scan step s xs) \<longleftrightarrow>
   (\<forall>x\<in>set xs. elem_ok x \<and> keys x \<inter> seen s = {}) \<and> keys_apart xs"
  using loop_sound loop_complete by (metis is_ok_iff)

end

subsection \<open>Lists and association lists\<close>

lemma sorted_wrt_keys_distinct:
  "sorted_wrt (\<lambda>a b. f a \<noteq> f b) xs \<longleftrightarrow> distinct (map f xs)"
  by (induction xs) auto

lemma filter_map_fst_distinct: "distinct (map fst m) \<Longrightarrow> distinct (map fst (filter P m))"
  by (induction m) auto

lemma map_of_filter_key:
  "map_of (filter (\<lambda>(k, v). P k) m) k = (if P k then map_of m k else None)"
  by (induction m) auto

lemma map_of_map_snd: "map_of (map (\<lambda>(k, v). (k, f v)) m) k = map_option f (map_of m k)"
  by (induction m) auto

lemma map_fst_map_snd [simp]: "map fst (map (\<lambda>(k, v). (k, f v)) m) = map fst m"
  by (induction m) auto

end
