(* ===== verification/Go_Strings.thy ===== *)
theory Go_Strings
  imports Relay_Prelude
begin

text \<open>
  The parts of Go's \<open>strconv\<close>, \<open>strings\<close>, \<open>fmt\<close> and \<open>encoding/hex\<close> that the agent calls,
  on byte strings (\<open>string\<close> is a list of bytes, as a Go string is).

  \<^item> \<open>format_uint\<close>, \<open>format_int\<close>: \<open>strconv.FormatUint(n, 10)\<close>, \<open>strconv.FormatInt(n, 10)\<close>, \<open>%d\<close>;
  \<^item> \<open>parse_uint\<close>, \<open>parse_int\<close>: \<open>strconv.ParseUint(s, 10, bits)\<close>, \<open>strconv.ParseInt(s, 10, 64)\<close>
    and \<open>strconv.Atoi\<close>; \<open>None\<close> is any error;
  \<^item> \<open>cut\<close>, \<open>cut_prefix\<close>, \<open>has_prefix\<close>, \<open>trim_space\<close>, \<open>to_lower\<close>: the functions of \<open>strings\<close>;
  \<^item> \<open>hex_encode\<close>: \<open>hex.EncodeToString\<close> and \<open>%x\<close> of a byte slice.

  The lemmas are the round trips between printing and parsing, and that a printed number
  holds no byte but its digits and sign, on which the encodings of the program rest.
\<close>

subsection \<open>Digits\<close>

definition byte_of :: "char \<Rightarrow> nat" where
  "byte_of c = of_char c"

definition is_digit :: "char \<Rightarrow> bool" where
  "is_digit c = (48 \<le> byte_of c \<and> byte_of c \<le> 57)"

definition digit_val :: "char \<Rightarrow> nat" where
  "digit_val c = byte_of c - 48"

definition digit_char :: "nat \<Rightarrow> char" where
  "digit_char n = char_of (48 + n)"

lemma byte_of_digit_char [simp]: "n < 10 \<Longrightarrow> byte_of (digit_char n) = 48 + n"
  by (simp add: byte_of_def digit_char_def of_char_of)

lemma digit_val_char [simp]: "n < 10 \<Longrightarrow> digit_val (digit_char n) = n"
  by (simp add: digit_val_def)

lemma is_digit_char [simp]: "n < 10 \<Longrightarrow> is_digit (digit_char n)"
  by (simp add: is_digit_def)

lemma digit_char_val [simp]: "is_digit c \<Longrightarrow> digit_char (digit_val c) = c"
  by (simp add: is_digit_def digit_char_def digit_val_def byte_of_def)

lemma digit_val_less [simp]: "is_digit c \<Longrightarrow> digit_val c < 10"
  by (auto simp: is_digit_def digit_val_def)

subsection \<open>Decimal numbers\<close>

fun format_uint :: "nat \<Rightarrow> string" where
  "format_uint n = (if n < 10 then [digit_char n] else format_uint (n div 10) @ [digit_char (n mod 10)])"

declare format_uint.simps [simp del]

definition format_int :: "int \<Rightarrow> string" where
  "format_int i = (if i < 0 then CHR ''-'' # format_uint (nat (- i)) else format_uint (nat i))"

definition digits_value :: "string \<Rightarrow> nat" where
  "digits_value s = foldl (\<lambda>v c. v * 10 + digit_val c) 0 s"

definition parse_uint :: "nat \<Rightarrow> string \<Rightarrow> nat option" where
  "parse_uint bits s =
     (if s = [] \<or> \<not> list_all is_digit s then None
      else if digits_value s < 2 ^ bits then Some (digits_value s) else None)"

definition parse_int :: "string \<Rightarrow> int option" where
  "parse_int s =
     (case s of [] \<Rightarrow> None
      | c # rest \<Rightarrow>
          (let neg = (c = CHR ''-'');
               body = (if c = CHR ''-'' \<or> c = CHR ''+'' then rest else s)
           in case parse_uint 64 body of None \<Rightarrow> None
              | Some un \<Rightarrow>
                  if \<not> neg \<and> un \<ge> 2 ^ 63 then None
                  else if neg \<and> un > 2 ^ 63 then None
                  else Some (if neg then - int un else int un)))"

lemma format_uint_digits: "c \<in> set (format_uint n) \<Longrightarrow> is_digit c"
proof (induction n rule: format_uint.induct)
  case (1 n)
  then show ?case by (subst (asm) (2) format_uint.simps) (auto split: if_splits)
qed

lemma format_uint_all_digits [simp]: "list_all is_digit (format_uint n)"
  by (auto simp: list_all_iff format_uint_digits)

lemma format_uint_not_Nil [simp]: "format_uint n \<noteq> []"
  by (subst format_uint.simps) simp

lemma digits_value_snoc [simp]: "digits_value (s @ [c]) = digits_value s * 10 + digit_val c"
  by (simp add: digits_value_def)

lemma digits_value_format [simp]: "digits_value (format_uint n) = n"
proof (induction n rule: format_uint.induct)
  case (1 n)
  show ?case
  proof (cases "n < 10")
    case True
    then show ?thesis by (simp add: format_uint.simps[of n] digits_value_def)
  next
    case False
    with 1 show ?thesis by (simp add: format_uint.simps[of n])
  qed
qed

lemma format_uint_inj [simp]: "format_uint m = format_uint n \<longleftrightarrow> m = n"
  by (metis digits_value_format)

lemma format_uint_snoc:
  "0 < v \<Longrightarrow> is_digit c \<Longrightarrow> format_uint (v * 10 + digit_val c) = format_uint v @ [c]"
  by (subst format_uint.simps) (use digit_val_less[of c] in auto)

lemma format_uint_digit: "is_digit c \<Longrightarrow> format_uint (digit_val c) = [c]"
  by (subst format_uint.simps) simp

lemma parse_uint_format [simp]: "n < 2 ^ bits \<Longrightarrow> parse_uint bits (format_uint n) = Some n"
  by (simp add: parse_uint_def)

lemma parse_uint_bound: "parse_uint bits s = Some n \<Longrightarrow> n < 2 ^ bits"
  by (auto simp: parse_uint_def split: if_splits)

lemma format_uint_hd_digit: "is_digit (hd (format_uint n))"
  by (rule format_uint_digits[of _ n]) simp

lemma sign_not_digit [simp]: "\<not> is_digit CHR ''-''" "\<not> is_digit CHR ''+''"
  by (simp_all add: is_digit_def byte_of_def)

lemma parse_int_unsigned:
  assumes "is_digit (hd s)" and "s \<noteq> []"
  shows "parse_int s = (case parse_uint 64 s of None \<Rightarrow> None
           | Some un \<Rightarrow> if un \<ge> 2 ^ 63 then None else Some (int un))"
proof -
  obtain c rest where s: "s = c # rest" using assms(2) by (cases s) auto
  with assms(1) have "c \<noteq> CHR ''-''" "c \<noteq> CHR ''+''" by auto
  with s show ?thesis by (simp add: parse_int_def split: option.splits)
qed

lemma parse_int_format [simp]:
  assumes "- (2 ^ 63) \<le> i" and "i < 2 ^ 63"
  shows "parse_int (format_int i) = Some i"
proof (cases "i < 0")
  case True
  with assms have "nat (- i) < 2 ^ 64" "\<not> nat (- i) > 2 ^ 63" by auto
  with True show ?thesis by (simp add: parse_int_def format_int_def)
next
  case False
  with assms have "nat i < 2 ^ 64" "\<not> nat i \<ge> 2 ^ 63" by auto
  with False show ?thesis
    by (simp add: format_int_def parse_int_unsigned format_uint_hd_digit)
qed

lemma parse_int_bounds: "parse_int s = Some i \<Longrightarrow> - (2 ^ 63) \<le> i \<and> i < 2 ^ 63"
  by (auto simp: parse_int_def Let_def split: list.splits option.splits if_splits)

lemma format_int_nonneg: "0 \<le> i \<Longrightarrow> format_int i = format_uint (nat i)"
  by (simp add: format_int_def)

lemma format_int_chars: "c \<in> set (format_int i) \<Longrightarrow> is_digit c \<or> c = CHR ''-''"
  by (auto simp: format_int_def dest: format_uint_digits split: if_splits)

lemma format_int_inj [simp]: "format_int i = format_int j \<longleftrightarrow> i = j"
proof
  assume eq: "format_int i = format_int j"
  have sign: "(hd (format_int k) = CHR ''-'') \<longleftrightarrow> k < 0" for k
    using format_uint_hd_digit[of "nat k"] by (auto simp: format_int_def)
  from eq have "i < 0 \<longleftrightarrow> j < 0" using sign by metis
  with eq show "i = j" by (cases "i < 0") (auto simp: format_int_def)
qed simp

subsection \<open>Searching and trimming\<close>

text \<open>\<open>strings.Cut\<close> with a one-byte separator; \<open>None\<close> is \<open>found = false\<close>.\<close>

fun cut :: "char \<Rightarrow> string \<Rightarrow> (string \<times> string) option" where
  "cut sep [] = None"
| "cut sep (c # s) = (if c = sep then Some ([], s)
     else map_option (\<lambda>(a, b). (c # a, b)) (cut sep s))"

definition has_prefix :: "string \<Rightarrow> string \<Rightarrow> bool" where
  "has_prefix p s = (take (length p) s = p)"

definition cut_prefix :: "string \<Rightarrow> string \<Rightarrow> string option" where
  "cut_prefix p s = (if has_prefix p s then Some (drop (length p) s) else None)"

lemma cut_append: "sep \<notin> set a \<Longrightarrow> cut sep (a @ sep # b) = Some (a, b)"
  by (induction a) auto

lemma cut_SomeD: "cut sep s = Some (a, b) \<Longrightarrow> s = a @ sep # b \<and> sep \<notin> set a"
  by (induction s arbitrary: a) (auto split: if_splits)

lemma has_prefix_append [simp]: "has_prefix p (p @ s)"
  by (simp add: has_prefix_def)

lemma cut_prefix_append [simp]: "cut_prefix p (p @ s) = Some s"
  by (simp add: cut_prefix_def)

lemma cut_prefix_SomeD: "cut_prefix p s = Some r \<Longrightarrow> s = p @ r"
  by (auto simp: cut_prefix_def has_prefix_def split: if_splits) (metis append_take_drop_id)

text \<open>
  \<open>strings.TrimSpace\<close> removes every leading and trailing rune for which \<open>unicode.IsSpace\<close>
  holds; \<open>space_runes\<close> lists their UTF-8 encodings.
\<close>

definition bytes :: "nat list \<Rightarrow> string" where
  "bytes = map char_of"

definition space_runes :: "string list" where
  "space_runes = map bytes
     ([[9], [10], [11], [12], [13], [32], [194, 133], [194, 160], [225, 154, 128]]
      @ map (\<lambda>b. [226, 128, b]) [128..<139]
      @ [[226, 128, 168], [226, 128, 169], [226, 128, 175], [226, 129, 159], [227, 128, 128]])"

fun trim_left :: "nat \<Rightarrow> string list \<Rightarrow> string \<Rightarrow> string" where
  "trim_left 0 runes s = s"
| "trim_left (Suc n) runes s =
     (case find (\<lambda>r. has_prefix r s) runes of None \<Rightarrow> s
      | Some r \<Rightarrow> trim_left n runes (drop (length r) s))"

text \<open>Each step removes at least one byte, so the length of the string is enough fuel.\<close>

definition trim_space :: "string \<Rightarrow> string" where
  "trim_space s =
     (let l = trim_left (length s) space_runes s
      in rev (trim_left (length l) (map rev space_runes) (rev l)))"

definition lower_char :: "char \<Rightarrow> char" where
  "lower_char c = (if 65 \<le> byte_of c \<and> byte_of c \<le> 90 then char_of (byte_of c + 32) else c)"

text \<open>\<open>strings.ToLower\<close> on the ASCII range; bytes of longer runes are left as they are.\<close>

definition to_lower :: "string \<Rightarrow> string" where
  "to_lower s = map lower_char s"

lemma space_runes_not_Nil: "r \<in> set space_runes \<Longrightarrow> r \<noteq> []"
  by (auto simp: space_runes_def bytes_def)

lemma trim_left_done:
  assumes "\<forall>r\<in>set runes. r \<noteq> []" and "length s \<le> n"
  shows "find (\<lambda>r. has_prefix r (trim_left n runes s)) runes = None"
  using assms(2)
proof (induction n arbitrary: s)
  case 0
  then show ?case using assms(1) by (auto simp: find_None_iff has_prefix_def)
next
  case (Suc n)
  show ?case
  proof (cases "find (\<lambda>r. has_prefix r s) runes")
    case None
    then show ?thesis by simp
  next
    case (Some r)
    then have r: "r \<in> set runes" "has_prefix r s" by (auto simp: find_Some_iff)
    with assms(1) have "r \<noteq> []" by blast
    with r(2) have "s \<noteq> []" by (auto simp: has_prefix_def)
    with \<open>r \<noteq> []\<close> Suc.prems have "length (drop (length r) s) \<le> n" by (cases r; cases s) auto
    with Some Suc.IH show ?thesis by simp
  qed
qed

subsection \<open>Hexadecimal\<close>

definition hex_digit :: "nat \<Rightarrow> char" where
  "hex_digit n = (if n < 10 then char_of (48 + n) else char_of (87 + n))"

definition hex_encode :: "u8 list \<Rightarrow> string" where
  "hex_encode bs = concat (map (\<lambda>b. [hex_digit (unat b div 16), hex_digit (unat b mod 16)]) bs)"

definition is_hex_lower :: "char \<Rightarrow> bool" where
  "is_hex_lower c = (is_digit c \<or> (97 \<le> byte_of c \<and> byte_of c \<le> 102))"

lemma hex_encode_Nil [simp]: "hex_encode [] = []"
  by (simp add: hex_encode_def)

lemma hex_encode_Cons [simp]:
  "hex_encode (b # bs) = [hex_digit (unat b div 16), hex_digit (unat b mod 16)] @ hex_encode bs"
  by (simp add: hex_encode_def)

lemma length_hex_encode [simp]: "length (hex_encode bs) = 2 * length bs"
  by (induction bs) auto

lemma is_hex_digit [simp]: "n < 16 \<Longrightarrow> is_hex_lower (hex_digit n)"
  by (simp add: is_hex_lower_def hex_digit_def is_digit_def byte_of_def of_char_of)

lemma hex_encode_chars: "c \<in> set (hex_encode bs) \<Longrightarrow> is_hex_lower c"
proof (induction bs)
  case Nil
  then show ?case by simp
next
  case (Cons b bs)
  have "unat b div 16 < 16" "unat b mod 16 < 16"
    using unsigned_less[of b, where ?'a = nat] by auto
  with Cons show ?case by auto
qed

end
