(* ===== verification/Netip.thy ===== *)
theory Netip
  imports Go_Strings "HOL-Library.Char_ord" "HOL-Library.List_Lexorder"
begin

unbundle bit_operations_syntax

text \<open>
  Go's \<open>net/netip\<close> as the agent uses it: addresses, prefixes, their parsers, printers and
  orders. \<open>IP4\<close> and \<open>IP6\<close> are the two families of \<open>netip.Addr\<close> (an \<open>IP6\<close> carries its
  zone); the zero \<open>Addr\<close> is \<open>None\<close> where a field may hold it. Parsers return \<open>None\<close> for
  any error.

  The lemmas show that IPv4 parsing and printing are inverse to each other in both
  directions (an accepted dotted-decimal text is the canonical one), that a prefix
  contains exactly the addresses that agree with it under its mask, and the same round
  trip for prefixes.
\<close>

datatype addr = IP4 u32 | IP6 "128 word" string

datatype prefix = Prefix (pfx_addr: addr) (pfx_bits: nat)

fun is4 :: "addr \<Rightarrow> bool" where
  "is4 (IP4 _) = True"
| "is4 (IP6 _ _) = False"

fun is4in6 :: "addr \<Rightarrow> bool" where
  "is4in6 (IP4 _) = False"
| "is4in6 (IP6 a _) = (drop_bit 32 a = 0xffff)"

subsection \<open>Orders: \<open>Addr.Compare\<close>, and address before length for prefixes\<close>

instantiation addr :: linorder
begin

fun less_eq_addr :: "addr \<Rightarrow> addr \<Rightarrow> bool" where
  "less_eq_addr (IP4 a) (IP4 b) = (a \<le> b)"
| "less_eq_addr (IP4 _) (IP6 _ _) = True"
| "less_eq_addr (IP6 _ _) (IP4 _) = False"
| "less_eq_addr (IP6 a z) (IP6 b y) = (a < b \<or> (a = b \<and> z \<le> y))"

definition less_addr :: "addr \<Rightarrow> addr \<Rightarrow> bool" where
  "less_addr a b = (a \<le> b \<and> \<not> b \<le> (a::addr))"

instance
proof
  fix x y z :: addr
  show "(x < y) = (x \<le> y \<and> \<not> y \<le> x)" by (simp add: less_addr_def)
  show "x \<le> x" by (cases x) auto
  show "x \<le> y \<Longrightarrow> y \<le> z \<Longrightarrow> x \<le> z" by (cases x; cases y; cases z) auto
  show "x \<le> y \<Longrightarrow> y \<le> x \<Longrightarrow> x = y" by (cases x; cases y) auto
  show "x \<le> y \<or> y \<le> x" by (cases x; cases y) auto
qed

end

instantiation prefix :: linorder
begin

definition less_eq_prefix :: "prefix \<Rightarrow> prefix \<Rightarrow> bool" where
  "less_eq_prefix p q = (pfx_addr p < pfx_addr q \<or> (pfx_addr p = pfx_addr q \<and> pfx_bits p \<le> pfx_bits q))"

definition less_prefix :: "prefix \<Rightarrow> prefix \<Rightarrow> bool" where
  "less_prefix p q = (p \<le> q \<and> \<not> q \<le> (p::prefix))"

instance
proof
  fix x y z :: prefix
  show "(x < y) = (x \<le> y \<and> \<not> y \<le> x)" by (simp add: less_prefix_def)
  show "x \<le> x" by (simp add: less_eq_prefix_def)
  show "x \<le> y \<Longrightarrow> y \<le> z \<Longrightarrow> x \<le> z" by (auto simp: less_eq_prefix_def)
  show "x \<le> y \<Longrightarrow> y \<le> x \<Longrightarrow> x = y" by (auto simp: less_eq_prefix_def prefix.expand)
  show "x \<le> y \<or> y \<le> x" by (auto simp: less_eq_prefix_def)
qed

end

subsection \<open>Parsing: \<open>netip.ParseAddr\<close>\<close>

text \<open>
  The loop of \<open>parseIPv4Fields\<close>. \<open>fresh\<close> is \<open>i == 0 || s[i-1] == '.'\<close>, \<open>dl\<close> the digits of
  the current octet, \<open>v\<close> its value, \<open>fs\<close> the finished octets.
\<close>

fun ipv4_loop :: "bool \<Rightarrow> nat \<Rightarrow> nat \<Rightarrow> nat list \<Rightarrow> string \<Rightarrow> nat list option" where
  "ipv4_loop fresh dl v fs [] = (if length fs < 3 then None else Some (fs @ [v]))"
| "ipv4_loop fresh dl v fs (c # s) =
     (if is_digit c then
        (if dl = 1 \<and> v = 0 then None
         else let v' = v * 10 + digit_val c
              in if v' > 255 then None else ipv4_loop False (Suc dl) v' fs s)
      else if c = CHR ''.'' then
        (if fresh \<or> s = [] then None
         else if length fs = 3 then None
         else ipv4_loop True 0 0 (fs @ [v]) s)
      else None)"

definition parse_ipv4_fields :: "string \<Rightarrow> nat list option" where
  "parse_ipv4_fields s = ipv4_loop True 0 0 [] s"

definition ipv4_of_fields :: "nat list \<Rightarrow> u32" where
  "ipv4_of_fields fs = of_nat (foldl (\<lambda>v f. v * 256 + f) 0 fs)"

definition parse_ipv4 :: "string \<Rightarrow> addr option" where
  "parse_ipv4 s = map_option (\<lambda>fs. IP4 (ipv4_of_fields fs)) (parse_ipv4_fields s)"

definition is_hex_any :: "char \<Rightarrow> bool" where
  "is_hex_any c = (is_hex_lower c \<or> (65 \<le> byte_of c \<and> byte_of c \<le> 70))"

definition hex_val :: "char \<Rightarrow> nat" where
  "hex_val c = (if is_digit c then digit_val c else if 97 \<le> byte_of c then byte_of c - 87 else byte_of c - 55)"

text \<open>
  The group loop of \<open>parseIPv6\<close>; the first argument counts the groups that still fit (the
  guard \<open>i < 16\<close>), \<open>el\<close> is the position of the ellipsis.
\<close>

fun ipv6_loop ::
  "nat \<Rightarrow> string \<Rightarrow> nat list \<Rightarrow> nat option \<Rightarrow> (string \<times> nat list \<times> nat option) option" where
  "ipv6_loop 0 s gs el = Some (s, gs, el)"
| "ipv6_loop (Suc n) s gs el =
     (let ds = takeWhile is_hex_any s; rest = drop (length ds) s;
          gs' = gs @ [foldl (\<lambda>v c. v * 16 + hex_val c) 0 ds]
      in if length ds > 4 \<or> ds = [] then None
         else case rest of
           [] \<Rightarrow> Some ([], gs', el)
         | c # more \<Rightarrow>
             if c = CHR ''.'' then
               (if el = None \<and> length gs \<noteq> 6 then None
                else if length gs > 6 then None
                else case parse_ipv4_fields s of
                  Some [f0, f1, f2, f3] \<Rightarrow> Some ([], gs @ [f0 * 256 + f1, f2 * 256 + f3], el)
                | _ \<Rightarrow> None)
             else if c \<noteq> CHR '':'' then None
             else case more of
               [] \<Rightarrow> None
             | d # more' \<Rightarrow>
                 if d = CHR '':'' then
                   (if el \<noteq> None then None
                    else if more' = [] then Some ([], gs', Some (length gs'))
                    else ipv6_loop n more' gs' (Some (length gs')))
                 else ipv6_loop n more gs' el)"

definition ipv6_finish :: "string \<Rightarrow> (string \<times> nat list \<times> nat option) option \<Rightarrow> addr option" where
  "ipv6_finish zone r =
     (case r of None \<Rightarrow> None
      | Some (s, gs, el) \<Rightarrow>
          let value = (\<lambda>hs. IP6 (of_nat (foldl (\<lambda>v g. v * 65536 + g) 0 hs)) zone)
          in if s \<noteq> [] then None
             else if length gs < 8 then
               (case el of None \<Rightarrow> None
                | Some e \<Rightarrow> Some (value (take e gs @ replicate (8 - length gs) 0 @ drop e gs)))
             else if el \<noteq> None then None
             else Some (value gs))"

definition parse_ipv6 :: "string \<Rightarrow> addr option" where
  "parse_ipv6 full =
     (let (s, zone, bad) = (case cut (CHR ''%'') full of None \<Rightarrow> (full, [], False)
                            | Some (a, z) \<Rightarrow> (a, z, z = []))
      in if bad then None
         else if has_prefix ''::'' s then
           (if drop 2 s = [] then Some (IP6 0 zone)
            else ipv6_finish zone (ipv6_loop 8 (drop 2 s) [] (Some 0)))
         else ipv6_finish zone (ipv6_loop 8 s [] None))"

fun parse_addr_from :: "string \<Rightarrow> string \<Rightarrow> addr option" where
  "parse_addr_from full [] = None"
| "parse_addr_from full (c # s) =
     (if c = CHR ''.'' then parse_ipv4 full
      else if c = CHR '':'' then parse_ipv6 full
      else if c = CHR ''%'' then None
      else parse_addr_from full s)"

definition ParseAddr :: "string \<Rightarrow> addr option" where
  "ParseAddr s = parse_addr_from s s"

subsection \<open>Printing: \<open>Addr.String\<close>\<close>

fun dotted :: "nat list \<Rightarrow> string" where
  "dotted [] = []"
| "dotted [f] = format_uint f"
| "dotted (f # fs) = format_uint f @ CHR ''.'' # dotted fs"

definition ipv4_fields :: "u32 \<Rightarrow> nat list" where
  "ipv4_fields a = [unat a div 16777216, unat a div 65536 mod 256, unat a div 256 mod 256, unat a mod 256]"

fun hex_group :: "nat \<Rightarrow> string" where
  "hex_group n = (if n < 16 then [hex_digit n] else hex_group (n div 16) @ [hex_digit (n mod 16)])"

declare hex_group.simps [simp del]

definition ipv6_groups :: "128 word \<Rightarrow> nat list" where
  "ipv6_groups a = map (\<lambda>i. unat a div 65536 ^ (7 - i) mod 65536) [0..<8]"

text \<open>The first longest run of at least two zero groups: start and length.\<close>

definition ipv6_zero_run :: "nat list \<Rightarrow> nat \<times> nat" where
  "ipv6_zero_run gs =
     foldl (\<lambda>(st, ln) i. let l = length (takeWhile (\<lambda>g. g = 0) (drop i gs))
                         in if 2 \<le> l \<and> ln < l then (i, l) else (st, ln)) (0, 0) [0..<8]"

fun colon_hex :: "nat list \<Rightarrow> string" where
  "colon_hex [] = []"
| "colon_hex [g] = hex_group g"
| "colon_hex (g # gs) = hex_group g @ CHR '':'' # colon_hex gs"

definition ipv6_string :: "128 word \<Rightarrow> string" where
  "ipv6_string a =
     (let gs = ipv6_groups a; (st, ln) = ipv6_zero_run gs
      in if ln = 0 then colon_hex gs
         else colon_hex (take st gs) @ ''::'' @ colon_hex (drop (st + ln) gs))"

fun addr_string :: "addr \<Rightarrow> string" where
  "addr_string (IP4 a) = dotted (ipv4_fields a)"
| "addr_string (IP6 a zone) =
     (if drop_bit 32 a = 0xffff then ''::ffff:'' @ dotted (ipv4_fields (ucast a)) else ipv6_string a)
     @ (if zone = [] then [] else CHR ''%'' # zone)"

subsection \<open>Prefixes: \<open>ParsePrefix\<close>, \<open>String\<close>, \<open>Masked\<close>, \<open>Contains\<close>\<close>

fun addr_bits :: "addr \<Rightarrow> nat" where
  "addr_bits (IP4 _) = 32"
| "addr_bits (IP6 _ _) = 128"

fun has_zone :: "addr \<Rightarrow> bool" where
  "has_zone (IP4 _) = False"
| "has_zone (IP6 _ z) = (z \<noteq> [])"

text \<open>\<open>strings.LastIndexByte(s, '/')\<close> and the two halves around it.\<close>

definition cut_last :: "char \<Rightarrow> string \<Rightarrow> (string \<times> string) option" where
  "cut_last sep s = map_option (\<lambda>(a, b). (rev b, rev a)) (cut sep (rev s))"

definition ParsePrefix :: "string \<Rightarrow> prefix option" where
  "ParsePrefix s =
     (case cut_last (CHR ''/'') s of None \<Rightarrow> None
      | Some (a, b) \<Rightarrow>
          (case ParseAddr a of None \<Rightarrow> None
           | Some ip \<Rightarrow>
               if has_zone ip then None
               else if length b > 1 \<and> (byte_of (hd b) < 49 \<or> byte_of (hd b) > 57) then None
               else case parse_int b of None \<Rightarrow> None
                    | Some n \<Rightarrow> if n < 0 \<or> n > int (addr_bits ip) then None
                               else Some (Prefix ip (nat n))))"

definition prefix_string :: "prefix \<Rightarrow> string" where
  "prefix_string p = addr_string (pfx_addr p) @ CHR ''/'' # format_uint (pfx_bits p)"

text \<open>\<open>netmask 32 n\<close> is \<open>^uint32(0) << (32 - n)\<close>.\<close>

definition mask4 :: "nat \<Rightarrow> u32" where
  "mask4 n = push_bit (32 - n) (NOT 0)"

definition mask6 :: "nat \<Rightarrow> 128 word" where
  "mask6 n = push_bit (128 - n) (NOT 0)"

fun masked :: "prefix \<Rightarrow> prefix" where
  "masked (Prefix (IP4 a) n) = Prefix (IP4 (a AND mask4 n)) n"
| "masked (Prefix (IP6 a z) n) = Prefix (IP6 (a AND mask6 n) []) n"

fun prefix_contains :: "prefix \<Rightarrow> addr \<Rightarrow> bool" where
  "prefix_contains (Prefix (IP4 p) n) (IP4 a) = (drop_bit (32 - n) (a XOR p) = 0)"
| "prefix_contains (Prefix (IP6 p _) n) (IP6 a z) = (z = [] \<and> (a XOR p) AND mask6 n = 0)"
| "prefix_contains _ _ = False"

subsection \<open>Dotted decimal round trips\<close>

lemma dotted_snoc:
  "dotted (fs @ [v]) = concat (map (\<lambda>f. format_uint f @ ''.'') fs) @ format_uint v"
proof (induction fs)
  case Nil
  then show ?case by simp
next
  case (Cons f fs)
  then show ?case by (cases fs) auto
qed

lemma dot_not_digit [simp]: "\<not> is_digit CHR ''.''" "\<not> is_digit CHR '':''" "\<not> is_digit CHR ''%''"
    "\<not> is_digit CHR ''/''"
  by (simp_all add: is_digit_def byte_of_def)

text \<open>An accepted text is the rendering of the octets read so far followed by the rest.\<close>

lemma ipv4_loop_sound:
  assumes "ipv4_loop fresh dl v fs s = Some gs"
    and "fresh \<longleftrightarrow> dl = 0" and "dl = 0 \<Longrightarrow> v = 0" and "dl > 1 \<Longrightarrow> v > 0" and "v \<le> 255"
    and "length fs \<le> 3" and "\<forall>f\<in>set fs. f \<le> 255"
    and "s = [] \<Longrightarrow> dl > 0 \<or> length fs < 3"
  shows "length gs = 4 \<and> (\<forall>g\<in>set gs. g \<le> 255) \<and>
    dotted gs = concat (map (\<lambda>f. format_uint f @ ''.'') fs) @ (if dl = 0 then [] else format_uint v) @ s"
  using assms
proof (induction fresh dl v fs s rule: ipv4_loop.induct)
  case (1 fresh dl v fs)
  then show ?case by (auto simp: dotted_snoc split: if_splits)
next
  case (2 fresh dl v fs c s)
  show ?case
  proof (cases "is_digit c")
    case True
    let ?v = "v * 10 + digit_val c"
    from True 2(3) have ok: "\<not> (dl = 1 \<and> v = 0)" "?v \<le> 255"
      and rec: "ipv4_loop False (Suc dl) ?v fs s = Some gs"
      by (auto simp: Let_def split: if_splits)
    have pos: "Suc dl > 1 \<Longrightarrow> ?v > 0" using ok(1) 2(6) by (cases dl) auto
    have "length gs = 4 \<and> (\<forall>g\<in>set gs. g \<le> 255) \<and>
      dotted gs = concat (map (\<lambda>f. format_uint f @ ''.'') fs)
        @ (if Suc dl = 0 then [] else format_uint ?v) @ s"
      by (rule 2(1)[OF True ok(1) refl _ rec]) (use ok pos 2 in auto)
    moreover have "format_uint ?v = (if dl = 0 then [] else format_uint v) @ [c]"
    proof (cases "dl = 0")
      case True
      with 2(5) \<open>is_digit c\<close> show ?thesis by (simp add: format_uint_digit)
    next
      case False
      with ok(1) 2(6) have "v > 0" by (cases "dl = 1") auto
      with \<open>is_digit c\<close> False show ?thesis by (simp add: format_uint_snoc)
    qed
    ultimately show ?thesis by simp
  next
    case False
    with 2(3) have c: "c = CHR ''.''" and nf: "\<not> fresh" "s \<noteq> []" "length fs \<noteq> 3"
      and rec: "ipv4_loop True 0 0 (fs @ [v]) s = Some gs"
      by (auto split: if_splits)
    have "length gs = 4 \<and> (\<forall>g\<in>set gs. g \<le> 255) \<and>
      dotted gs = concat (map (\<lambda>f. format_uint f @ ''.'') (fs @ [v]))
        @ (if (0::nat) = 0 then [] else format_uint 0) @ s"
      by (rule 2(2)[OF False c _ nf(3) rec]) (use nf 2 in auto)
    moreover from nf 2(4) have "dl \<noteq> 0" by simp
    ultimately show ?thesis using c by simp
  qed
qed

lemma ipv4_loop_octet:
  "v \<le> 255 \<Longrightarrow>
   ipv4_loop True 0 0 fs (format_uint v @ s) = ipv4_loop False (length (format_uint v)) v fs s"
proof (induction v arbitrary: s rule: format_uint.induct)
  case (1 v)
  show ?case
  proof (cases "v < 10")
    case True
    then show ?thesis by (simp add: format_uint.simps[of v])
  next
    case False
    have fmt: "format_uint v = format_uint (v div 10) @ [digit_char (v mod 10)]"
      using False by (simp add: format_uint.simps[of v])
    have "v div 10 * 10 + v mod 10 = v" by simp
    moreover have "v div 10 \<noteq> 0" using False by (simp add: div_eq_0_iff)
    moreover have "v div 10 \<le> 255" using 1(2) by simp
    ultimately show ?thesis
      using 1(1)[OF False, of "digit_char (v mod 10) # s"] 1(2) by (simp add: fmt Let_def)
  qed
qed

lemma parse_dotted:
  assumes "f0 \<le> 255" "f1 \<le> 255" "f2 \<le> 255" "f3 \<le> 255"
  shows "parse_ipv4_fields (dotted [f0, f1, f2, f3]) = Some [f0, f1, f2, f3]"
proof -
  have fin: "ipv4_loop True 0 0 fs (format_uint f3) = ipv4_loop False (length (format_uint f3)) f3 fs []"
    for fs using ipv4_loop_octet[OF assms(4), of fs "[]"] by simp
  show ?thesis
    by (simp add: parse_ipv4_fields_def assms ipv4_loop_octet fin)
qed

lemma ipv4_fields_bytes: "f \<in> set (ipv4_fields a) \<Longrightarrow> f \<le> 255"
proof -
  have "unat a < 4294967296" using unsigned_less[of a, where ?'a = nat] by simp
  then have "unat a div 16777216 \<le> 255" by linarith
  then show "f \<in> set (ipv4_fields a) \<Longrightarrow> f \<le> 255" by (auto simp: ipv4_fields_def)
qed

lemma ipv4_of_fields_fields: "ipv4_of_fields (ipv4_fields a) = a"
proof -
  have split: "x div 256 * 256 + x mod 256 = x" for x :: nat by (rule div_mult_mod_eq)
  have "x div 65536 = x div 256 div 256" "x div 16777216 = x div 256 div 256 div 256" for x :: nat
    by (simp_all add: div_mult2_eq [symmetric])
  then have "((unat a div 16777216 * 256 + unat a div 65536 mod 256) * 256 + unat a div 256 mod 256) * 256
      + unat a mod 256 = unat a" by (simp only: split)
  then show ?thesis by (simp add: ipv4_of_fields_def ipv4_fields_def)
qed

lemma ipv4_fields_of_fields:
  assumes "f0 \<le> 255" "f1 \<le> 255" "f2 \<le> 255" "f3 \<le> 255"
  shows "ipv4_fields (ipv4_of_fields [f0, f1, f2, f3]) = [f0, f1, f2, f3]"
proof -
  let ?n = "((f0 * 256 + f1) * 256 + f2) * 256 + f3"
  from assms have "?n < 2 ^ LENGTH(32)" by simp
  then have "unat (of_nat ?n :: u32) = ?n" by (rule of_nat_inverse [OF refl])
  moreover have octet: "(x * 256 + f) div 256 = x" "(x * 256 + f) mod 256 = f" if "f \<le> 255" for x f :: nat
    using that by auto
  moreover have "x div 65536 = x div 256 div 256" "x div 16777216 = x div 256 div 256 div 256" for x :: nat
    by (simp_all add: div_mult2_eq [symmetric])
  ultimately have "?n div 16777216 = f0" "?n div 65536 mod 256 = f1"
      "?n div 256 mod 256 = f2" "?n mod 256 = f3"
    using assms by (simp_all only: octet)
  with \<open>unat (of_nat ?n :: u32) = ?n\<close> show ?thesis
    by (simp only: ipv4_fields_def ipv4_of_fields_def foldl.simps mult_0 add_0)
qed

lemma parse_addr_from_dot:
  "\<forall>c\<in>set ds. is_digit c \<Longrightarrow> parse_addr_from full (ds @ CHR ''.'' # s) = parse_ipv4 full"
  by (induction ds) auto

lemma parse_addr_string4 [simp]: "ParseAddr (addr_string (IP4 a)) = Some (IP4 a)"
proof -
  obtain f0 f1 f2 f3 where fs: "ipv4_fields a = [f0, f1, f2, f3]" by (simp add: ipv4_fields_def)
  with ipv4_fields_bytes[of _ a] have "f0 \<le> 255" "f1 \<le> 255" "f2 \<le> 255" "f3 \<le> 255" by auto
  then have "parse_ipv4 (dotted (ipv4_fields a)) = Some (IP4 a)"
    using fs ipv4_of_fields_fields[of a] by (simp add: parse_ipv4_def parse_dotted del: dotted.simps)
  moreover have "parse_addr_from full (dotted (ipv4_fields a)) = parse_ipv4 full" for full
    using parse_addr_from_dot[of "format_uint f0" full] format_uint_digits fs by simp
  ultimately show ?thesis by (simp add: ParseAddr_def)
qed

lemma parse_ipv6_family: "parse_ipv6 s = Some a \<Longrightarrow> \<not> is4 a"
  by (auto simp: parse_ipv6_def ipv6_finish_def Let_def split: option.splits if_splits prod.splits)

lemma parse_addr_from_IP4: "parse_addr_from full s = Some (IP4 a) \<Longrightarrow> parse_ipv4 full = Some (IP4 a)"
proof (induction s)
  case Nil
  then show ?case by simp
next
  case (Cons c s)
  then show ?case using parse_ipv6_family[of full "IP4 a"] by (auto split: if_splits)
qed

lemma parse_addr_canonical:
  assumes "ParseAddr s = Some (IP4 a)"
  shows "addr_string (IP4 a) = s"
proof -
  from assms obtain fs where fs: "parse_ipv4_fields s = Some fs" and a: "a = ipv4_of_fields fs"
    using parse_addr_from_IP4[OF assms[unfolded ParseAddr_def]] by (auto simp: parse_ipv4_def)
  from ipv4_loop_sound[OF fs[unfolded parse_ipv4_fields_def]]
  have sound: "length fs = 4" "\<forall>g\<in>set fs. g \<le> 255" "dotted fs = s" by auto
  then obtain f0 f1 f2 f3 where "fs = [f0, f1, f2, f3]"
    by (auto simp: length_Suc_conv eval_nat_numeral)
  with sound a show ?thesis by (auto simp: ipv4_fields_of_fields)
qed


subsection \<open>Prefix round trips\<close>

lemma cut_last_append: "sep \<notin> set b \<Longrightarrow> cut_last sep (a @ sep # b) = Some (a, b)"
  using cut_append[of sep "rev b" "rev a"] by (simp add: cut_last_def)

lemma cut_last_SomeD: "cut_last sep s = Some (a, b) \<Longrightarrow> s = a @ sep # b \<and> sep \<notin> set b"
proof -
  assume "cut_last sep s = Some (a, b)"
  then have "cut sep (rev s) = Some (rev b, rev a)"
    by (auto simp: cut_last_def)
  then have "rev s = rev b @ sep # rev a" "sep \<notin> set (rev b)"
    using cut_SomeD by fast+
  then have "rev (rev s) = rev (rev b @ sep # rev a)" "sep \<notin> set b" by simp_all
  then show ?thesis by simp
qed

lemma format_uint_no_leading_zero:
  "length (format_uint n) > 1 \<Longrightarrow> 49 \<le> byte_of (hd (format_uint n)) \<and> byte_of (hd (format_uint n)) \<le> 57"
proof (induction n rule: format_uint.induct)
  case (1 n)
  show ?case
  proof (cases "n < 10")
    case True
    with 1 show ?thesis by (simp add: format_uint.simps[of n])
  next
    case False
    have fmt: "format_uint n = format_uint (n div 10) @ [digit_char (n mod 10)]"
      using False by (simp add: format_uint.simps[of n])
    show ?thesis
    proof (cases "n div 10 < 10")
      case True
      then have "format_uint (n div 10) = [digit_char (n div 10)]" by (simp add: format_uint.simps[of "n div 10"])
      with fmt False True show ?thesis by simp
    next
      case big: False
      then have "length (format_uint (n div 10)) > 1" by (simp add: format_uint.simps[of "n div 10"] Suc_lessI)
      with 1(1)[OF False] fmt show ?thesis by simp
    qed
  qed
qed

lemma parse_prefix_string4:
  assumes "n \<le> 32"
  shows "ParsePrefix (prefix_string (Prefix (IP4 a) n)) = Some (Prefix (IP4 a) n)"
proof -
  have "CHR ''/'' \<notin> set (format_uint n)" using format_uint_digits dot_not_digit(4) by blast
  then have cut: "cut_last (CHR ''/'') (prefix_string (Prefix (IP4 a) n)) = Some (addr_string (IP4 a), format_uint n)"
    by (simp add: prefix_string_def cut_last_append)
  have "parse_int (format_uint n) = Some (int n)"
    using parse_int_format[of "int n"] assms by (simp add: format_int_nonneg)
  moreover have "\<not> (length (format_uint n) > 1 \<and> (byte_of (hd (format_uint n)) < 49 \<or> byte_of (hd (format_uint n)) > 57))"
    using format_uint_no_leading_zero[of n] by linarith
  ultimately show ?thesis
    using assms cut by (simp add: ParsePrefix_def del: addr_string.simps)
qed

lemma parse_prefix_bits: "ParsePrefix s = Some p \<Longrightarrow> pfx_bits p \<le> addr_bits (pfx_addr p)"
  by (auto simp: ParsePrefix_def split: option.splits if_splits prod.splits)

subsection \<open>Masks\<close>

lemma bit_mask4: "bit (mask4 n) i \<longleftrightarrow> i < 32 \<and> 32 - n \<le> i"
  by (auto simp: mask4_def bit_push_bit_iff bit_not_iff bit_mask_iff)

text \<open>
  Containment is equality under the mask: the test of \<open>Prefix.Contains\<close> and the masked
  comparison a firewall rule makes accept the same addresses.
\<close>

lemma prefix_contains_mask4:
  "prefix_contains (Prefix (IP4 p) n) (IP4 a) \<longleftrightarrow> a AND mask4 n = p AND mask4 n"
proof -
  have "drop_bit (32 - n) (a XOR p) = 0 \<longleftrightarrow> (\<forall>i. i < 32 \<and> 32 - n \<le> i \<longrightarrow> (bit a i \<longleftrightarrow> bit p i))"
    (is "?l \<longleftrightarrow> ?r")
  proof
    assume l: ?l
    show ?r
    proof (intro allI impI)
      fix i assume i: "i < 32 \<and> 32 - n \<le> i"
      from l have "\<not> bit (drop_bit (32 - n) (a XOR p)) (i - (32 - n))" by simp
      with i show "bit a i \<longleftrightarrow> bit p i" by (auto simp: bit_drop_bit_eq bit_xor_iff)
    qed
  next
    assume ?r
    then show ?l
      by (intro bit_word_eqI) (use bit_imp_le_length[of a] bit_imp_le_length[of p] in
        \<open>fastforce simp: bit_drop_bit_eq bit_xor_iff\<close>)
  qed
  moreover have "a AND mask4 n = p AND mask4 n \<longleftrightarrow>
      (\<forall>i. i < 32 \<and> 32 - n \<le> i \<longrightarrow> (bit a i \<longleftrightarrow> bit p i))"
    by (auto simp: bit_eq_iff bit_and_iff bit_mask4)
  ultimately show ?thesis by simp
qed

lemma masked_canonical4: "masked (Prefix (IP4 p) n) = Prefix (IP4 p) n \<longleftrightarrow> p AND mask4 n = p"
  by simp

text \<open>Unfolding lemmas with which the simplifier runs the parsers and printers on closed texts.\<close>

lemmas netip_eval =
  ParsePrefix_def cut_last_def ParseAddr_def parse_ipv4_def parse_ipv4_fields_def ipv4_of_fields_def
  parse_int_def parse_uint_def digits_value_def digit_val_def is_digit_def byte_of_def
  prefix_string_def ipv4_fields_def format_uint.simps digit_char_def Let_def mask4_def
  char_of_def bit_0 mask_eq_exp_minus_1

end
