(* ===== verification/Json.thy ===== *)
theory Json
  imports Go_Strings
begin

text \<open>
  \<open>encoding/json\<close> as the agent uses it. A document is its syntax tree: a number keeps its
  literal, a string its decoded bytes, an object its members in order, repeated keys
  included. A body (\<open>jbody\<close>) is either not JSON at all or a first value and the bytes that
  follow it, which is what \<open>json.Decoder\<close> works on.

  The decoders follow \<open>Decode\<close> into an existing Go value: they take the value the target
  holds and return the new one, \<open>None\<close> for any error. A \<open>null\<close> leaves a scalar as it is
  and clears a pointer or slice; a key matches a field without regard to case
  (\<open>fold_name\<close> is the package's \<open>foldName\<close>); a repeated key is decoded over the first.
\<close>

datatype json =
    JNull
  | JBool bool
  | JNum string
  | JStr string
  | JArr "json list"
  | JObj "(string \<times> json) list"

datatype jbody = BadJson | JDoc json string

subsection \<open>The decoder's view of a body\<close>

definition json_space :: "char \<Rightarrow> bool" where
  "json_space c = (byte_of c \<in> {9, 10, 13, 32})"

text \<open>\<open>json.Unmarshal\<close>: the whole body must be one value.\<close>

definition Unmarshal :: "jbody \<Rightarrow> json option" where
  "Unmarshal b = (case b of BadJson \<Rightarrow> None
     | JDoc v rest \<Rightarrow> if dropWhile json_space rest = [] then Some v else None)"

text \<open>\<open>Decoder.Decode\<close>: the first value only.\<close>

definition DecodeFirst :: "jbody \<Rightarrow> json option" where
  "DecodeFirst b = (case b of BadJson \<Rightarrow> None | JDoc v rest \<Rightarrow> Some v)"

text \<open>\<open>Decoder.More\<close>: something follows that is not a closing bracket or brace.\<close>

definition More :: "jbody \<Rightarrow> bool" where
  "More b = (case b of BadJson \<Rightarrow> False
     | JDoc v rest \<Rightarrow> (case dropWhile json_space rest of [] \<Rightarrow> False
         | c # _ \<Rightarrow> c \<noteq> CHR '']'' \<and> c \<noteq> CHR ''}''))"

text \<open>\<open>bytes.Equal(bytes.TrimSpace(data), []byte("null"))\<close>.\<close>

definition is_null_body :: "jbody \<Rightarrow> bool" where
  "is_null_body b = (Unmarshal b = Some JNull)"

text \<open>Decoding into \<open>map[string]json.RawMessage\<close>; the last binding of a key is the one kept.\<close>

definition raw_map :: "json \<Rightarrow> (string \<times> json) list option" where
  "raw_map v = (case v of JNull \<Rightarrow> Some [] | JObj kvs \<Rightarrow> Some (rev kvs) | _ \<Rightarrow> None)"

subsection \<open>Field names\<close>

fun fold_name :: "string \<Rightarrow> string" where
  "fold_name [] = []"
| "fold_name (c # s) =
     (if byte_of c = 197 \<and> take 1 s = bytes [191] then CHR ''s'' # fold_name (drop 1 s)
      else if byte_of c = 226 \<and> take 2 s = bytes [132, 170] then CHR ''k'' # fold_name (drop 2 s)
      else lower_char c # fold_name s)"

declare fold_name.simps [simp del]

subsection \<open>Decoders\<close>

definition dec_i64 :: "json \<Rightarrow> int \<Rightarrow> int option" where
  "dec_i64 v x = (case v of JNull \<Rightarrow> Some x | JNum s \<Rightarrow> parse_int s | _ \<Rightarrow> None)"

definition dec_uint :: "json \<Rightarrow> 'a::len word \<Rightarrow> 'a word option" where
  "dec_uint v x = (case v of JNull \<Rightarrow> Some x
     | JNum s \<Rightarrow> map_option of_nat (parse_uint LENGTH('a) s) | _ \<Rightarrow> None)"

definition dec_ptr_uint :: "json \<Rightarrow> 'a::len word option option" where
  "dec_ptr_uint v = (case v of JNull \<Rightarrow> Some None
     | JNum s \<Rightarrow> map_option (Some \<circ> of_nat) (parse_uint LENGTH('a) s) | _ \<Rightarrow> None)"

definition dec_ptr_i64 :: "json \<Rightarrow> int option option" where
  "dec_ptr_i64 v = (case v of JNull \<Rightarrow> Some None
     | JNum s \<Rightarrow> map_option Some (parse_int s) | _ \<Rightarrow> None)"

definition dec_str :: "json \<Rightarrow> string \<Rightarrow> string option" where
  "dec_str v x = (case v of JNull \<Rightarrow> Some x | JStr s \<Rightarrow> Some s | _ \<Rightarrow> None)"

definition dec_bool :: "json \<Rightarrow> bool \<Rightarrow> bool option" where
  "dec_bool v x = (case v of JNull \<Rightarrow> Some x | JBool b \<Rightarrow> Some b | _ \<Rightarrow> None)"

text \<open>
  Array elements are decoded over the elements the slice already holds, then over zero
  values.
\<close>

fun dec_elems :: "(json \<Rightarrow> 'a \<Rightarrow> 'a option) \<Rightarrow> 'a \<Rightarrow> json list \<Rightarrow> 'a list \<Rightarrow> 'a list option" where
  "dec_elems f z [] old = Some []"
| "dec_elems f z (v # vs) old =
     (case f v (case old of [] \<Rightarrow> z | x # _ \<Rightarrow> x) of None \<Rightarrow> None
      | Some x \<Rightarrow> map_option ((#) x) (dec_elems f z vs (tl old)))"

definition dec_slice ::
  "(json \<Rightarrow> 'a \<Rightarrow> 'a option) \<Rightarrow> 'a \<Rightarrow> json \<Rightarrow> 'a list option \<Rightarrow> 'a list option option" where
  "dec_slice f z v old = (case v of JNull \<Rightarrow> Some None
     | JArr vs \<Rightarrow> map_option Some (dec_elems f z vs (case old of None \<Rightarrow> [] | Some xs \<Rightarrow> xs))
     | _ \<Rightarrow> None)"

text \<open>
  A struct with \<open>DisallowUnknownFields\<close>: every member goes to the field it names, and
  \<open>set_field\<close> returns \<open>None\<close> for a name that is no field.
\<close>

fun dec_fields :: "(string \<Rightarrow> json \<Rightarrow> 'r \<Rightarrow> 'r option) \<Rightarrow> (string \<times> json) list \<Rightarrow> 'r \<Rightarrow> 'r option" where
  "dec_fields set_field [] r = Some r"
| "dec_fields set_field ((k, v) # kvs) r =
     (case set_field (fold_name k) v r of None \<Rightarrow> None | Some r' \<Rightarrow> dec_fields set_field kvs r')"

definition dec_struct :: "(string \<Rightarrow> json \<Rightarrow> 'r \<Rightarrow> 'r option) \<Rightarrow> json \<Rightarrow> 'r \<Rightarrow> 'r option" where
  "dec_struct set_field v r = (case v of JNull \<Rightarrow> Some r | JObj kvs \<Rightarrow> dec_fields set_field kvs r | _ \<Rightarrow> None)"

subsection \<open>Encoders and their round trips\<close>

definition enc_uint :: "'a::len word \<Rightarrow> json" where
  "enc_uint w = JNum (format_uint (unat w))"

definition enc_i64 :: "int \<Rightarrow> json" where
  "enc_i64 i = JNum (format_int i)"

definition int64 :: "int \<Rightarrow> bool" where
  "int64 i = (- (2 ^ 63) \<le> i \<and> i < 2 ^ 63)"

lemma unat_less_2p: "unat (w :: 'a::len word) < 2 ^ LENGTH('a)"
  using unsigned_less[of w, where ?'a = nat] by simp

lemma parse_uint_unat: "parse_uint LENGTH('a) (format_uint (unat (w :: 'a::len word))) = Some (unat w)"
  by (rule parse_uint_format) (rule unat_less_2p)

lemma dec_enc_uint [simp]: "dec_uint (enc_uint w) x = Some w"
  by (simp add: dec_uint_def enc_uint_def parse_uint_unat)

lemma dec_enc_ptr_uint [simp]: "dec_ptr_uint (enc_uint w) = Some (Some w)"
  by (simp add: dec_ptr_uint_def enc_uint_def parse_uint_unat)

lemma dec_enc_i64 [simp]: "int64 i \<Longrightarrow> dec_i64 (enc_i64 i) x = Some i"
  by (simp add: dec_i64_def enc_i64_def int64_def)

lemma dec_enc_ptr_i64 [simp]: "int64 i \<Longrightarrow> dec_ptr_i64 (enc_i64 i) = Some (Some i)"
  by (simp add: dec_ptr_i64_def enc_i64_def int64_def)

lemma dec_str_JStr [simp]: "dec_str (JStr s) x = Some s"
  by (simp add: dec_str_def)

lemma dec_bool_JBool [simp]: "dec_bool (JBool b) x = Some b"
  by (simp add: dec_bool_def)

lemma dec_elems_map:
  assumes "\<And>x. x \<in> set xs \<Longrightarrow> f (g x) z = Some (h x)"
  shows "dec_elems f z (map g xs) [] = Some (map h xs)"
  using assms by (induction xs) auto

lemma dec_slice_map:
  assumes "\<And>x. x \<in> set xs \<Longrightarrow> f (g x) z = Some (h x)"
  shows "dec_slice f z (JArr (map g xs)) None = Some (Some (map h xs))"
  using dec_elems_map[of xs f g z h] assms by (simp add: dec_slice_def)

lemma dec_i64_int64: "dec_i64 v x = Some i \<Longrightarrow> int64 x \<Longrightarrow> int64 i"
  by (auto simp: dec_i64_def int64_def dest: parse_int_bounds split: json.splits)

lemma dec_ptr_i64_int64: "dec_ptr_i64 v = Some (Some i) \<Longrightarrow> int64 i"
  by (auto simp: dec_ptr_i64_def int64_def dest: parse_int_bounds split: json.splits)

lemma dec_elems_all:
  assumes "dec_elems f z vs old = Some xs" and "P z" and "\<forall>x\<in>set old. P x"
    and "\<And>v x y. f v x = Some y \<Longrightarrow> P x \<Longrightarrow> P y"
  shows "\<forall>x\<in>set xs. P x"
  using assms(1,3)
proof (induction vs arbitrary: old xs)
  case Nil
  then show ?case by simp
next
  case (Cons v vs)
  then obtain x ys where x: "f v (case old of [] \<Rightarrow> z | x # _ \<Rightarrow> x) = Some x"
    and ys: "dec_elems f z vs (tl old) = Some ys" and xs: "xs = x # ys"
    by (auto split: option.splits)
  have "P (case old of [] \<Rightarrow> z | x # _ \<Rightarrow> x)" using assms(2) Cons.prems(2) by (auto split: list.split)
  with x assms(4) have "P x" by blast
  moreover have "set (tl old) \<subseteq> set old" by (cases old) auto
  then have "\<forall>x\<in>set ys. P x" using Cons.IH[OF ys] Cons.prems(2) by blast
  ultimately show ?case using xs by simp
qed

lemma dec_slice_all:
  assumes "dec_slice f z v old = Some (Some xs)" and "P z" and "\<forall>ys. old = Some ys \<longrightarrow> (\<forall>x\<in>set ys. P x)"
    and "\<And>v x y. f v x = Some y \<Longrightarrow> P x \<Longrightarrow> P y"
  shows "\<forall>x\<in>set xs. P x"
proof -
  from assms(1) obtain vs where
    "dec_elems f z vs (case old of None \<Rightarrow> [] | Some xs \<Rightarrow> xs) = Some xs"
    by (auto simp: dec_slice_def split: json.splits)
  then show ?thesis
    by (rule dec_elems_all) (use assms in \<open>auto split: option.split\<close>)
qed

lemma dec_fields_invariant:
  assumes "dec_fields sf kvs r = Some r'" and "P r"
    and "\<And>k v x y. sf k v x = Some y \<Longrightarrow> P x \<Longrightarrow> P y"
  shows "P r'"
  using assms(1,2)
proof (induction kvs arbitrary: r)
  case Nil
  then show ?case by simp
next
  case (Cons kv kvs)
  then show ?case using assms(3) by (cases kv) (auto split: option.splits)
qed

lemma dec_struct_invariant:
  assumes "dec_struct sf v r = Some r'" and "P r"
    and "\<And>k v x y. sf k v x = Some y \<Longrightarrow> P x \<Longrightarrow> P y"
  shows "P r'"
  using assms by (auto simp: dec_struct_def intro: dec_fields_invariant split: json.splits)

lemma dec_fields_append:
  "dec_fields sf (xs @ ys) r = (case dec_fields sf xs r of None \<Rightarrow> None | Some r' \<Rightarrow> dec_fields sf ys r')"
  by (induction sf xs r rule: dec_fields.induct) (auto split: option.split)

end
