(* ===== verification/Source_Policy.thy ===== *)
theory Source_Policy
  imports Netip Json
begin

text \<open>
  \<open>internal/sourcepolicy\<close>: the per-mapping allowlist of source networks.

  A \<open>Policy\<close> is its list of prefixes; the pointer \<open>*Policy\<close> (and \<open>Optional\<close>, which wraps
  it) is an \<open>option\<close>, \<open>None\<close> for the omitted legacy policy. \<open>Parse\<close> is \<open>policy_Parse\<close>, its
  loop body \<open>policy_step\<close>; the loop state is the duplicate set and the prefixes accepted so
  far. JSON goes through \<open>policy_UnmarshalJSON\<close> and \<open>policy_MarshalJSON\<close>.

  Shown: exactly which lists of texts are accepted, that an accepted policy is sorted,
  free of duplicates and made of canonical IPv4 networks, and that a policy survives
  being written to JSON and read back.
\<close>

type_synonym policy = "prefix list"

definition MaxCIDRs :: nat where
  "MaxCIDRs = 128"

datatype policy_error =
    TooManyCIDRs nat
  | NotCanonical string
  | NotIPv4 string
  | DuplicateCIDR string
  | PolicyNotObject
  | PolicyField
  | PolicyCidrsType
  | PolicyNotExplicit

subsection \<open>Parse\<close>

text \<open>The guard of line 32: not a prefix, or not written the way \<open>String\<close> writes its masked form.\<close>

definition canonical_prefix :: "string \<Rightarrow> prefix option" where
  "canonical_prefix cidr =
     (case ParsePrefix cidr of None \<Rightarrow> None
      | Some p \<Rightarrow>
          if is4in6 (pfx_addr p) \<or> p \<noteq> masked p \<or> prefix_string p \<noteq> cidr then None else Some p)"

definition policy_step :: "prefix set \<times> prefix list \<Rightarrow> string \<Rightarrow> (policy_error, prefix set \<times> prefix list) result" where
  "policy_step st cidr =
     (case st of (seen, prefixes) \<Rightarrow>
      case canonical_prefix cidr of
        None \<Rightarrow> Inl (NotCanonical cidr)
      | Some p \<Rightarrow>
          if \<not> is4 (pfx_addr p) then Inl (NotIPv4 cidr)
          else if p \<in> seen then Inl (DuplicateCIDR cidr)
          else Inr (insert p seen, prefixes @ [p]))"

text \<open>\<open>slices.SortFunc\<close> by address, then by length: the order of type \<open>prefix\<close>.\<close>

definition policy_Parse :: "string list option \<Rightarrow> (policy_error, policy option) result" where
  "policy_Parse arg =
     (case arg of None \<Rightarrow> Inr None
      | Some cidrs \<Rightarrow>
          if length cidrs > MaxCIDRs then Inl (TooManyCIDRs (length cidrs))
          else rbind (scan policy_step ({}, []) cidrs) (\<lambda>(seen, prefixes). Inr (Some (sort prefixes))))"

text \<open>\<open>(*Policy).Prefixes\<close>: a copy of the list; nil for a nil policy.\<close>

definition policy_Prefixes :: "policy option \<Rightarrow> prefix list option" where
  "policy_Prefixes p = p"

subsection \<open>Optional\<close>

definition FromCIDRs :: "string list option \<Rightarrow> (policy_error, policy option) result" where
  "FromCIDRs cidrs = policy_Parse cidrs"

text \<open>The member loop of \<open>UnmarshalJSON\<close>; its state is \<open>(cidrs, seen)\<close>.\<close>

definition policy_member_step ::
  "string list option \<times> bool \<Rightarrow> string \<times> json \<Rightarrow> (policy_error, string list option \<times> bool) result" where
  "policy_member_step st kv =
     (case st of (cidrs, seen) \<Rightarrow> case kv of (field, v) \<Rightarrow>
        if field \<noteq> ''allowedCidrs'' \<or> seen then Inl PolicyField
        else case dec_slice dec_str [] v cidrs of
               None \<Rightarrow> Inl PolicyCidrsType
             | Some cs \<Rightarrow> Inr (cs, True))"

definition policy_UnmarshalJSON :: "json \<Rightarrow> (policy_error, policy option) result" where
  "policy_UnmarshalJSON data =
     (case data of
        JObj kvs \<Rightarrow>
          rbind (scan policy_member_step (None, False) kvs)
            (\<lambda>(cidrs, seen). if \<not> seen \<or> cidrs = None then Inl PolicyNotExplicit else policy_Parse cidrs)
      | _ \<Rightarrow> Inl PolicyNotObject)"

definition policy_MarshalJSON :: "policy option \<Rightarrow> json" where
  "policy_MarshalJSON p =
     (case p of None \<Rightarrow> JNull
      | Some prefixes \<Rightarrow> JObj [(''allowedCidrs'', JArr (map (\<lambda>x. JStr (prefix_string x)) prefixes))])"

subsection \<open>The parse loop as a keyed loop\<close>

definition accepted_cidr :: "string \<Rightarrow> bool" where
  "accepted_cidr cidr = (\<exists>p. canonical_prefix cidr = Some p \<and> is4 (pfx_addr p))"

definition cidr_keys :: "string \<Rightarrow> prefix set" where
  "cidr_keys cidr = set_option (canonical_prefix cidr)"

interpretation policy_loop: keyed_loop policy_step accepted_cidr cidr_keys fst
  by unfold_locales
    (auto simp: policy_step_def accepted_cidr_def cidr_keys_def is_ok_def split: prod.splits option.splits if_splits)

definition canonical4 :: "prefix \<Rightarrow> bool" where
  "canonical4 p = (is4 (pfx_addr p) \<and> pfx_bits p \<le> 32 \<and> masked p = p)"

lemma canonical_prefix_SomeD:
  assumes "canonical_prefix cidr = Some p"
  shows "prefix_string p = cidr" "masked p = p" "pfx_bits p \<le> addr_bits (pfx_addr p)"
  using assms parse_prefix_bits[of cidr p]
  by (auto simp: canonical_prefix_def split: option.splits if_splits)

lemma canonical_prefix_inj:
  "canonical_prefix c = Some p \<Longrightarrow> canonical_prefix d = Some p \<Longrightarrow> c = d"
  using canonical_prefix_SomeD(1) by metis

lemma canonical4_prefix_string:
  assumes "canonical4 p"
  shows "canonical_prefix (prefix_string p) = Some p"
proof -
  obtain a n where p: "p = Prefix (IP4 a) n" and n: "n \<le> 32"
    using assms by (cases p; cases "pfx_addr p") (auto simp: canonical4_def)
  with assms show ?thesis
    by (simp add: canonical_prefix_def parse_prefix_string4 canonical4_def del: masked.simps)
qed

lemma accepted_cidr_canonical4: "accepted_cidr c \<Longrightarrow> \<exists>p. canonical_prefix c = Some p \<and> canonical4 p"
  using canonical_prefix_SomeD
  by (fastforce simp: accepted_cidr_def canonical4_def elim: is4.elims)

text \<open>What the loop collects: the prefixes of the texts, in order.\<close>

lemma policy_scan_out:
  "scan policy_step (S, ps) cidrs = Inr (S', qs) \<Longrightarrow> qs = ps @ map (\<lambda>c. the (canonical_prefix c)) cidrs"
  using scan_collect[where out = snd and g = "\<lambda>c. the (canonical_prefix c)" and f = policy_step
      and s = "(S, ps)" and t = "(S', qs)" and xs = cidrs]
  by (force simp: policy_step_def split: prod.splits option.splits if_splits)

lemma cidr_keys_apart:
  "(\<forall>c\<in>set cidrs. accepted_cidr c) \<Longrightarrow> policy_loop.keys_apart cidrs \<longleftrightarrow> distinct cidrs"
proof (induction cidrs)
  case Nil
  then show ?case by (simp add: policy_loop.keys_apart_def)
next
  case (Cons c cs)
  have "(\<forall>d\<in>set cs. cidr_keys c \<inter> cidr_keys d = {}) \<longleftrightarrow> c \<notin> set cs"
    using Cons.prems canonical_prefix_inj
    by (auto simp: cidr_keys_def accepted_cidr_def)
  with Cons show ?case by (simp add: policy_loop.keys_apart_Cons)
qed

lemma policy_scan_ok_iff:
  "is_ok (scan policy_step ({}, []) cidrs) \<longleftrightarrow> (\<forall>c\<in>set cidrs. accepted_cidr c) \<and> distinct cidrs"
  using cidr_keys_apart by (auto simp: policy_loop.loop_iff)

lemma policy_Parse_Some_iff:
  "policy_Parse (Some cidrs) = Inr r \<longleftrightarrow>
     length cidrs \<le> MaxCIDRs \<and> distinct cidrs \<and> (\<forall>c\<in>set cidrs. accepted_cidr c) \<and>
     r = Some (sort (map (\<lambda>c. the (canonical_prefix c)) cidrs))"
proof (cases "scan policy_step ({}, []) cidrs")
  case (Inl e)
  with policy_scan_ok_iff[of cidrs] show ?thesis by (auto simp: policy_Parse_def)
next
  case (Inr st)
  obtain S qs where st: "st = (S, qs)" by (cases st)
  have "qs = map (\<lambda>c. the (canonical_prefix c)) cidrs"
    using policy_scan_out[OF Inr[unfolded st]] by simp
  with Inr st policy_scan_ok_iff[of cidrs] show ?thesis by (auto simp: policy_Parse_def not_less)
qed


subsection \<open>What a policy promises\<close>

lemma policy_Parse_props:
  assumes "policy_Parse (Some cidrs) = Inr r"
  shows "\<exists>ps. r = Some ps \<and> sorted ps \<and> distinct ps \<and> length ps = length cidrs \<and> length cidrs \<le> MaxCIDRs
    \<and> (\<forall>p\<in>set ps. canonical4 p) \<and> prefix_string ` set ps = set cidrs"
proof -
  let ?f = "\<lambda>c. the (canonical_prefix c)"
  from assms have len: "length cidrs \<le> MaxCIDRs" and dis: "distinct cidrs"
    and acc: "\<forall>c\<in>set cidrs. accepted_cidr c" and r: "r = Some (sort (map ?f cidrs))"
    by (simp_all add: policy_Parse_Some_iff)
  have f: "canonical_prefix c = Some (?f c) \<and> canonical4 (?f c) \<and> prefix_string (?f c) = c" if "c \<in> set cidrs" for c
    using acc that accepted_cidr_canonical4[of c] canonical_prefix_SomeD(1)[of c] by fastforce
  then have "inj_on ?f (set cidrs)" by (intro inj_onI) metis
  with dis have "distinct (sort (map ?f cidrs))" by (simp add: distinct_map)
  moreover have "prefix_string ` set (sort (map ?f cidrs)) = set cidrs"
    using f by (auto simp: image_image)
  ultimately show ?thesis using r len f by auto
qed

lemma policy_UnmarshalJSON_parse:
  assumes "policy_UnmarshalJSON j = Inr p"
  shows "\<exists>cidrs. policy_Parse (Some cidrs) = Inr p"
  using assms
  by (auto simp: policy_UnmarshalJSON_def rbind_Inr_iff split: json.splits if_splits prod.splits)

lemma accepted_cidr_iff:
  "accepted_cidr c \<longleftrightarrow>
     (\<exists>p. ParsePrefix c = Some p \<and> is4 (pfx_addr p) \<and> masked p = p \<and> prefix_string p = c)"
proof -
  have four: "is4 a \<Longrightarrow> \<not> is4in6 a" for a by (cases a) auto
  show ?thesis
    using four by (auto simp: accepted_cidr_def canonical_prefix_def split: option.splits if_splits)
qed

text \<open>
  C22: a source policy is accepted exactly when it has at most 128 entries, none repeated,
  each the canonical spelling of an IPv4 network with no host bits; the policy then holds
  just those networks, sorted and without duplicates.
\<close>

theorem policy_parse_exact:
  "policy_Parse (Some cidrs) = Inr r \<longleftrightarrow>
     length cidrs \<le> 128 \<and> distinct cidrs \<and>
     (\<forall>c\<in>set cidrs. \<exists>p. ParsePrefix c = Some p \<and> is4 (pfx_addr p) \<and> masked p = p \<and> prefix_string p = c) \<and>
     (\<exists>ps. r = Some ps \<and> sorted ps \<and> distinct ps \<and> set ps = {p. \<exists>c\<in>set cidrs. ParsePrefix c = Some p})"
    (is "?run \<longleftrightarrow> ?len \<and> distinct cidrs \<and> (\<forall>c\<in>set cidrs. ?acc c) \<and> ?res")
proof -
  let ?f = "\<lambda>c. the (canonical_prefix c)"
  have acc: "accepted_cidr c \<longleftrightarrow> ?acc c" for c by (rule accepted_cidr_iff)
  have eq: "canonical_prefix c = ParsePrefix c" if "accepted_cidr c" for c
    using that by (auto simp: accepted_cidr_def canonical_prefix_def split: option.splits if_splits)
  have set: "set (map ?f cidrs) = {p. \<exists>c\<in>set cidrs. ParsePrefix c = Some p}" if "\<forall>c\<in>set cidrs. accepted_cidr c"
    using that eq by (force simp: accepted_cidr_def)
  have "?run \<longleftrightarrow> ?res" if ok: "?len" "distinct cidrs" "\<forall>c\<in>set cidrs. accepted_cidr c"
  proof -
    from ok have run: "policy_Parse (Some cidrs) = Inr (Some (sort (map ?f cidrs)))"
      by (simp add: policy_Parse_Some_iff MaxCIDRs_def)
    then have xs: "sorted (sort (map ?f cidrs))" "distinct (sort (map ?f cidrs))"
      using policy_Parse_props by blast+
    have "?res \<longleftrightarrow> r = Some (sort (map ?f cidrs))"
    proof
      assume ?res
      then obtain ps where "r = Some ps" "sorted ps" "distinct ps" "set ps = set (sort (map ?f cidrs))"
        using set[OF ok(3)] by auto
      with xs show "r = Some (sort (map ?f cidrs))" using sorted_distinct_set_unique by blast
    qed (use xs set[OF ok(3)] in auto)
    with run show ?thesis by auto
  qed
  moreover have "?run \<Longrightarrow> ?len \<and> distinct cidrs \<and> (\<forall>c\<in>set cidrs. accepted_cidr c)"
    by (simp add: policy_Parse_Some_iff MaxCIDRs_def)
  ultimately show ?thesis unfolding acc [symmetric] by blast
qed

lemma policy_parse_exact_witness:
  "\<exists>ps. policy_Parse (Some [''10.0.0.0/8'', ''0.0.0.0/0'']) = Inr (Some ps) \<and> sorted ps \<and> distinct ps
     \<and> ps = [Prefix (IP4 0) 0, Prefix (IP4 0x0a000000) 8]"
proof -
  have run: "policy_Parse (Some [''10.0.0.0/8'', ''0.0.0.0/0'']) =
      Inr (Some [Prefix (IP4 0) 0, Prefix (IP4 0x0a000000) 8])"
    by (simp add: policy_Parse_def MaxCIDRs_def policy_step_def canonical_prefix_def less_eq_prefix_def
        less_addr_def netip_eval)
  from run run[unfolded policy_parse_exact] show ?thesis by blast
qed

lemma policy_UnmarshalJSON_stable:
  assumes "policy_UnmarshalJSON j = Inr p"
  shows "policy_UnmarshalJSON (policy_MarshalJSON p) = Inr p" "p \<noteq> None"
proof -
  from policy_UnmarshalJSON_parse[OF assms] obtain cidrs where parse: "policy_Parse (Some cidrs) = Inr p" by blast
  from policy_Parse_props[OF parse] obtain ps where p: "p = Some ps" and ps: "sorted ps" "distinct ps"
    and len: "length ps \<le> MaxCIDRs" and can: "\<forall>q\<in>set ps. canonical4 q"
    by auto
  have inv: "canonical_prefix (prefix_string q) = Some q" if "q \<in> set ps" for q
    using can that canonical4_prefix_string by blast
  then have "inj_on prefix_string (set ps)" by (metis inj_onI option.inject)
  then have "distinct (map prefix_string ps)" using ps(2) by (simp add: distinct_map)
  moreover have "\<forall>c\<in>set (map prefix_string ps). accepted_cidr c"
    using inv can by (auto simp: accepted_cidr_def canonical4_def)
  moreover have "map (\<lambda>c. the (canonical_prefix c)) (map prefix_string ps) = ps"
    using inv by (simp add: map_idI)
  ultimately have "policy_Parse (Some (map prefix_string ps)) = Inr (Some ps)"
    using ps(1) len by (simp add: policy_Parse_Some_iff sorted_sort_id del: map_map)
  moreover have "dec_slice dec_str [] (JArr (map (\<lambda>x. JStr (prefix_string x)) ps)) None = Some (Some (map prefix_string ps))"
    by (rule dec_slice_map) simp
  ultimately show "policy_UnmarshalJSON (policy_MarshalJSON p) = Inr p" "p \<noteq> None"
    using p by (simp_all add: policy_UnmarshalJSON_def policy_MarshalJSON_def policy_member_step_def)
qed

text \<open>
  A policy that was read from JSON is read back unchanged after it is written to JSON,
  which is how it passes through the persisted snapshot; in particular an explicit empty
  allowlist stays an empty allowlist and does not become the omitted policy.
\<close>

theorem policy_json_roundtrip:
  assumes "policy_UnmarshalJSON j = Inr p"
  shows "p \<noteq> None \<and> policy_UnmarshalJSON (policy_MarshalJSON p) = Inr p"
  using policy_UnmarshalJSON_stable[OF assms] by blast

lemma policy_json_roundtrip_witness:
  "policy_UnmarshalJSON (JObj [(''allowedCidrs'', JArr [])]) = Inr (Some [])
   \<and> policy_UnmarshalJSON (policy_MarshalJSON (Some [])) = Inr (Some [])"
proof -
  have run: "policy_UnmarshalJSON (JObj [(''allowedCidrs'', JArr [])]) = Inr (Some [])" by code_simp
  from run policy_json_roundtrip[OF run] show ?thesis by blast
qed

end
