(* ===== verification/Sha256.thy ===== *)
theory Sha256
  imports Go_Strings
begin

unbundle bit_operations_syntax

text \<open>
  \<open>crypto/sha256.Sum256\<close> (FIPS 180-4) on byte strings, and its lower-case hexadecimal form
  \<open>fmt.Sprintf("%x", ...)\<close>, in which the program stores every tuple hash and every
  desired-state hash. The development uses two facts about it: the text is 64 bytes long
  and holds only lower-case hexadecimal digits. Nothing is assumed about collisions.
\<close>

definition rotr :: "nat \<Rightarrow> u32 \<Rightarrow> u32" where
  "rotr n x = (drop_bit n x OR push_bit (32 - n) x)"

definition sha_K :: "u32 list" where
  "sha_K =
    [0x428a2f98, 0x71374491, 0xb5c0fbcf, 0xe9b5dba5, 0x3956c25b, 0x59f111f1, 0x923f82a4, 0xab1c5ed5,
     0xd807aa98, 0x12835b01, 0x243185be, 0x550c7dc3, 0x72be5d74, 0x80deb1fe, 0x9bdc06a7, 0xc19bf174,
     0xe49b69c1, 0xefbe4786, 0x0fc19dc6, 0x240ca1cc, 0x2de92c6f, 0x4a7484aa, 0x5cb0a9dc, 0x76f988da,
     0x983e5152, 0xa831c66d, 0xb00327c8, 0xbf597fc7, 0xc6e00bf3, 0xd5a79147, 0x06ca6351, 0x14292967,
     0x27b70a85, 0x2e1b2138, 0x4d2c6dfc, 0x53380d13, 0x650a7354, 0x766a0abb, 0x81c2c92e, 0x92722c85,
     0xa2bfe8a1, 0xa81a664b, 0xc24b8b70, 0xc76c51a3, 0xd192e819, 0xd6990624, 0xf40e3585, 0x106aa070,
     0x19a4c116, 0x1e376c08, 0x2748774c, 0x34b0bcb5, 0x391c0cb3, 0x4ed8aa4a, 0x5b9cca4f, 0x682e6ff3,
     0x748f82ee, 0x78a5636f, 0x84c87814, 0x8cc70208, 0x90befffa, 0xa4506ceb, 0xbef9a3f7, 0xc67178f2]"

type_synonym sha_state = "u32 \<times> u32 \<times> u32 \<times> u32 \<times> u32 \<times> u32 \<times> u32 \<times> u32"

definition sha_init :: sha_state where
  "sha_init = (0x6a09e667, 0xbb67ae85, 0x3c6ef372, 0xa54ff53a, 0x510e527f, 0x9b05688c, 0x1f83d9ab, 0x5be0cd19)"

fun sha_schedule :: "nat \<Rightarrow> u32 list \<Rightarrow> u32 list" where
  "sha_schedule 0 ws = ws"
| "sha_schedule (Suc n) ws =
     (let t = length ws; a = ws ! (t - 2); b = ws ! (t - 15);
          s1 = rotr 17 a XOR rotr 19 a XOR drop_bit 10 a;
          s0 = rotr 7 b XOR rotr 18 b XOR drop_bit 3 b
      in sha_schedule n (ws @ [s1 + ws ! (t - 7) + s0 + ws ! (t - 16)]))"

definition sha_round :: "sha_state \<Rightarrow> u32 \<times> u32 \<Rightarrow> sha_state" where
  "sha_round st kw =
     (case st of (a, b, c, d, e, f, g, h) \<Rightarrow> case kw of (k, w) \<Rightarrow>
        let t1 = h + (rotr 6 e XOR rotr 11 e XOR rotr 25 e) + ((e AND f) XOR (NOT e AND g)) + k + w;
            t2 = (rotr 2 a XOR rotr 13 a XOR rotr 22 a) + ((a AND b) XOR (a AND c) XOR (b AND c))
        in (t1 + t2, a, b, c, d + t1, e, f, g))"

definition sha_compress :: "sha_state \<Rightarrow> u32 list \<Rightarrow> sha_state" where
  "sha_compress st ws =
     (case st of (a, b, c, d, e, f, g, h) \<Rightarrow>
      case foldl sha_round st (zip sha_K (sha_schedule 48 ws)) of (a', b', c', d', e', f', g', h') \<Rightarrow>
        (a + a', b + b', c + c', d + d', e + e', f + f', g + g', h + h'))"

fun sha_blocks :: "sha_state \<Rightarrow> u32 list \<Rightarrow> sha_state" where
  "sha_blocks st ws = (if length ws < 16 then st else sha_blocks (sha_compress st (take 16 ws)) (drop 16 ws))"

declare sha_blocks.simps [simp del]

fun words_of :: "u8 list \<Rightarrow> u32 list" where
  "words_of (b0 # b1 # b2 # b3 # bs) =
     (push_bit 24 (ucast b0) OR push_bit 16 (ucast b1) OR push_bit 8 (ucast b2) OR ucast b3) # words_of bs"
| "words_of _ = []"

definition word_bytes :: "u32 \<Rightarrow> u8 list" where
  "word_bytes w = map (\<lambda>k. ucast (drop_bit k w)) [24, 16, 8, 0]"

definition sha_pad :: "u8 list \<Rightarrow> u8 list" where
  "sha_pad m = m @ [0x80] @ replicate ((119 - length m mod 64) mod 64) 0
     @ map (\<lambda>k. ucast (drop_bit k (of_nat (8 * length m) :: u64))) [56, 48, 40, 32, 24, 16, 8, 0]"

definition Sum256 :: "string \<Rightarrow> u8 list" where
  "Sum256 m =
     (case sha_blocks sha_init (words_of (sha_pad (map (\<lambda>c. of_nat (byte_of c)) m))) of (a, b, c, d, e, f, g, h) \<Rightarrow>
        concat (map word_bytes [a, b, c, d, e, f, g, h]))"

definition sha256_hex :: "string \<Rightarrow> string" where
  "sha256_hex m = hex_encode (Sum256 m)"

lemma length_sha256_hex [simp]: "length (sha256_hex m) = 64"
  by (simp add: sha256_hex_def Sum256_def word_bytes_def split: prod.splits)

lemma sha256_hex_chars: "c \<in> set (sha256_hex m) \<Longrightarrow> is_hex_lower c"
  by (simp add: sha256_hex_def hex_encode_chars)

end
