(* ===== verification/Snapshot_Data.thy ===== *)
theory Snapshot_Data
  imports Source_Policy Sha256 "HOL-Library.Product_Lexorder"
begin

text \<open>
  The data of \<open>internal/snapshot\<close>: mappings, retirements and snapshots as records with the
  source's fields, their JSON form in both directions, the tuple hash that binds a flow
  mark to a mapping and the hash of a desired state.

  Pointers are \<open>option\<close>s, the nil slice is \<open>None\<close>. A time is its distance in nanoseconds
  from Go's zero time, so \<open>IsZero\<close> is \<open>= 0\<close>. Its text form (RFC 3339, package \<open>time\<close>)
  is a pair of parameters: \<open>tt\<close> prints, \<open>pt\<close> parses.

  Shown: the JSON round trip of mappings, retirements and snapshots, and that the text
  hashed by \<open>TupleHash\<close> determines every field it was built from.
\<close>

definition ProtoTCP :: string where "ProtoTCP = ''tcp''"
definition ProtoUDP :: string where "ProtoUDP = ''udp''"

record mapping =
  m_ID :: int
  m_Proto :: string
  m_PublicPort :: u16
  m_TargetAddr :: string
  m_TargetPort :: u16
  m_SourcePolicy :: "policy option"
  m_FlowMark :: "u32 option"
  m_CtMax :: "u32 option"
  m_NewConnRate :: "u64 option"
  m_NewConnBurst :: "u32 option"
  m_PerSourceRate :: "u64 option"
  m_PerSourceBurst :: "u32 option"
  m_target :: "addr option"

record retirement =
  r_RetirementID :: string
  r_MappingID :: int
  r_Generation :: int
  r_Proto :: string
  r_PublicPort :: u16
  r_TargetAddr :: string
  r_TargetPort :: u16
  r_FlowMark :: u32
  r_TupleHash :: string

record snapshot =
  s_Generation :: int
  s_Mappings :: "mapping list option"
  s_Retirements :: "retirement list option"
  s_Ack :: "int option"
  s_PersistedAt :: int

text \<open>\<open>(*Mapping).Target\<close>.\<close>

definition Target :: "mapping \<Rightarrow> addr option" where
  "Target m = m_target m"

definition mapping_zero :: mapping where
  "mapping_zero = \<lparr>m_ID = 0, m_Proto = [], m_PublicPort = 0, m_TargetAddr = [], m_TargetPort = 0,
     m_SourcePolicy = None, m_FlowMark = None, m_CtMax = None, m_NewConnRate = None, m_NewConnBurst = None,
     m_PerSourceRate = None, m_PerSourceBurst = None, m_target = None\<rparr>"

definition retirement_zero :: retirement where
  "retirement_zero = \<lparr>r_RetirementID = [], r_MappingID = 0, r_Generation = 0, r_Proto = [], r_PublicPort = 0,
     r_TargetAddr = [], r_TargetPort = 0, r_FlowMark = 0, r_TupleHash = []\<rparr>"

definition snapshot_zero :: snapshot where
  "snapshot_zero = \<lparr>s_Generation = 0, s_Mappings = None, s_Retirements = None, s_Ack = None, s_PersistedAt = 0\<rparr>"

definition MaxRetirements :: nat where "MaxRetirements = 4096"
definition MaxMappings :: nat where "MaxMappings = 65536"
definition MaxGuardValue :: nat where "MaxGuardValue = 1000000"

subsection \<open>The UUID pattern and the tuple hash\<close>

definition uuid_class :: "nat \<Rightarrow> char \<Rightarrow> bool" where
  "uuid_class i c =
     (if i \<in> {8, 13, 18, 23} then c = CHR ''-''
      else if i = 14 then 49 \<le> byte_of c \<and> byte_of c \<le> 53
      else if i = 19 then c \<in> set ''89ab''
      else is_hex_lower c)"

definition uuid_match :: "string \<Rightarrow> bool" where
  "uuid_match s = (length s = 36 \<and> list_all (\<lambda>(i, c). uuid_class i c) (zip [0..<36] s))"

definition nl :: char where "nl = char_of (10::nat)"

definition tuple_text :: "int \<Rightarrow> string \<Rightarrow> u16 \<Rightarrow> string \<Rightarrow> u16 \<Rightarrow> u32 \<Rightarrow> string" where
  "tuple_text mappingID proto publicPort targetAddr targetPort flowMark =
     format_int mappingID @ [nl] @ proto @ [nl] @ format_uint (unat publicPort) @ [nl] @ targetAddr @ [nl]
     @ format_uint (unat targetPort) @ [nl] @ format_uint (unat flowMark) @ [nl]"

definition TupleHash :: "int \<Rightarrow> string \<Rightarrow> u16 \<Rightarrow> string \<Rightarrow> u16 \<Rightarrow> u32 \<Rightarrow> string" where
  "TupleHash mappingID proto publicPort targetAddr targetPort flowMark =
     sha256_hex (tuple_text mappingID proto publicPort targetAddr targetPort flowMark)"

lemma length_TupleHash [simp]: "length (TupleHash i p pp t tp m) = 64"
  by (simp add: TupleHash_def)

subsection \<open>JSON of the three records\<close>

definition opt_field :: "string \<Rightarrow> ('a \<Rightarrow> json) \<Rightarrow> 'a option \<Rightarrow> (string \<times> json) list" where
  "opt_field k f x = (case x of None \<Rightarrow> [] | Some y \<Rightarrow> [(k, f y)])"

definition mapping_json :: "mapping \<Rightarrow> json" where
  "mapping_json m = JObj
     ([(''id'', enc_i64 (m_ID m)), (''proto'', JStr (m_Proto m)), (''publicPort'', enc_uint (m_PublicPort m)),
       (''targetAddr'', JStr (m_TargetAddr m)), (''targetPort'', enc_uint (m_TargetPort m))]
      @ opt_field ''sourcePolicy'' (\<lambda>p. policy_MarshalJSON (Some p)) (m_SourcePolicy m)
      @ opt_field ''flowMark'' enc_uint (m_FlowMark m)
      @ opt_field ''ctMax'' enc_uint (m_CtMax m)
      @ opt_field ''newConnRate'' enc_uint (m_NewConnRate m)
      @ opt_field ''newConnBurst'' enc_uint (m_NewConnBurst m)
      @ opt_field ''perSourceRate'' enc_uint (m_PerSourceRate m)
      @ opt_field ''perSourceBurst'' enc_uint (m_PerSourceBurst m))"

definition retirement_json :: "retirement \<Rightarrow> json" where
  "retirement_json r = JObj
     [(''retirementId'', JStr (r_RetirementID r)), (''mappingId'', enc_i64 (r_MappingID r)),
      (''generation'', enc_i64 (r_Generation r)), (''proto'', JStr (r_Proto r)),
      (''publicPort'', enc_uint (r_PublicPort r)), (''targetAddr'', JStr (r_TargetAddr r)),
      (''targetPort'', enc_uint (r_TargetPort r)), (''flowMark'', enc_uint (r_FlowMark r)),
      (''tupleHash'', JStr (r_TupleHash r))]"

definition snapshot_json :: "(int \<Rightarrow> string) \<Rightarrow> snapshot \<Rightarrow> json" where
  "snapshot_json tt s = JObj
     ([(''generation'', enc_i64 (s_Generation s)),
       (''mappings'', case s_Mappings s of None \<Rightarrow> JNull | Some ms \<Rightarrow> JArr (map mapping_json ms))]
      @ opt_field ''retirements'' (\<lambda>rs. JArr (map retirement_json rs)) (s_Retirements s)
      @ opt_field ''acknowledgedRetirementHighWater'' enc_i64 (s_Ack s)
      @ (if s_PersistedAt s = 0 then [] else [(''persistedAt'', JStr (tt (s_PersistedAt s)))]))"

definition set_mapping_field :: "string \<Rightarrow> json \<Rightarrow> mapping \<Rightarrow> mapping option" where
  "set_mapping_field k v m =
     (if k = ''id'' then map_option (\<lambda>x. m\<lparr>m_ID := x\<rparr>) (dec_i64 v (m_ID m))
      else if k = ''proto'' then map_option (\<lambda>x. m\<lparr>m_Proto := x\<rparr>) (dec_str v (m_Proto m))
      else if k = ''publicport'' then map_option (\<lambda>x. m\<lparr>m_PublicPort := x\<rparr>) (dec_uint v (m_PublicPort m))
      else if k = ''targetaddr'' then map_option (\<lambda>x. m\<lparr>m_TargetAddr := x\<rparr>) (dec_str v (m_TargetAddr m))
      else if k = ''targetport'' then map_option (\<lambda>x. m\<lparr>m_TargetPort := x\<rparr>) (dec_uint v (m_TargetPort m))
      else if k = ''sourcepolicy'' then
        (case policy_UnmarshalJSON v of Inl _ \<Rightarrow> None | Inr p \<Rightarrow> Some (m\<lparr>m_SourcePolicy := p\<rparr>))
      else if k = ''flowmark'' then map_option (\<lambda>x. m\<lparr>m_FlowMark := x\<rparr>) (dec_ptr_uint v)
      else if k = ''ctmax'' then map_option (\<lambda>x. m\<lparr>m_CtMax := x\<rparr>) (dec_ptr_uint v)
      else if k = ''newconnrate'' then map_option (\<lambda>x. m\<lparr>m_NewConnRate := x\<rparr>) (dec_ptr_uint v)
      else if k = ''newconnburst'' then map_option (\<lambda>x. m\<lparr>m_NewConnBurst := x\<rparr>) (dec_ptr_uint v)
      else if k = ''persourcerate'' then map_option (\<lambda>x. m\<lparr>m_PerSourceRate := x\<rparr>) (dec_ptr_uint v)
      else if k = ''persourceburst'' then map_option (\<lambda>x. m\<lparr>m_PerSourceBurst := x\<rparr>) (dec_ptr_uint v)
      else None)"

definition dec_mapping :: "json \<Rightarrow> mapping \<Rightarrow> mapping option" where
  "dec_mapping = dec_struct set_mapping_field"

definition set_retirement_field :: "string \<Rightarrow> json \<Rightarrow> retirement \<Rightarrow> retirement option" where
  "set_retirement_field k v r =
     (if k = ''retirementid'' then map_option (\<lambda>x. r\<lparr>r_RetirementID := x\<rparr>) (dec_str v (r_RetirementID r))
      else if k = ''mappingid'' then map_option (\<lambda>x. r\<lparr>r_MappingID := x\<rparr>) (dec_i64 v (r_MappingID r))
      else if k = ''generation'' then map_option (\<lambda>x. r\<lparr>r_Generation := x\<rparr>) (dec_i64 v (r_Generation r))
      else if k = ''proto'' then map_option (\<lambda>x. r\<lparr>r_Proto := x\<rparr>) (dec_str v (r_Proto r))
      else if k = ''publicport'' then map_option (\<lambda>x. r\<lparr>r_PublicPort := x\<rparr>) (dec_uint v (r_PublicPort r))
      else if k = ''targetaddr'' then map_option (\<lambda>x. r\<lparr>r_TargetAddr := x\<rparr>) (dec_str v (r_TargetAddr r))
      else if k = ''targetport'' then map_option (\<lambda>x. r\<lparr>r_TargetPort := x\<rparr>) (dec_uint v (r_TargetPort r))
      else if k = ''flowmark'' then map_option (\<lambda>x. r\<lparr>r_FlowMark := x\<rparr>) (dec_uint v (r_FlowMark r))
      else if k = ''tuplehash'' then map_option (\<lambda>x. r\<lparr>r_TupleHash := x\<rparr>) (dec_str v (r_TupleHash r))
      else None)"

definition dec_retirement :: "json \<Rightarrow> retirement \<Rightarrow> retirement option" where
  "dec_retirement = dec_struct set_retirement_field"

definition dec_time :: "(string \<Rightarrow> int option) \<Rightarrow> json \<Rightarrow> int \<Rightarrow> int option" where
  "dec_time pt v t = (case v of JNull \<Rightarrow> Some t | JStr s \<Rightarrow> pt s | _ \<Rightarrow> None)"

definition set_snapshot_field :: "(string \<Rightarrow> int option) \<Rightarrow> string \<Rightarrow> json \<Rightarrow> snapshot \<Rightarrow> snapshot option" where
  "set_snapshot_field pt k v s =
     (if k = ''generation'' then map_option (\<lambda>x. s\<lparr>s_Generation := x\<rparr>) (dec_i64 v (s_Generation s))
      else if k = ''mappings'' then
        map_option (\<lambda>x. s\<lparr>s_Mappings := x\<rparr>) (dec_slice dec_mapping mapping_zero v (s_Mappings s))
      else if k = ''retirements'' then
        map_option (\<lambda>x. s\<lparr>s_Retirements := x\<rparr>) (dec_slice dec_retirement retirement_zero v (s_Retirements s))
      else if k = ''acknowledgedretirementhighwater'' then map_option (\<lambda>x. s\<lparr>s_Ack := x\<rparr>) (dec_ptr_i64 v)
      else if k = ''persistedat'' then map_option (\<lambda>x. s\<lparr>s_PersistedAt := x\<rparr>) (dec_time pt v (s_PersistedAt s))
      else None)"

definition dec_snapshot :: "(string \<Rightarrow> int option) \<Rightarrow> json \<Rightarrow> snapshot option" where
  "dec_snapshot pt v = dec_struct (set_snapshot_field pt) v snapshot_zero"

subsection \<open>Serialised text and the desired-state hash\<close>

definition unicode_escape :: "nat \<Rightarrow> string" where
  "unicode_escape n = CHR 0x5C # ''u00'' @ [hex_digit (n div 16), hex_digit (n mod 16)]"

text \<open>
  The string escapes of \<open>json.Marshal\<close> with HTML escaping; the strings are valid UTF-8, as
  every string decoded from JSON is.
\<close>

fun json_escape :: "string \<Rightarrow> string" where
  "json_escape [] = []"
| "json_escape (c # s) =
     (let n = byte_of c
      in if n = 226 \<and> take 2 s = bytes [128, 168] then CHR 0x5C # ''u2028'' @ json_escape (drop 2 s)
         else if n = 226 \<and> take 2 s = bytes [128, 169] then CHR 0x5C # ''u2029'' @ json_escape (drop 2 s)
         else (if n = 34 \<or> n = 92 then [CHR 0x5C, c]
               else if n = 8 then CHR 0x5C # ''b''
               else if n = 12 then CHR 0x5C # ''f''
               else if n = 10 then CHR 0x5C # ''n''
               else if n = 13 then CHR 0x5C # ''r''
               else if n = 9 then CHR 0x5C # ''t''
               else if n < 32 \<or> n = 60 \<or> n = 62 \<or> n = 38 then unicode_escape n
               else [c]) @ json_escape s)"

definition json_quote :: "string \<Rightarrow> string" where
  "json_quote s = CHR 0x22 # json_escape s @ [CHR 0x22]"

fun json_text :: "json \<Rightarrow> string" and json_items :: "json list \<Rightarrow> string"
  and json_members :: "(string \<times> json) list \<Rightarrow> string" where
  "json_text JNull = ''null''"
| "json_text (JBool b) = (if b then ''true'' else ''false'')"
| "json_text (JNum s) = s"
| "json_text (JStr s) = json_quote s"
| "json_text (JArr vs) = ''['' @ json_items vs @ '']''"
| "json_text (JObj kvs) = ''{'' @ json_members kvs @ ''}''"
| "json_items [] = []"
| "json_items [v] = json_text v"
| "json_items (v # vs) = json_text v @ '','' @ json_items vs"
| "json_members [] = []"
| "json_members [(k, v)] = json_quote k @ '':'' @ json_text v"
| "json_members ((k, v) # kvs) = json_quote k @ '':'' @ json_text v @ '','' @ json_members kvs"

text \<open>
  The copy that \<open>DesiredHash\<close> marshals: no timestamp, mappings by id, retirements by
  generation and id. Appending an empty slice to nil gives nil, which is written \<open>null\<close>.
\<close>

definition desired_json :: "snapshot \<Rightarrow> json" where
  "desired_json s = JObj
     ([(''generation'', enc_i64 (s_Generation s)),
       (''mappings'', case s_Mappings s of None \<Rightarrow> JNull
          | Some ms \<Rightarrow> if ms = [] then JNull else JArr (map mapping_json (sort_key m_ID ms)))]
      @ opt_field ''retirements''
          (\<lambda>rs. if rs = [] then JNull
                else JArr (map retirement_json (sort_key (\<lambda>r. (r_Generation r, r_RetirementID r)) rs)))
          (s_Retirements s)
      @ opt_field ''acknowledgedRetirementHighWater'' enc_i64 (s_Ack s))"

definition DesiredHash :: "snapshot \<Rightarrow> string" where
  "DesiredHash s = sha256_hex (json_text (desired_json s))"

lemma length_DesiredHash [simp]: "length (DesiredHash s) = 64"
  by (simp add: DesiredHash_def)

subsection \<open>JSON round trips\<close>

lemma fold_names [simp]:
  "fold_name ''id'' = ''id''" "fold_name ''proto'' = ''proto''" "fold_name ''publicPort'' = ''publicport''"
  "fold_name ''targetAddr'' = ''targetaddr''" "fold_name ''targetPort'' = ''targetport''"
  "fold_name ''sourcePolicy'' = ''sourcepolicy''" "fold_name ''flowMark'' = ''flowmark''"
  "fold_name ''ctMax'' = ''ctmax''" "fold_name ''newConnRate'' = ''newconnrate''"
  "fold_name ''newConnBurst'' = ''newconnburst''" "fold_name ''perSourceRate'' = ''persourcerate''"
  "fold_name ''perSourceBurst'' = ''persourceburst''" "fold_name ''retirementId'' = ''retirementid''"
  "fold_name ''mappingId'' = ''mappingid''" "fold_name ''generation'' = ''generation''"
  "fold_name ''tupleHash'' = ''tuplehash''" "fold_name ''mappings'' = ''mappings''"
  "fold_name ''retirements'' = ''retirements''"
  "fold_name ''acknowledgedRetirementHighWater'' = ''acknowledgedretirementhighwater''"
  "fold_name ''persistedAt'' = ''persistedat''"
  by code_simp+

lemma dec_opt_fields:
  "m_FlowMark m = None \<Longrightarrow>
     dec_fields set_mapping_field (opt_field ''flowMark'' enc_uint w) m = Some (m\<lparr>m_FlowMark := w\<rparr>)"
  "m_CtMax m = None \<Longrightarrow>
     dec_fields set_mapping_field (opt_field ''ctMax'' enc_uint w) m = Some (m\<lparr>m_CtMax := w\<rparr>)"
  "m_NewConnRate m = None \<Longrightarrow>
     dec_fields set_mapping_field (opt_field ''newConnRate'' enc_uint q) m = Some (m\<lparr>m_NewConnRate := q\<rparr>)"
  "m_NewConnBurst m = None \<Longrightarrow>
     dec_fields set_mapping_field (opt_field ''newConnBurst'' enc_uint w) m = Some (m\<lparr>m_NewConnBurst := w\<rparr>)"
  "m_PerSourceRate m = None \<Longrightarrow>
     dec_fields set_mapping_field (opt_field ''perSourceRate'' enc_uint q) m = Some (m\<lparr>m_PerSourceRate := q\<rparr>)"
  "m_PerSourceBurst m = None \<Longrightarrow>
     dec_fields set_mapping_field (opt_field ''perSourceBurst'' enc_uint w) m = Some (m\<lparr>m_PerSourceBurst := w\<rparr>)"
  by (cases w, simp_all add: opt_field_def set_mapping_field_def;
      cases q, simp_all add: opt_field_def set_mapping_field_def)+

definition policy_stable :: "policy option \<Rightarrow> bool" where
  "policy_stable p = (p = None \<or> policy_UnmarshalJSON (policy_MarshalJSON p) = Inr p)"

lemma dec_policy_field:
  "policy_stable p \<Longrightarrow> m_SourcePolicy m = None \<Longrightarrow>
   dec_fields set_mapping_field (opt_field ''sourcePolicy'' (\<lambda>p. policy_MarshalJSON (Some p)) p) m
     = Some (m\<lparr>m_SourcePolicy := p\<rparr>)"
  by (cases p) (simp_all add: opt_field_def set_mapping_field_def policy_stable_def)

lemma dec_mapping_json:
  assumes "int64 (m_ID m)" and "policy_stable (m_SourcePolicy m)"
  shows "dec_mapping (mapping_json m) mapping_zero = Some (m\<lparr>m_target := None\<rparr>)"
  unfolding dec_mapping_def mapping_json_def dec_struct_def
  by (cases m) (use assms in \<open>simp add: dec_fields_append dec_policy_field dec_opt_fields set_mapping_field_def
      mapping_zero_def\<close>)

lemma dec_retirement_json:
  assumes "int64 (r_MappingID r)" and "int64 (r_Generation r)"
  shows "dec_retirement (retirement_json r) retirement_zero = Some r"
  unfolding dec_retirement_def retirement_json_def dec_struct_def
  by (cases r) (use assms in \<open>simp add: set_retirement_field_def retirement_zero_def\<close>)

definition json_ranges :: "snapshot \<Rightarrow> bool" where
  "json_ranges s =
     (int64 (s_Generation s) \<and> (\<forall>a. s_Ack s = Some a \<longrightarrow> int64 a)
      \<and> (\<forall>ms. s_Mappings s = Some ms \<longrightarrow> (\<forall>m\<in>set ms. int64 (m_ID m) \<and> policy_stable (m_SourcePolicy m)))
      \<and> (\<forall>rs. s_Retirements s = Some rs \<longrightarrow> (\<forall>r\<in>set rs. int64 (r_MappingID r) \<and> int64 (r_Generation r))))"

definition untargeted :: "snapshot \<Rightarrow> snapshot" where
  "untargeted s = s\<lparr>s_Mappings := map_option (map (\<lambda>m. m\<lparr>m_target := None\<rparr>)) (s_Mappings s)\<rparr>"

lemma dec_snapshot_json:
  assumes "json_ranges s" and "s_PersistedAt s \<noteq> 0 \<Longrightarrow> pt (tt (s_PersistedAt s)) = Some (s_PersistedAt s)"
  shows "dec_snapshot pt (snapshot_json tt s) = Some (untargeted s)"
proof -
  obtain g ms rs a t where s: "s = \<lparr>s_Generation = g, s_Mappings = ms, s_Retirements = rs, s_Ack = a, s_PersistedAt = t\<rparr>"
    by (cases s)
  have ms: "dec_slice dec_mapping mapping_zero (case ms of None \<Rightarrow> JNull | Some ms \<Rightarrow> JArr (map mapping_json ms)) None
      = Some (map_option (map (\<lambda>m. m\<lparr>m_target := None\<rparr>)) ms)"
    using assms(1) s by (cases ms) (auto simp: json_ranges_def dec_slice_def dec_slice_map dec_mapping_json
        intro!: dec_elems_map)
  have rs: "dec_slice dec_retirement retirement_zero (JArr (map retirement_json xs)) None = Some (Some xs)"
    if "rs = Some xs" for xs
    using assms(1) s that dec_slice_map[where h = "\<lambda>x. x" and f = dec_retirement and g = retirement_json]
    by (simp add: json_ranges_def dec_retirement_json)
  show ?thesis
    using assms s ms rs
    by (cases rs; cases a; cases "t = 0")
      (auto simp: dec_snapshot_def snapshot_json_def dec_struct_def opt_field_def set_snapshot_field_def
        snapshot_zero_def untargeted_def json_ranges_def dec_time_def)
qed

subsection \<open>The hashed tuple text\<close>

lemma nl_not_digit: "\<not> is_digit nl" "nl \<noteq> CHR ''-''"
  by (simp_all add: is_digit_def byte_of_def nl_def) (simp add: char_of_def)

lemma append_nl_inj:
  "nl \<notin> set a \<Longrightarrow> nl \<notin> set b \<Longrightarrow> a @ nl # s = b @ nl # t \<longleftrightarrow> a = b \<and> s = t"
  by (metis Pair_inject cut_append option.inject)

lemma nl_notin_format [simp]: "nl \<notin> set (format_uint n)" "nl \<notin> set (format_int i)"
  using format_uint_digits[of nl n] format_int_chars[of nl i] nl_not_digit by auto

lemma tuple_text_inj:
  assumes "nl \<notin> set p" "nl \<notin> set p'" "nl \<notin> set t" "nl \<notin> set t'"
  shows "tuple_text i p pp t tp m = tuple_text i' p' pp' t' tp' m' \<longleftrightarrow>
    i = i' \<and> p = p' \<and> pp = pp' \<and> t = t' \<and> tp = tp' \<and> m = m'"
  using assms by (auto simp: tuple_text_def append_nl_inj unsigned_word_eqI)

end
