(* ===== verification/Snapshot.thy ===== *)
theory Snapshot
  imports Snapshot_Data
begin

text \<open>
  \<open>internal/snapshot\<close>: validation, parsing and the bounded reload of the persisted copy.

  \<open>Validate\<close> follows the source check by check; its two loops are \<open>scan\<close>s whose states hold
  the duplicate maps, and each loop body interprets \<open>keyed_loop\<close>. The receiver it mutates
  is returned: the snapshot with the parsed targets. \<open>Parse\<close> and \<open>LoadPersisted\<close> are built
  on it. Errors are values of \<open>snap_error\<close> and \<open>load_error\<close>; a failure of one mapping is
  \<open>ValidationError id cause\<close>.

  Shown: validation succeeds exactly on well-formed snapshots (\<open>wf_snapshot\<close>) and returns the
  snapshot with its targets filled in; an error attributed to a mapping names a mapping of
  the snapshot; a persisted snapshot is read back as it was; a reload outside the allowed
  window fails.
\<close>

record limits =
  lim_TargetCIDR :: prefix
  lim_BandMin :: u16
  lim_BandMax :: u16

datatype mapping_error =
    NonPositiveID
  | DuplicateID
  | FlowMarkMissing
  | DuplicateFlowMark u32
  | FlowMarkUnmanaged
  | UnknownProto string
  | PortOutsideBand u16
  | TargetPortZero
  | BadTargetAddr
  | TargetNotIPv4 addr
  | TargetOutside addr
  | NewConnBurstNoRate
  | PerSourceBurstNoRate
  | GuardExceeds string nat
  | DuplicatePort string u16

datatype snap_error =
    ValidationError int mapping_error
  | NegativeGeneration int
  | GenerationZeroNonEmpty
  | MappingsAbsent
  | TooManyMappings nat
  | AckMissing
  | AckUnmanaged
  | TooManyRetirements nat
  | RetInvalidUUID string
  | RetDuplicateID string
  | RetInvalidIdentity string
  | RetMappingActive int
  | RetReusesMark string u32
  | RetUnknownProto string
  | RetInvalidPorts string
  | RetNonCanonicalTarget string
  | RetTupleHashMismatch string
  | BodyNull
  | RetirementsNull
  | FlowMarkNull
  | DecodeError
  | TrailingData

subsection \<open>Validate\<close>

definition guardCeiling :: "int \<Rightarrow> string \<Rightarrow> nat option \<Rightarrow> (snap_error, unit) result" where
  "guardCeiling i field v =
     (case v of None \<Rightarrow> Inr ()
      | Some n \<Rightarrow> if n \<le> MaxGuardValue then Inr () else Inl (ValidationError i (GuardExceeds field n)))"

record vstate =
  v_seen :: "(string \<times> u16) set"
  v_seenID :: "int set"
  v_seenMark :: "u32 set"
  v_out :: "mapping list"

definition check_mark :: "bool \<Rightarrow> vstate \<Rightarrow> mapping \<Rightarrow> (snap_error, vstate) result" where
  "check_mark managed st m =
     (if managed then
        (case m_FlowMark m of
           None \<Rightarrow> Inl (ValidationError (m_ID m) FlowMarkMissing)
         | Some k \<Rightarrow>
             if k = 0 then Inl (ValidationError (m_ID m) FlowMarkMissing)
             else if k \<in> v_seenMark st then Inl (ValidationError (m_ID m) (DuplicateFlowMark k))
             else Inr (st\<lparr>v_seenMark := insert k (v_seenMark st)\<rparr>))
      else if m_FlowMark m \<noteq> None then Inl (ValidationError (m_ID m) FlowMarkUnmanaged)
      else Inr st)"

definition check_target :: "limits \<Rightarrow> mapping \<Rightarrow> (snap_error, addr) result" where
  "check_target lim m =
     (case ParseAddr (m_TargetAddr m) of
        None \<Rightarrow> Inl (ValidationError (m_ID m) BadTargetAddr)
      | Some addr \<Rightarrow>
          if \<not> is4 addr then Inl (ValidationError (m_ID m) (TargetNotIPv4 addr))
          else if \<not> prefix_contains (lim_TargetCIDR lim) addr then Inl (ValidationError (m_ID m) (TargetOutside addr))
          else Inr addr)"

definition check_guards :: "mapping \<Rightarrow> (snap_error, unit) result" where
  "check_guards m =
     (if m_NewConnBurst m \<noteq> None \<and> (m_NewConnRate m = None \<or> m_NewConnRate m = Some 0)
      then Inl (ValidationError (m_ID m) NewConnBurstNoRate)
      else if m_PerSourceBurst m \<noteq> None \<and> (m_PerSourceRate m = None \<or> m_PerSourceRate m = Some 0)
      then Inl (ValidationError (m_ID m) PerSourceBurstNoRate)
      else rbind (guardCeiling (m_ID m) ''ctMax'' (map_option unat (m_CtMax m))) (\<lambda>_.
           rbind (guardCeiling (m_ID m) ''newConnRate'' (map_option unat (m_NewConnRate m))) (\<lambda>_.
           rbind (guardCeiling (m_ID m) ''newConnBurst'' (map_option unat (m_NewConnBurst m))) (\<lambda>_.
           rbind (guardCeiling (m_ID m) ''perSourceRate'' (map_option unat (m_PerSourceRate m))) (\<lambda>_.
           guardCeiling (m_ID m) ''perSourceBurst'' (map_option unat (m_PerSourceBurst m)))))))"

definition validate_mapping :: "limits \<Rightarrow> bool \<Rightarrow> vstate \<Rightarrow> mapping \<Rightarrow> (snap_error, vstate) result" where
  "validate_mapping lim managed st m =
     (if m_ID m \<le> 0 then Inl (ValidationError (m_ID m) NonPositiveID)
      else if m_ID m \<in> v_seenID st then Inl (ValidationError (m_ID m) DuplicateID)
      else rbind (check_mark managed (st\<lparr>v_seenID := insert (m_ID m) (v_seenID st)\<rparr>) m) (\<lambda>st.
        if m_Proto m \<noteq> ProtoTCP \<and> m_Proto m \<noteq> ProtoUDP then Inl (ValidationError (m_ID m) (UnknownProto (m_Proto m)))
        else if m_PublicPort m < lim_BandMin lim \<or> m_PublicPort m > lim_BandMax lim
        then Inl (ValidationError (m_ID m) (PortOutsideBand (m_PublicPort m)))
        else if m_TargetPort m = 0 then Inl (ValidationError (m_ID m) TargetPortZero)
        else rbind (check_target lim m) (\<lambda>addr.
             rbind (check_guards m) (\<lambda>_.
               if (m_Proto m, m_PublicPort m) \<in> v_seen st
               then Inl (ValidationError (m_ID m) (DuplicatePort (m_Proto m) (m_PublicPort m)))
               else Inr (st\<lparr>v_seen := insert (m_Proto m, m_PublicPort m) (v_seen st),
                           v_out := v_out st @ [m\<lparr>m_target := Some addr\<rparr>]\<rparr>)))))"

text \<open>The loop over retirements; its state is \<open>(seenRetirement, seenMark)\<close>.\<close>

definition validate_retirement ::
  "limits \<Rightarrow> int \<Rightarrow> int set \<Rightarrow> string set \<times> u32 set \<Rightarrow> retirement \<Rightarrow> (snap_error, string set \<times> u32 set) result" where
  "validate_retirement lim gen seenID st r =
     (case st of (seenRet, seenMark) \<Rightarrow>
      if \<not> uuid_match (to_lower (r_RetirementID r)) \<or> r_RetirementID r \<noteq> to_lower (r_RetirementID r)
      then Inl (RetInvalidUUID (r_RetirementID r))
      else if r_RetirementID r \<in> seenRet then Inl (RetDuplicateID (r_RetirementID r))
      else if r_MappingID r \<le> 0 \<or> r_Generation r \<le> 0 \<or> r_Generation r > gen \<or> r_FlowMark r = 0
      then Inl (RetInvalidIdentity (r_RetirementID r))
      else if r_MappingID r \<in> seenID then Inl (RetMappingActive (r_MappingID r))
      else if r_FlowMark r \<in> seenMark then Inl (RetReusesMark (r_RetirementID r) (r_FlowMark r))
      else if r_Proto r \<noteq> ProtoTCP \<and> r_Proto r \<noteq> ProtoUDP then Inl (RetUnknownProto (r_RetirementID r))
      else if r_PublicPort r < lim_BandMin lim \<or> r_PublicPort r > lim_BandMax lim \<or> r_TargetPort r = 0
      then Inl (RetInvalidPorts (r_RetirementID r))
      else case ParseAddr (r_TargetAddr r) of
             None \<Rightarrow> Inl (RetNonCanonicalTarget (r_RetirementID r))
           | Some addr \<Rightarrow>
               if \<not> is4 addr \<or> addr_string addr \<noteq> r_TargetAddr r then Inl (RetNonCanonicalTarget (r_RetirementID r))
               else if TupleHash (r_MappingID r) (r_Proto r) (r_PublicPort r) (r_TargetAddr r) (r_TargetPort r)
                         (r_FlowMark r) \<noteq> r_TupleHash r
               then Inl (RetTupleHashMismatch (r_RetirementID r))
               else Inr (insert (r_RetirementID r) seenRet, insert (r_FlowMark r) seenMark))"

definition vstate_init :: vstate where
  "vstate_init = \<lparr>v_seen = {}, v_seenID = {}, v_seenMark = {}, v_out = []\<rparr>"

definition Validate :: "limits \<Rightarrow> snapshot \<Rightarrow> (snap_error, snapshot) result" where
  "Validate lim s =
     (if s_Generation s < 0 then Inl (NegativeGeneration (s_Generation s))
      else if s_Generation s = 0 \<and> s_Mappings s \<noteq> None \<and> s_Mappings s \<noteq> Some [] then Inl GenerationZeroNonEmpty
      else case s_Mappings s of
        None \<Rightarrow> Inl MappingsAbsent
      | Some ms \<Rightarrow>
          if length ms > MaxMappings then Inl (TooManyMappings (length ms))
          else
            let managed = (s_Retirements s \<noteq> None)
            in if managed \<and> (case s_Ack s of None \<Rightarrow> True | Some a \<Rightarrow> a < 0) then Inl AckMissing
               else if \<not> managed \<and> s_Ack s \<noteq> None then Inl AckUnmanaged
               else rbind (scan (validate_mapping lim managed) vstate_init ms) (\<lambda>st.
                 case s_Retirements s of
                   None \<Rightarrow> Inr (s\<lparr>s_Mappings := Some (v_out st)\<rparr>)
                 | Some rs \<Rightarrow>
                     if length rs > MaxRetirements then Inl (TooManyRetirements (length rs))
                     else rbind (scan (validate_retirement lim (s_Generation s) (v_seenID st)) ({}, v_seenMark st) rs)
                            (\<lambda>_. Inr (s\<lparr>s_Mappings := Some (v_out st)\<rparr>))))"

subsection \<open>Parse\<close>

definition flow_mark_null :: "json \<Rightarrow> bool" where
  "flow_mark_null v =
     (case v of
        JArr vs \<Rightarrow>
          (\<forall>x\<in>set vs. raw_map x \<noteq> None) \<and>
          (\<exists>x\<in>set vs. case raw_map x of None \<Rightarrow> False | Some m \<Rightarrow> map_of m ''flowMark'' = Some JNull)
      | _ \<Rightarrow> False)"

definition Parse :: "(string \<Rightarrow> int option) \<Rightarrow> jbody \<Rightarrow> limits \<Rightarrow> (snap_error, snapshot) result" where
  "Parse pt data lim =
     (let shape = Option.bind (Unmarshal data) raw_map
      in if is_null_body data then Inl BodyNull
         else if (case shape of None \<Rightarrow> False | Some m \<Rightarrow> map_of m ''retirements'' = Some JNull) then Inl RetirementsNull
         else if (case shape of None \<Rightarrow> False
                  | Some m \<Rightarrow> (case map_of m ''mappings'' of None \<Rightarrow> False | Some raw \<Rightarrow> flow_mark_null raw))
         then Inl FlowMarkNull
         else case Option.bind (DecodeFirst data) (dec_snapshot pt) of
                None \<Rightarrow> Inl DecodeError
              | Some s \<Rightarrow> if More data then Inl TrailingData else Validate lim s)"

subsection \<open>LoadPersisted\<close>

datatype io_error = ErrNotExist | IOError string

datatype load_error =
    ReadFailed io_error
  | ParseFailed snap_error
  | MissingPersistedAt
  | FuturePersistedAt
  | ErrStale

definition clockSkewTolerance :: int where
  "clockSkewTolerance = 5 * 60 * 1000000000"

text \<open>\<open>Time.Sub\<close> saturates at the bounds of a 64-bit duration.\<close>

definition time_sub :: "int \<Rightarrow> int \<Rightarrow> int" where
  "time_sub a b = max (- (2 ^ 63)) (min (2 ^ 63 - 1) (a - b))"

definition LoadPersisted ::
  "(string \<Rightarrow> int option) \<Rightarrow> (io_error, jbody) result \<Rightarrow> limits \<Rightarrow> int \<Rightarrow> int \<Rightarrow> (load_error, snapshot) result" where
  "LoadPersisted pt file lim maxAge now =
     (case file of Inl e \<Rightarrow> Inl (ReadFailed e)
      | Inr data \<Rightarrow>
          (case Parse pt data lim of Inl e \<Rightarrow> Inl (ParseFailed e)
           | Inr s \<Rightarrow>
               if s_PersistedAt s = 0 then Inl MissingPersistedAt
               else if s_PersistedAt s > now + clockSkewTolerance then Inl FuturePersistedAt
               else if time_sub now (s_PersistedAt s) > maxAge then Inl ErrStale
               else Inr s))"

text \<open>What \<open>Persist\<close> writes: the snapshot stamped with the current time.\<close>

definition persisted_body :: "(int \<Rightarrow> string) \<Rightarrow> int \<Rightarrow> snapshot \<Rightarrow> jbody" where
  "persisted_body tt now s = JDoc (snapshot_json tt (s\<lparr>s_PersistedAt := now\<rparr>)) []"

subsection \<open>Well-formed snapshots\<close>

definition capped :: "'a::len word option \<Rightarrow> bool" where
  "capped v = (\<forall>w. v = Some w \<longrightarrow> unat w \<le> MaxGuardValue)"

definition positive_rate :: "u64 option \<Rightarrow> bool" where
  "positive_rate v = (\<exists>w. v = Some w \<and> w \<noteq> 0)"

definition target_addr :: "mapping \<Rightarrow> addr option" where
  "target_addr m = ParseAddr (m_TargetAddr m)"

definition guards_ok :: "mapping \<Rightarrow> bool" where
  "guards_ok m \<longleftrightarrow>
     (m_NewConnBurst m \<noteq> None \<longrightarrow> positive_rate (m_NewConnRate m))
     \<and> (m_PerSourceBurst m \<noteq> None \<longrightarrow> positive_rate (m_PerSourceRate m))
     \<and> capped (m_CtMax m) \<and> capped (m_NewConnRate m) \<and> capped (m_NewConnBurst m)
     \<and> capped (m_PerSourceRate m) \<and> capped (m_PerSourceBurst m)"

definition wf_mapping :: "limits \<Rightarrow> bool \<Rightarrow> mapping \<Rightarrow> bool" where
  "wf_mapping lim managed m \<longleftrightarrow>
     0 < m_ID m
     \<and> (if managed then \<exists>k. m_FlowMark m = Some k \<and> k \<noteq> 0 else m_FlowMark m = None)
     \<and> m_Proto m \<in> {ProtoTCP, ProtoUDP}
     \<and> lim_BandMin lim \<le> m_PublicPort m \<and> m_PublicPort m \<le> lim_BandMax lim
     \<and> m_TargetPort m \<noteq> 0
     \<and> (\<exists>a. target_addr m = Some (IP4 a) \<and> prefix_contains (lim_TargetCIDR lim) (IP4 a))
     \<and> guards_ok m"

definition wf_retirement :: "limits \<Rightarrow> int \<Rightarrow> int set \<Rightarrow> retirement \<Rightarrow> bool" where
  "wf_retirement lim gen active r \<longleftrightarrow>
     uuid_match (r_RetirementID r)
     \<and> 0 < r_MappingID r \<and> r_MappingID r \<notin> active
     \<and> 0 < r_Generation r \<and> r_Generation r \<le> gen
     \<and> r_FlowMark r \<noteq> 0
     \<and> r_Proto r \<in> {ProtoTCP, ProtoUDP}
     \<and> lim_BandMin lim \<le> r_PublicPort r \<and> r_PublicPort r \<le> lim_BandMax lim
     \<and> r_TargetPort r \<noteq> 0
     \<and> (\<exists>a. ParseAddr (r_TargetAddr r) = Some (IP4 a))
     \<and> r_TupleHash r = TupleHash (r_MappingID r) (r_Proto r) (r_PublicPort r) (r_TargetAddr r) (r_TargetPort r) (r_FlowMark r)"

definition with_targets :: "mapping list \<Rightarrow> mapping list" where
  "with_targets = map (\<lambda>m. m\<lparr>m_target := target_addr m\<rparr>)"

definition mapping_marks :: "mapping list \<Rightarrow> u32 list" where
  "mapping_marks ms = List.map_filter m_FlowMark ms"

definition wf_snapshot :: "limits \<Rightarrow> snapshot \<Rightarrow> bool" where
  "wf_snapshot lim s \<longleftrightarrow>
     0 \<le> s_Generation s \<and>
     (\<exists>ms. s_Mappings s = Some ms
        \<and> (s_Generation s = 0 \<longrightarrow> ms = [])
        \<and> length ms \<le> MaxMappings
        \<and> (\<forall>m\<in>set ms. wf_mapping lim (s_Retirements s \<noteq> None) m)
        \<and> distinct (map m_ID ms)
        \<and> distinct (map (\<lambda>m. (m_Proto m, m_PublicPort m)) ms)
        \<and> (case s_Retirements s of
             None \<Rightarrow> s_Ack s = None
           | Some rs \<Rightarrow>
               (\<exists>a. s_Ack s = Some a \<and> 0 \<le> a)
               \<and> length rs \<le> MaxRetirements
               \<and> (\<forall>r\<in>set rs. wf_retirement lim (s_Generation s) (m_ID ` set ms) r)
               \<and> distinct (map r_RetirementID rs)
               \<and> distinct (mapping_marks ms @ map r_FlowMark rs)))"

subsection \<open>The loops as keyed loops\<close>

datatype vkey = KeyID int | KeyMark u32 | KeyPort string u16 | KeyRet string

definition mapping_keys :: "bool \<Rightarrow> mapping \<Rightarrow> vkey set" where
  "mapping_keys managed m =
     {KeyID (m_ID m), KeyPort (m_Proto m) (m_PublicPort m)} \<union> (if managed then KeyMark ` set_option (m_FlowMark m) else {})"

definition vstate_keys :: "vstate \<Rightarrow> vkey set" where
  "vstate_keys st = KeyID ` v_seenID st \<union> KeyMark ` v_seenMark st \<union> (\<lambda>(p, q). KeyPort p q) ` v_seen st"

lemma check_target_iff:
  "check_target lim m = Inr a \<longleftrightarrow> target_addr m = Some a \<and> is4 a \<and> prefix_contains (lim_TargetCIDR lim) a"
  by (auto simp: check_target_def target_addr_def split: option.splits)

lemma guardCeiling_iff [simp]: "guardCeiling i f (map_option unat v) = Inr u \<longleftrightarrow> capped v"
  by (cases v) (auto simp: guardCeiling_def capped_def)

lemma check_guards_iff: "check_guards m = Inr u \<longleftrightarrow> guards_ok m"
  unfolding check_guards_def positive_rate_def guards_ok_def
  by (simp add: rbind_Inr_iff) (cases "m_NewConnRate m"; cases "m_PerSourceRate m"; auto)

lemma check_mark_iff:
  "check_mark managed st m = Inr st' \<longleftrightarrow>
     (if managed then \<exists>k. m_FlowMark m = Some k \<and> k \<noteq> 0 \<and> k \<notin> v_seenMark st \<and>
        st' = st\<lparr>v_seenMark := insert k (v_seenMark st)\<rparr>
      else m_FlowMark m = None \<and> st' = st)"
  by (auto simp: check_mark_def split: option.splits)

lemma is4_iff: "is4 a \<longleftrightarrow> (\<exists>w. a = IP4 w)"
  by (cases a) auto

text \<open>The state after a mapping was accepted.\<close>

definition vstate_add :: "bool \<Rightarrow> vstate \<Rightarrow> mapping \<Rightarrow> vstate" where
  "vstate_add managed st m =
     \<lparr>v_seen = insert (m_Proto m, m_PublicPort m) (v_seen st),
      v_seenID = insert (m_ID m) (v_seenID st),
      v_seenMark = (if managed then set_option (m_FlowMark m) \<union> v_seenMark st else v_seenMark st),
      v_out = v_out st @ [m\<lparr>m_target := target_addr m\<rparr>]\<rparr>"

lemma validate_mapping_iff:
  "validate_mapping lim managed st m = Inr st' \<longleftrightarrow>
     wf_mapping lim managed m \<and> mapping_keys managed m \<inter> vstate_keys st = {} \<and> st' = vstate_add managed st m"
proof -
  have keys: "mapping_keys managed m \<inter> vstate_keys st = {} \<longleftrightarrow>
      m_ID m \<notin> v_seenID st \<and> (m_Proto m, m_PublicPort m) \<notin> v_seen st
      \<and> (managed \<longrightarrow> set_option (m_FlowMark m) \<inter> v_seenMark st = {})"
    by (auto simp: mapping_keys_def vstate_keys_def)
  have target: "(\<exists>x. check_target lim m = Inr x \<and> P x) \<longleftrightarrow>
      (\<exists>a. target_addr m = Some (IP4 a) \<and> prefix_contains (lim_TargetCIDR lim) (IP4 a) \<and> P (IP4 a))" for P
    by (auto simp: check_target_iff is4_iff)
  show ?thesis
    unfolding keys validate_mapping_def wf_mapping_def vstate_add_def
    by (cases managed; cases "m_FlowMark m")
      (auto simp: rbind_Inr_iff check_mark_iff target check_guards_iff not_less)
qed

interpretation mapping_loop:
  keyed_loop "validate_mapping lim managed" "wf_mapping lim managed" "mapping_keys managed" vstate_keys
  for lim managed
proof
  fix st m st'
  assume "validate_mapping lim managed st m = Inr st'"
  then show "wf_mapping lim managed m \<and> mapping_keys managed m \<inter> vstate_keys st = {}
      \<and> vstate_keys st' = vstate_keys st \<union> mapping_keys managed m"
    by (auto simp: validate_mapping_iff) (auto simp: vstate_keys_def vstate_add_def mapping_keys_def split: if_splits)
next
  fix m st
  assume "wf_mapping lim managed m" "mapping_keys managed m \<inter> vstate_keys st = {}"
  then show "is_ok (validate_mapping lim managed st m)"
    by (simp add: is_ok_iff validate_mapping_iff)
qed

lemma set_mapping_marks: "set (mapping_marks ms) = (\<Union>m\<in>set ms. set_option (m_FlowMark m))"
  by (induction ms) (auto simp: mapping_marks_def map_filter_simps split: option.splits)

lemma mapping_keys_apart:
  "mapping_loop.keys_apart managed ms \<longleftrightarrow>
     distinct (map m_ID ms) \<and> distinct (map (\<lambda>m. (m_Proto m, m_PublicPort m)) ms)
     \<and> (managed \<longrightarrow> distinct (mapping_marks ms))"
proof (induction ms)
  case Nil
  then show ?case by (simp add: mapping_loop.keys_apart_def mapping_marks_def map_filter_simps)
next
  case (Cons m ms)
  have "(\<forall>x\<in>set ms. mapping_keys managed m \<inter> mapping_keys managed x = {}) \<longleftrightarrow>
      m_ID m \<notin> m_ID ` set ms \<and> (m_Proto m, m_PublicPort m) \<notin> (\<lambda>m. (m_Proto m, m_PublicPort m)) ` set ms
      \<and> (managed \<longrightarrow> set_option (m_FlowMark m) \<inter> set (mapping_marks ms) = {})"
    by (cases managed) (force simp: mapping_keys_def set_mapping_marks image_iff)+
  moreover have "distinct (mapping_marks (m # ms)) \<longleftrightarrow>
      set_option (m_FlowMark m) \<inter> set (mapping_marks ms) = {} \<and> distinct (mapping_marks ms)"
    by (auto simp: mapping_marks_def map_filter_simps split: option.splits)
  ultimately show ?case using Cons by (auto simp: mapping_loop.keys_apart_Cons)
qed

lemma mapping_scan_iff:
  "is_ok (scan (validate_mapping lim managed) vstate_init ms) \<longleftrightarrow>
     (\<forall>m\<in>set ms. wf_mapping lim managed m) \<and> distinct (map m_ID ms)
     \<and> distinct (map (\<lambda>m. (m_Proto m, m_PublicPort m)) ms) \<and> (managed \<longrightarrow> distinct (mapping_marks ms))"
proof -
  have "vstate_keys vstate_init = {}" by (simp add: vstate_keys_def vstate_init_def)
  then show ?thesis by (simp add: mapping_loop.loop_iff mapping_keys_apart)
qed

lemma mapping_scan_state:
  assumes "scan (validate_mapping lim managed) vstate_init ms = Inr st"
  shows "v_out st = with_targets ms" "v_seenID st = m_ID ` set ms"
    "managed \<Longrightarrow> v_seenMark st = set (mapping_marks ms)"
proof -
  show "v_out st = with_targets ms"
    using scan_collect[OF assms, where out = v_out and g = "\<lambda>m. m\<lparr>m_target := target_addr m\<rparr>"]
    by (simp add: validate_mapping_iff vstate_add_def vstate_init_def with_targets_def)
  have keys: "vstate_keys st = (\<Union>m\<in>set ms. mapping_keys managed m)"
    using mapping_loop.loop_seen[OF assms] by (simp add: vstate_keys_def vstate_init_def)
  have "i \<in> v_seenID st \<longleftrightarrow> i \<in> m_ID ` set ms" for i
  proof -
    have "i \<in> v_seenID st \<longleftrightarrow> KeyID i \<in> vstate_keys st" by (auto simp: vstate_keys_def)
    also have "\<dots> \<longleftrightarrow> i \<in> m_ID ` set ms" unfolding keys by (cases managed) (auto simp: mapping_keys_def)
    finally show ?thesis .
  qed
  then show "v_seenID st = m_ID ` set ms" by blast
  have "k \<in> v_seenMark st \<longleftrightarrow> k \<in> set (mapping_marks ms)" if managed for k
  proof -
    have "k \<in> v_seenMark st \<longleftrightarrow> KeyMark k \<in> vstate_keys st" by (auto simp: vstate_keys_def)
    also have "\<dots> \<longleftrightarrow> k \<in> set (mapping_marks ms)"
      unfolding keys using that by (auto simp: mapping_keys_def set_mapping_marks)
    finally show ?thesis .
  qed
  then show "managed \<Longrightarrow> v_seenMark st = set (mapping_marks ms)" by blast
qed

lemma uuid_class_lower: "uuid_class i c \<Longrightarrow> lower_char c = c"
  by (auto simp: uuid_class_def lower_char_def is_hex_lower_def is_digit_def byte_of_def split: if_splits)

lemma uuid_match_lower: "uuid_match s \<Longrightarrow> to_lower s = s"
proof -
  assume u: "uuid_match s"
  have "lower_char (s ! i) = s ! i" if "i < length s" for i
  proof -
    from u that have "uuid_class i (s ! i)"
      by (auto simp: uuid_match_def list_all_length)
    then show ?thesis by (rule uuid_class_lower)
  qed
  then show ?thesis by (simp add: to_lower_def list_eq_iff_nth_eq)
qed

definition retirement_keys :: "retirement \<Rightarrow> vkey set" where
  "retirement_keys r = {KeyRet (r_RetirementID r), KeyMark (r_FlowMark r)}"

definition rstate_keys :: "string set \<times> u32 set \<Rightarrow> vkey set" where
  "rstate_keys st = KeyRet ` fst st \<union> KeyMark ` snd st"

lemma validate_retirement_iff:
  "validate_retirement lim gen active st r = Inr st' \<longleftrightarrow>
     wf_retirement lim gen active r \<and> retirement_keys r \<inter> rstate_keys st = {} \<and>
     st' = (insert (r_RetirementID r) (fst st), insert (r_FlowMark r) (snd st))"
proof -
  have keys: "retirement_keys r \<inter> rstate_keys st = {} \<longleftrightarrow> r_RetirementID r \<notin> fst st \<and> r_FlowMark r \<notin> snd st"
    by (auto simp: retirement_keys_def rstate_keys_def)
  have uuid: "(\<not> uuid_match (to_lower i) \<or> i \<noteq> to_lower i) = (\<not> uuid_match i)" for i
    using uuid_match_lower by metis
  show ?thesis
  proof (cases "\<exists>a. ParseAddr (r_TargetAddr r) = Some (IP4 a)")
    case True
    then obtain a where a: "ParseAddr (r_TargetAddr r) = Some (IP4 a)" by blast
    with parse_addr_canonical have "addr_string (IP4 a) = r_TargetAddr r" by blast
    with a show ?thesis
      unfolding keys validate_retirement_def wf_retirement_def uuid
      by (cases st) (auto simp: not_less not_le simp del: addr_string.simps)
  next
    case False
    then have "\<not> is4 a" if "ParseAddr (r_TargetAddr r) = Some a" for a using that by (cases a) auto
    with False show ?thesis
      unfolding validate_retirement_def wf_retirement_def
      by (cases st) (auto split: option.splits)
  qed
qed

interpretation retirement_loop:
  keyed_loop "validate_retirement lim gen active" "wf_retirement lim gen active" retirement_keys rstate_keys
  for lim gen active
  by unfold_locales
    (auto simp: validate_retirement_iff is_ok_iff, auto simp: rstate_keys_def retirement_keys_def)

lemma retirement_keys_apart:
  "retirement_loop.keys_apart rs \<longleftrightarrow> distinct (map r_RetirementID rs) \<and> distinct (map r_FlowMark rs)"
proof (induction rs)
  case Nil
  then show ?case by (simp add: retirement_loop.keys_apart_def)
next
  case (Cons r rs)
  have "(\<forall>x\<in>set rs. retirement_keys r \<inter> retirement_keys x = {}) \<longleftrightarrow>
      r_RetirementID r \<notin> r_RetirementID ` set rs \<and> r_FlowMark r \<notin> r_FlowMark ` set rs"
    by (force simp: retirement_keys_def image_iff)
  with Cons show ?case by (auto simp: retirement_loop.keys_apart_Cons)
qed

lemma retirement_scan_iff:
  "is_ok (scan (validate_retirement lim gen active) ({}, marks) rs) \<longleftrightarrow>
     (\<forall>r\<in>set rs. wf_retirement lim gen active r) \<and> distinct (map r_RetirementID rs)
     \<and> distinct (map r_FlowMark rs) \<and> marks \<inter> r_FlowMark ` set rs = {}"
  by (auto simp: retirement_loop.loop_iff retirement_keys_apart) (auto simp: retirement_keys_def rstate_keys_def)

lemma Validate_iff:
  "Validate lim s = Inr s' \<longleftrightarrow>
     wf_snapshot lim s \<and> s' = s\<lparr>s_Mappings := map_option with_targets (s_Mappings s)\<rparr>"
proof (cases "s_Mappings s")
  case None
  then show ?thesis by (simp add: Validate_def wf_snapshot_def)
next
  case (Some ms)
  let ?managed = "s_Retirements s \<noteq> None"
  let ?scan = "scan (validate_mapping lim ?managed) vstate_init ms"
  show ?thesis
  proof (cases ?scan)
    case (Inl e)
    with mapping_scan_iff[of lim ?managed ms] Some show ?thesis
      by (auto simp: Validate_def wf_snapshot_def split: option.splits)
  next
    case (Inr st)
    note state = mapping_scan_state[OF Inr]
    from mapping_scan_iff[of lim ?managed ms] Inr have wf: "\<forall>m\<in>set ms. wf_mapping lim ?managed m"
      "distinct (map m_ID ms)" "distinct (map (\<lambda>m. (m_Proto m, m_PublicPort m)) ms)"
      "?managed \<longrightarrow> distinct (mapping_marks ms)" by auto
    show ?thesis
    proof (cases "s_Retirements s")
      case None
      with Some Inr wf state(1) show ?thesis
        by (auto simp: Validate_def wf_snapshot_def Let_def not_less)
    next
      case rs: (Some rs)
      have loop: "is_ok (scan (validate_retirement lim (s_Generation s) (v_seenID st)) ({}, v_seenMark st) rs) \<longleftrightarrow>
          (\<forall>r\<in>set rs. wf_retirement lim (s_Generation s) (m_ID ` set ms) r) \<and> distinct (map r_RetirementID rs)
          \<and> distinct (mapping_marks ms @ map r_FlowMark rs)"
        using rs wf(4) state(2,3) by (auto simp: retirement_scan_iff)
      with Some Inr wf(1-3) state(1) rs show ?thesis
        by (auto simp: Validate_def wf_snapshot_def Let_def not_less rbind_Inr_iff is_ok_iff
            split: option.splits)
    qed
  qed
qed

subsection \<open>What decoding guarantees\<close>

lemma policy_stable_decoded: "policy_UnmarshalJSON v = Inr p \<Longrightarrow> policy_stable p"
  using policy_UnmarshalJSON_stable by (simp add: policy_stable_def)

definition mapping_ranges :: "mapping \<Rightarrow> bool" where
  "mapping_ranges m = (int64 (m_ID m) \<and> policy_stable (m_SourcePolicy m))"

lemma dec_mapping_ranges: "dec_mapping v m = Some m' \<Longrightarrow> mapping_ranges m \<Longrightarrow> mapping_ranges m'"
  unfolding dec_mapping_def
  by (erule dec_struct_invariant)
    (auto simp: set_mapping_field_def mapping_ranges_def dest: dec_i64_int64 policy_stable_decoded
      split: if_splits sum.splits)

lemma dec_retirement_ranges:
  "dec_retirement v r = Some r' \<Longrightarrow> int64 (r_MappingID r) \<and> int64 (r_Generation r) \<Longrightarrow>
   int64 (r_MappingID r') \<and> int64 (r_Generation r')"
  unfolding dec_retirement_def
  by (erule dec_struct_invariant) (auto simp: set_retirement_field_def dest: dec_i64_int64 split: if_splits)

lemma int64_0 [simp]: "int64 0"
  by (simp add: int64_def)

lemma dec_mappings_ranges:
  assumes "dec_slice dec_mapping mapping_zero v old = Some (Some ms)"
    and "\<forall>ys. old = Some ys \<longrightarrow> (\<forall>m\<in>set ys. mapping_ranges m)"
  shows "\<forall>m\<in>set ms. mapping_ranges m"
  using assms(1) _ assms(2) dec_mapping_ranges
  by (rule dec_slice_all) (auto simp: mapping_ranges_def mapping_zero_def policy_stable_def)

lemma dec_retirements_ranges:
  assumes "dec_slice dec_retirement retirement_zero v old = Some (Some rs)"
    and "\<forall>ys. old = Some ys \<longrightarrow> (\<forall>r\<in>set ys. int64 (r_MappingID r) \<and> int64 (r_Generation r))"
  shows "\<forall>r\<in>set rs. int64 (r_MappingID r) \<and> int64 (r_Generation r)"
  using assms(1) _ assms(2) dec_retirement_ranges
  by (rule dec_slice_all) (auto simp: retirement_zero_def)

lemma dec_snapshot_ranges: "dec_snapshot pt v = Some s \<Longrightarrow> json_ranges s"
  unfolding dec_snapshot_def
proof (erule dec_struct_invariant)
  show "json_ranges snapshot_zero" by (simp add: json_ranges_def snapshot_zero_def)
next
  fix k v x y
  assume "set_snapshot_field pt k v x = Some y" "json_ranges x"
  then show "json_ranges y"
    using dec_mappings_ranges[of v "s_Mappings x"] dec_retirements_ranges[of v "s_Retirements x"]
    by (auto simp: set_snapshot_field_def json_ranges_def mapping_ranges_def [symmetric] split: if_splits
        dest: dec_i64_int64 dec_ptr_i64_int64)
qed

lemma wf_mapping_target [simp]: "wf_mapping lim b (m\<lparr>m_target := x\<rparr>) = wf_mapping lim b m"
  by (simp add: wf_mapping_def guards_ok_def target_addr_def)

lemma mapping_marks_target [simp]: "mapping_marks (map (\<lambda>m. m\<lparr>m_target := f m\<rparr>) ms) = mapping_marks ms"
  by (induction ms) (auto simp: mapping_marks_def map_filter_simps split: option.splits)

lemma retarget [simp]:
  "map_option with_targets (s_Mappings (untargeted s)) = map_option with_targets (s_Mappings s)"
  by (cases "s_Mappings s") (auto simp: untargeted_def with_targets_def target_addr_def)

lemma wf_snapshot_retarget:
  assumes "s_Mappings s' = map_option (map (\<lambda>m. m\<lparr>m_target := f m\<rparr>)) (s_Mappings s)"
    and "s_Generation s' = s_Generation s" "s_Retirements s' = s_Retirements s" "s_Ack s' = s_Ack s"
  shows "wf_snapshot lim s' = wf_snapshot lim s"
proof (cases "s_Mappings s")
  case None
  with assms show ?thesis by (simp add: wf_snapshot_def)
next
  case (Some ms)
  let ?ms = "map (\<lambda>m. m\<lparr>m_target := f m\<rparr>) ms"
  have "map m_ID ?ms = map m_ID ms" "m_ID ` set ?ms = m_ID ` set ms"
    "map (\<lambda>m. (m_Proto m, m_PublicPort m)) ?ms = map (\<lambda>m. (m_Proto m, m_PublicPort m)) ms"
    by (simp_all add: o_def image_image)
  with assms Some show ?thesis
    by (cases "s_Retirements s") (simp_all add: wf_snapshot_def del: map_map)
qed

lemma Parse_InrD:
  assumes "Parse pt body lim = Inr s"
  shows "\<exists>v s0. DecodeFirst body = Some v \<and> dec_snapshot pt v = Some s0 \<and> Validate lim s0 = Inr s"
  using assms by (auto simp: Parse_def Let_def split: if_splits option.splits bind_splits)

lemma Parse_wf:
  assumes "Parse pt body lim = Inr s"
  shows "wf_snapshot lim s" "json_ranges s" "map_option with_targets (s_Mappings s) = s_Mappings s"
proof -
  from Parse_InrD[OF assms] obtain v s0 where dec: "dec_snapshot pt v = Some s0" and val: "Validate lim s0 = Inr s" by blast
  from val have wf: "wf_snapshot lim s0" and s: "s = s0\<lparr>s_Mappings := map_option with_targets (s_Mappings s0)\<rparr>"
    by (auto simp: Validate_iff)
  have "wf_snapshot lim s = wf_snapshot lim s0"
    by (rule wf_snapshot_retarget[where f = target_addr]) (simp_all add: s with_targets_def)
  with wf show "wf_snapshot lim s" by simp
  show "json_ranges s" using dec_snapshot_ranges[OF dec]
    by (auto simp: s json_ranges_def with_targets_def)
  show "map_option with_targets (s_Mappings s) = s_Mappings s"
    by (cases "s_Mappings s0") (auto simp: s with_targets_def target_addr_def)
qed

subsection \<open>Reading a persisted snapshot back\<close>

lemma map_of_opt_field_other: "k \<noteq> k' \<Longrightarrow> map_of (opt_field k f x) k' = None"
  by (auto simp: opt_field_def split: option.splits)

lemma mapping_json_flowMark: "raw_map (mapping_json x) = Some m \<Longrightarrow> map_of m ''flowMark'' \<noteq> Some JNull"
  by (auto simp: mapping_json_def raw_map_def opt_field_def enc_uint_def split: option.splits)

lemma Parse_persisted:
  assumes "wf_snapshot lim s" "json_ranges s" "map_option with_targets (s_Mappings s) = s_Mappings s"
    and "now \<noteq> 0" "pt (tt now) = Some now"
  shows "Parse pt (persisted_body tt now s) lim = Inr (s\<lparr>s_PersistedAt := now\<rparr>)"
proof -
  let ?s = "s\<lparr>s_PersistedAt := now\<rparr>"
  obtain kvs where kvs: "snapshot_json tt ?s = JObj kvs" by (simp add: snapshot_json_def)
  obtain ms where ms: "s_Mappings s = Some ms" using assms(1) by (auto simp: wf_snapshot_def)
  have maps: "map_of (rev kvs) ''mappings'' = Some (JArr (map mapping_json ms))"
    "map_of (rev kvs) ''retirements'' \<noteq> Some JNull"
    using kvs ms assms(4) by (auto simp: snapshot_json_def opt_field_def split: option.splits)
  have "dec_snapshot pt (JObj kvs) = Some (untargeted ?s)"
    unfolding kvs [symmetric] by (rule dec_snapshot_json) (use assms in \<open>auto simp: json_ranges_def\<close>)
  moreover have "Validate lim (untargeted ?s) = Inr ?s"
  proof -
    have "wf_snapshot lim (untargeted ?s) = wf_snapshot lim s"
      by (rule wf_snapshot_retarget[where f = "\<lambda>_. None"]) (simp_all add: untargeted_def)
    moreover have "(untargeted ?s)\<lparr>s_Mappings := s_Mappings s\<rparr> = ?s" by (simp add: untargeted_def)
    moreover have "map_option with_targets (s_Mappings (untargeted ?s)) = s_Mappings s" using assms(3) by simp
    ultimately show ?thesis using assms(1) by (simp only: Validate_iff)
  qed
  moreover have "\<not> flow_mark_null (JArr (map mapping_json ms))"
    by (auto simp: flow_mark_null_def dest: mapping_json_flowMark split: option.splits)
  ultimately show ?thesis
    using kvs maps by (simp add: Parse_def persisted_body_def Unmarshal_def DecodeFirst_def More_def is_null_body_def
        raw_map_def)
qed

subsection \<open>Attribution of errors\<close>

lemma guardCeiling_id: "guardCeiling i f v = Inl (ValidationError j e) \<Longrightarrow> j = i"
  by (auto simp: guardCeiling_def split: option.splits if_splits)

lemma check_ids:
  "check_mark b st m = Inl (ValidationError j e) \<Longrightarrow> j = m_ID m"
  "check_target lim m = Inl (ValidationError j e) \<Longrightarrow> j = m_ID m"
  "check_guards m = Inl (ValidationError j e) \<Longrightarrow> j = m_ID m"
  by (auto simp: check_mark_def check_target_def check_guards_def rbind_Inl_iff
      dest: guardCeiling_id split: option.splits if_splits)

lemma validate_mapping_error_id:
  "validate_mapping lim b st m = Inl (ValidationError j e) \<Longrightarrow> j = m_ID m"
  by (auto simp: validate_mapping_def rbind_Inl_iff dest: check_ids split: if_splits)

lemma validate_retirement_no_mapping:
  "validate_retirement lim g act st r \<noteq> Inl (ValidationError j e)"
  by (auto simp: validate_retirement_def split: prod.splits option.splits)

lemma retirement_scan_no_mapping:
  "scan (validate_retirement lim g act) st rs \<noteq> Inl (ValidationError j e)"
  using scan_error_at validate_retirement_no_mapping by metis

lemma Validate_mapping_error:
  assumes "Validate lim s = Inl (ValidationError i e)"
  shows "\<exists>ms. s_Mappings s = Some ms \<and>
    scan (validate_mapping lim (s_Retirements s \<noteq> None)) vstate_init ms = Inl (ValidationError i e)"
  using assms
  by (auto simp: Validate_def Let_def rbind_Inl_iff retirement_scan_no_mapping split: option.splits if_splits)

text \<open>
  C17: validation accepts a snapshot exactly when it is well formed (every mapping positive,
  in band, aimed into the allowed network and within the guard ceilings; ids, public ports,
  flow marks and retirement ids unique; retirements bound to their tuple hash and to no
  active mapping) and returns it with the parsed target addresses filled in.
\<close>

theorem snapshot_validate_exact:
  "Validate lim s = Inr s' \<longleftrightarrow>
     wf_snapshot lim s \<and> s' = s\<lparr>s_Mappings := map_option with_targets (s_Mappings s)\<rparr>"
  by (rule Validate_iff)

text \<open>
  An error that validation attributes to a mapping id names a mapping of the snapshot:
  the first one in order that is malformed or collides with an earlier id, public port or
  flow mark; every mapping before it is well formed.
\<close>

theorem snapshot_error_attributed:
  assumes "Validate lim s = Inl (ValidationError i e)"
  shows "\<exists>pre m post. s_Mappings s = Some (pre @ m # post) \<and> m_ID m = i
    \<and> (\<forall>x\<in>set pre. wf_mapping lim (s_Retirements s \<noteq> None) x)
    \<and> (\<not> wf_mapping lim (s_Retirements s \<noteq> None) m \<or> m_ID m \<in> m_ID ` set pre
       \<or> (m_Proto m, m_PublicPort m) \<in> (\<lambda>x. (m_Proto x, m_PublicPort x)) ` set pre
       \<or> set_option (m_FlowMark m) \<inter> set (mapping_marks pre) \<noteq> {})"
proof -
  let ?b = "s_Retirements s \<noteq> None"
  obtain ms where ms: "s_Mappings s = Some ms"
    and sc: "scan (validate_mapping lim ?b) vstate_init ms = Inl (ValidationError i e)"
    using Validate_mapping_error[OF assms] by blast
  obtain pre m post st where split: "ms = pre @ m # post"
    and pre: "scan (validate_mapping lim ?b) vstate_init pre = Inr st"
    and bad: "validate_mapping lim ?b st m = Inl (ValidationError i e)"
    using scan_error_at[OF sc] by blast
  have "\<not> (wf_mapping lim ?b m \<and> mapping_keys ?b m \<inter> vstate_keys st = {})"
    using bad validate_mapping_iff[of lim ?b st m] by auto
  moreover have "vstate_keys st = (\<Union>x\<in>set pre. mapping_keys ?b x)"
    using mapping_loop.loop_seen[OF pre] by (simp add: vstate_keys_def vstate_init_def)
  ultimately have "\<not> wf_mapping lim ?b m \<or> m_ID m \<in> m_ID ` set pre
       \<or> (m_Proto m, m_PublicPort m) \<in> (\<lambda>x. (m_Proto x, m_PublicPort x)) ` set pre
       \<or> set_option (m_FlowMark m) \<inter> set (mapping_marks pre) \<noteq> {}"
    by (cases ?b) (auto simp: mapping_keys_def set_mapping_marks)
  moreover have "\<forall>x\<in>set pre. wf_mapping lim ?b x" using mapping_loop.loop_sound[OF pre] by blast
  ultimately show ?thesis using ms split validate_mapping_error_id[OF bad] by blast
qed

text \<open>The snapshot of the project's documentation, for witnesses.\<close>

definition example_limits :: limits where
  "example_limits = \<lparr>lim_TargetCIDR = Prefix (IP4 0xc0000200) 24, lim_BandMin = 10000, lim_BandMax = 19999\<rparr>"

definition example_mapping :: mapping where
  "example_mapping = mapping_zero\<lparr>m_ID := 101, m_Proto := ''tcp'', m_PublicPort := 12345,
     m_TargetAddr := ''192.0.2.23'', m_TargetPort := 8080\<rparr>"

definition example_snapshot :: snapshot where
  "example_snapshot = snapshot_zero\<lparr>s_Generation := 42, s_Mappings := Some [example_mapping]\<rparr>"

lemma example_target: "target_addr example_mapping = Some (IP4 0xc0000217)"
  by (simp add: target_addr_def example_mapping_def mapping_zero_def netip_eval)

lemma example_wf_mapping: "wf_mapping example_limits False example_mapping"
  unfolding wf_mapping_def example_target
  by (simp add: example_limits_def example_mapping_def mapping_zero_def guards_ok_def capped_def ProtoTCP_def)

lemma example_wf: "wf_snapshot example_limits example_snapshot"
  by (simp add: wf_snapshot_def example_snapshot_def snapshot_zero_def example_wf_mapping MaxMappings_def)

lemma snapshot_error_attributed_witness:
  "\<exists>pre m post. s_Mappings (example_snapshot\<lparr>s_Mappings := Some [example_mapping, example_mapping]\<rparr>)
      = Some (pre @ m # post) \<and> m_ID m = 101"
proof -
  let ?s = "example_snapshot\<lparr>s_Mappings := Some [example_mapping, example_mapping]\<rparr>"
  have first: "validate_mapping example_limits False vstate_init example_mapping
      = Inr (vstate_add False vstate_init example_mapping)"
    unfolding validate_mapping_iff
    by (simp add: example_wf_mapping vstate_keys_def vstate_init_def)
  have "Validate example_limits ?s = Inl (ValidationError 101 DuplicateID)"
    by (simp add: Validate_def example_snapshot_def snapshot_zero_def MaxMappings_def first)
      (simp add: validate_mapping_def vstate_add_def example_mapping_def)
  from snapshot_error_attributed[OF this] show ?thesis by blast
qed

subsection \<open>The persisted copy\<close>

text \<open>
  C18: a snapshot that was parsed from the wire and persisted at time \<open>now\<close> is read back
  unchanged (its write time apart) by a later start whose clock is within the tolerance
  and whose maximum age is not exceeded.
\<close>

theorem persist_reload:
  assumes "Parse pt body lim = Inr s"
    and "now \<noteq> 0" "pt (tt now) = Some now"
    and "now \<le> now' + clockSkewTolerance" "now' - now \<le> maxAge" "- (2 ^ 63) \<le> maxAge"
  shows "LoadPersisted pt (Inr (persisted_body tt now s)) lim maxAge now' = Inr (s\<lparr>s_PersistedAt := now\<rparr>)"
proof -
  have "Parse pt (persisted_body tt now s) lim = Inr (s\<lparr>s_PersistedAt := now\<rparr>)"
    by (rule Parse_persisted[where tt = tt and pt = pt, OF Parse_wf[OF assms(1)] assms(2,3)])
  then show ?thesis using assms by (simp add: LoadPersisted_def time_sub_def)
qed

text \<open>The witnesses write a time as its decimal number of nanoseconds.\<close>

lemma example_parse:
  "\<exists>body s. Parse parse_int body example_limits = Inr s \<and> s_Generation s = 42 \<and> s_PersistedAt s = 1000 \<and> s_Retirements s = None
     \<and> body = persisted_body format_int 1000 (example_snapshot\<lparr>s_Mappings := Some (with_targets [example_mapping])\<rparr>)"
proof -
  let ?s = "example_snapshot\<lparr>s_Mappings := Some (with_targets [example_mapping])\<rparr>"
  have wf: "wf_snapshot example_limits ?s = wf_snapshot example_limits example_snapshot"
    by (rule wf_snapshot_retarget[where f = target_addr]) (simp_all add: with_targets_def example_snapshot_def)
  have "Parse parse_int (persisted_body format_int 1000 ?s) example_limits = Inr (?s\<lparr>s_PersistedAt := 1000\<rparr>)"
  proof (rule Parse_persisted)
    show "wf_snapshot example_limits ?s" using wf example_wf by simp
    show "json_ranges ?s"
      by (simp add: json_ranges_def with_targets_def example_snapshot_def snapshot_zero_def example_mapping_def
          mapping_zero_def int64_def policy_stable_def)
    show "map_option with_targets (s_Mappings ?s) = s_Mappings ?s"
      by (simp add: with_targets_def target_addr_def)
    show "parse_int (format_int 1000) = Some 1000" by (rule parse_int_format) simp_all
  qed simp
  then show ?thesis by (auto simp: example_snapshot_def snapshot_zero_def)
qed

lemma persist_reload_witness:
  "\<exists>body s. Parse parse_int body example_limits = Inr s \<and>
     LoadPersisted parse_int (Inr (persisted_body format_int 1000 s)) example_limits 500 1500 = Inr (s\<lparr>s_PersistedAt := 1000\<rparr>)"
proof -
  obtain body s where p: "Parse parse_int body example_limits = Inr s" using example_parse by blast
  have "parse_int (format_int 1000) = Some 1000" by (rule parse_int_format) simp_all
  from persist_reload[where tt = format_int and now = 1000 and now' = 1500 and maxAge = 500, OF p _ this] p show ?thesis by (auto simp: clockSkewTolerance_def)
qed

text \<open>
  C19: whatever bytes the state file holds, a snapshot that the start accepts from it is well
  formed for the start's limits, was written no later than five minutes ahead of the clock
  and no longer ago than the configured maximum age.
\<close>

theorem reload_window:
  assumes "LoadPersisted pt file lim maxAge now = Inr s" "maxAge < 2 ^ 63 - 1"
  shows "s_PersistedAt s \<noteq> 0 \<and> s_PersistedAt s - now \<le> 300 * 10 ^ 9 \<and> now - s_PersistedAt s \<le> maxAge
    \<and> wf_snapshot lim s"
  using assms Parse_wf(1)[of pt _ lim s]
  by (auto simp: LoadPersisted_def clockSkewTolerance_def time_sub_def split: sum.splits if_splits)

lemma reload_window_witness:
  "\<exists>file s. LoadPersisted parse_int file example_limits 500 1500 = Inr s \<and> 1500 - s_PersistedAt s \<le> 500"
proof -
  obtain body s where p: "Parse parse_int body example_limits = Inr s" "s_PersistedAt s = 1000"
    using example_parse by blast
  then have "LoadPersisted parse_int (Inr body) example_limits 500 1500 = Inr s"
    by (simp add: LoadPersisted_def clockSkewTolerance_def time_sub_def)
  moreover from reload_window[OF this] have "1500 - s_PersistedAt s \<le> 500" by simp
  ultimately show ?thesis by blast
qed

subsection \<open>Trailing bytes\<close>

text \<open>
  C20: the check for trailing data looks at one byte only and does not see a closing bracket.
  A body whose first document decodes is validated as if it ended there when the next
  character is a closing bracket, whatever follows; the checks for explicit nulls are
  skipped too, because they parse the whole body.
\<close>

theorem trailing_bracket_accepted:
  assumes "dec_snapshot pt v = Some s" "c = CHR ''}'' \<or> c = CHR '']''"
  shows "Parse pt (JDoc v (c # junk)) lim = Validate lim s"
  proof -
  have "\<not> json_space c" using assms(2) by (auto simp: json_space_def byte_of_def)
  with assms show ?thesis by (auto simp: Parse_def Unmarshal_def DecodeFirst_def More_def is_null_body_def)
qed

lemma trailing_bracket_accepted_witness:
  "dec_snapshot parse_int (JObj []) = Some snapshot_zero \<and>
   Parse parse_int (JDoc (JObj []) ''}garbage'') example_limits = Inl MappingsAbsent"
proof -
  have d: "dec_snapshot parse_int (JObj []) = Some snapshot_zero"
    by (simp add: dec_snapshot_def dec_struct_def)
  have "Validate example_limits snapshot_zero = Inl MappingsAbsent"
    by (simp add: Validate_def snapshot_zero_def)
  with d trailing_bracket_accepted[OF d, of "CHR ''}''" "''garbage''" example_limits] show ?thesis by simp
qed

end
