(* ===== verification/Ledger.thy ===== *)
theory Ledger
  imports Snapshot
begin

text \<open>
  \<open>internal/retirement\<close>: the ledger of active epochs and outstanding retirements.

  The ledger is the agent's memory of which mapping ids and flow marks were ever used.
  \<open>Prepare\<close> takes the ledger from one desired state to the next and refuses every
  transition that would reuse an identity, change an active epoch or lose a retirement.
  The copy the source makes through JSON is the identity on a value (\<open>dec_ledger_json\<close>
  below), so the model starts from the ledger itself. The loops are \<open>scan\<close>s in source order.

  Errors are values of \<open>ledger_error\<close>. The last check of \<open>Prepare\<close> ranges over a Go map: which id its
  message names depends on the iteration order, so \<open>EpochDisappeared\<close> carries none.
\<close>

unbundle bit_operations_syntax

definition MaxOutstanding :: nat where "MaxOutstanding = 4096"

record active =
  a_MappingID :: int
  a_FlowMark :: u32
  a_TupleHash :: string

record entry =
  e_Retirement :: retirement
  e_Cleared :: bool

record ledger =
  l_Version :: int
  l_LedgerID :: string
  l_Armed :: bool
  l_MappingIDHighWater :: int
  l_FlowMarkHighWater :: u32
  l_RetirementHighWater :: int
  l_ManagedGenerationHighWater :: int
  l_DesiredHash :: string
  l_AckHighWater :: int
  l_Active :: "active list option"
  l_Entries :: "entry list option"

datatype ledger_error =
    InvalidIdentity
  | TooManyOutstanding
  | InvalidActive
  | InvalidOutstanding
  | AckExceedsHighWater
  | InvalidGenerationIdentity
  | ArmedLegacy
  | GenerationRegressed
  | SameGenerationChanged
  | NilAckPanic
  | AckRegressedOrExceeded
  | AckedNotCleared
  | MappingMissingMark
  | EpochChanged int
  | EpochReusesHighWater int
  | RetirementChanged string
  | RetirementNoEpoch string
  | EpochDisappeared

text \<open>A slice read by \<open>range\<close> or \<open>len\<close>: nil is empty.\<close>

definition slice_of :: "'a list option \<Rightarrow> 'a list" where
  "slice_of x = (case x of None \<Rightarrow> [] | Some xs \<Rightarrow> xs)"

lemma slice_of_simps [simp]: "slice_of None = []" "slice_of (Some xs) = xs"
  by (simp_all add: slice_of_def)

subsection \<open>New\<close>

text \<open>\<open>b\<close> are the sixteen bytes read from \<open>crypto/rand\<close>; \<open>None\<close> is a failed read.\<close>

definition version_bits :: "u8 list \<Rightarrow> u8 list" where
  "version_bits b = b[6 := (b ! 6 AND 15) OR 64, 8 := (b ! 8 AND 63) OR 128]"

definition uuid_text :: "string \<Rightarrow> string" where
  "uuid_text h = take 8 h @ ''-'' @ take 4 (drop 8 h) @ ''-'' @ take 4 (drop 12 h) @ ''-''
     @ take 4 (drop 16 h) @ ''-'' @ drop 20 h"

definition New :: "u8 list option \<Rightarrow> ledger option" where
  "New rnd =
     (case rnd of None \<Rightarrow> None
      | Some b \<Rightarrow> Some
         \<lparr>l_Version = 1, l_LedgerID = uuid_text (hex_encode (version_bits b)), l_Armed = False,
          l_MappingIDHighWater = 0, l_FlowMarkHighWater = 0, l_RetirementHighWater = 0,
          l_ManagedGenerationHighWater = 0, l_DesiredHash = [], l_AckHighWater = 0,
          l_Active = Some [], l_Entries = Some []\<rparr>)"

subsection \<open>Validate\<close>

definition validate_active :: "ledger \<Rightarrow> int set \<times> u32 set \<Rightarrow> active \<Rightarrow> (ledger_error, int set \<times> u32 set) result" where
  "validate_active l st a =
     (case st of (ids, marks) \<Rightarrow>
      if a_MappingID a \<le> 0 \<or> a_MappingID a > l_MappingIDHighWater l \<or> a_FlowMark a = 0
         \<or> a_FlowMark a > l_FlowMarkHighWater l \<or> length (a_TupleHash a) \<noteq> 64
         \<or> a_MappingID a \<in> ids \<or> a_FlowMark a \<in> marks
      then Inl InvalidActive
      else Inr (insert (a_MappingID a) ids, insert (a_FlowMark a) marks))"

definition retirement_hash :: "retirement \<Rightarrow> string" where
  "retirement_hash r = TupleHash (r_MappingID r) (r_Proto r) (r_PublicPort r) (r_TargetAddr r) (r_TargetPort r) (r_FlowMark r)"

definition validate_entry ::
  "ledger \<Rightarrow> string set \<times> int set \<times> u32 set \<Rightarrow> entry \<Rightarrow> (ledger_error, string set \<times> int set \<times> u32 set) result" where
  "validate_entry l st e =
     (case st of (rids, ids, marks) \<Rightarrow>
      let r = e_Retirement e
      in if \<not> uuid_match (r_RetirementID r) \<or> r_RetirementID r \<in> rids \<or> r_MappingID r \<le> 0
            \<or> r_MappingID r > l_MappingIDHighWater l \<or> r_FlowMark r = 0 \<or> r_FlowMark r > l_FlowMarkHighWater l
            \<or> r_Generation r > l_RetirementHighWater l \<or> retirement_hash r \<noteq> r_TupleHash r
            \<or> r_MappingID r \<in> ids \<or> r_FlowMark r \<in> marks
         then Inl InvalidOutstanding
         else Inr (insert (r_RetirementID r) rids, insert (r_MappingID r) ids, insert (r_FlowMark r) marks))"

definition ledger_Validate :: "ledger \<Rightarrow> (ledger_error, unit) result" where
  "ledger_Validate l =
     (if l_Version l \<noteq> 1 \<or> \<not> uuid_match (l_LedgerID l) \<or> l_Active l = None \<or> l_Entries l = None
      then Inl InvalidIdentity
      else if length (slice_of (l_Entries l)) > MaxOutstanding then Inl TooManyOutstanding
      else rbind (scan (validate_active l) ({}, {}) (slice_of (l_Active l))) (\<lambda>(ids, marks).
           rbind (scan (validate_entry l) ({}, ids, marks) (slice_of (l_Entries l))) (\<lambda>_.
             if l_AckHighWater l > l_RetirementHighWater l then Inl AckExceedsHighWater
             else if l_Armed l \<and> (l_ManagedGenerationHighWater l \<le> 0 \<or> length (l_DesiredHash l) \<noteq> 64)
             then Inl InvalidGenerationIdentity
             else Inr ())))"

subsection \<open>Prepare\<close>

definition mappingHash :: "mapping \<Rightarrow> u32 \<Rightarrow> string" where
  "mappingHash m mark = TupleHash (m_ID m) (m_Proto m) (m_PublicPort m) (m_TargetAddr m) (m_TargetPort m) mark"

text \<open>\<open>map[int64]Active\<close> built in slice order: a later epoch overwrites an earlier one.\<close>

definition epoch_map :: "active list \<Rightarrow> int \<rightharpoonup> active" where
  "epoch_map as = map_of (rev (map (\<lambda>a. (a_MappingID a, a)) as))"

definition prep_generation :: "ledger \<Rightarrow> snapshot \<Rightarrow> (ledger_error, ledger) result" where
  "prep_generation n s =
     (if s_Generation s < l_ManagedGenerationHighWater n then Inl GenerationRegressed
      else if s_Generation s = l_ManagedGenerationHighWater n \<and> l_DesiredHash n \<noteq> [] \<and> l_DesiredHash n \<noteq> DesiredHash s
      then Inl SameGenerationChanged
      else if s_Generation s > l_ManagedGenerationHighWater n
      then Inr (n\<lparr>l_ManagedGenerationHighWater := s_Generation s, l_DesiredHash := DesiredHash s\<rparr>)
      else if l_DesiredHash n = [] then Inr (n\<lparr>l_DesiredHash := DesiredHash s\<rparr>)
      else Inr n)"

definition prep_keep :: "int \<Rightarrow> entry list \<Rightarrow> entry \<Rightarrow> (ledger_error, entry list) result" where
  "prep_keep ack kept e =
     (if r_Generation (e_Retirement e) \<le> ack
      then if \<not> e_Cleared e then Inl AckedNotCleared else Inr kept
      else Inr (kept @ [e]))"

definition prep_ack :: "ledger \<Rightarrow> int option \<Rightarrow> (ledger_error, ledger) result" where
  "prep_ack n acko =
     (case acko of None \<Rightarrow> Inl NilAckPanic
      | Some ack \<Rightarrow>
          if ack < l_AckHighWater n \<or> ack > l_RetirementHighWater n then Inl AckRegressedOrExceeded
          else rbind (scan (prep_keep ack) [] (slice_of (l_Entries n))) (\<lambda>kept.
                 Inr (n\<lparr>l_Entries := (case l_Entries n of None \<Rightarrow> None | Some _ \<Rightarrow> Some kept), l_AckHighWater := ack\<rparr>)))"

text \<open>
  The loop over the mappings; \<open>l0\<close> is the ledger before it, whose high-waters are
  \<open>previousMappingHighWater\<close> and \<open>previousFlowHighWater\<close>. Its state is \<open>(n, next)\<close>.
\<close>

definition prep_mapping :: "ledger \<Rightarrow> ledger \<times> active list \<Rightarrow> mapping \<Rightarrow> (ledger_error, ledger \<times> active list) result" where
  "prep_mapping l0 st m =
     (case st of (n, nxt) \<Rightarrow>
      case m_FlowMark m of None \<Rightarrow> Inl MappingMissingMark
      | Some mark \<Rightarrow>
          let h = mappingHash m mark
          in case epoch_map (slice_of (l_Active l0)) (m_ID m) of
               Some a \<Rightarrow>
                 if a_FlowMark a \<noteq> mark \<or> a_TupleHash a \<noteq> h then Inl (EpochChanged (m_ID m))
                 else Inr (n, nxt @ [\<lparr>a_MappingID = m_ID m, a_FlowMark = mark, a_TupleHash = h\<rparr>])
             | None \<Rightarrow>
                 if m_ID m \<le> l_MappingIDHighWater l0 \<or> mark \<le> l_FlowMarkHighWater l0
                 then Inl (EpochReusesHighWater (m_ID m))
                 else Inr (n\<lparr>l_MappingIDHighWater := (if m_ID m > l_MappingIDHighWater n then m_ID m else l_MappingIDHighWater n),
                            l_FlowMarkHighWater := (if mark > l_FlowMarkHighWater n then mark else l_FlowMarkHighWater n)\<rparr>,
                           nxt @ [\<lparr>a_MappingID = m_ID m, a_FlowMark = mark, a_TupleHash = h\<rparr>]))"

text \<open>
  The loop over the retirements; its state is \<open>(n, retired)\<close>. The inner loop over the
  entries fails at the first entry with the same id and another content.
\<close>

definition prep_retirement ::
  "ledger \<Rightarrow> ledger \<times> int set \<Rightarrow> retirement \<Rightarrow> (ledger_error, ledger \<times> int set) result" where
  "prep_retirement l0 st r =
     (case st of (n, retired) \<Rightarrow>
      let same = filter (\<lambda>e. r_RetirementID (e_Retirement e) = r_RetirementID r) (slice_of (l_Entries n))
      in if list_ex (\<lambda>e. e_Retirement e \<noteq> r) same then Inl (RetirementChanged (r_RetirementID r))
         else if same \<noteq> [] then Inr st
         else case epoch_map (slice_of (l_Active l0)) (r_MappingID r) of
                None \<Rightarrow> Inl (RetirementNoEpoch (r_RetirementID r))
              | Some a \<Rightarrow>
                  if a_FlowMark a \<noteq> r_FlowMark r \<or> a_TupleHash a \<noteq> r_TupleHash r
                     \<or> r_Generation r \<le> l_RetirementHighWater l0
                  then Inl (RetirementNoEpoch (r_RetirementID r))
                  else Inr (n\<lparr>l_Entries := Some (slice_of (l_Entries n) @ [\<lparr>e_Retirement = r, e_Cleared = False\<rparr>]),
                             l_RetirementHighWater := (if r_Generation r > l_RetirementHighWater n then r_Generation r
                                                       else l_RetirementHighWater n)\<rparr>,
                            insert (r_MappingID r) retired))"

definition entry_ids :: "ledger \<Rightarrow> int set" where
  "entry_ids n = (\<lambda>e. r_MappingID (e_Retirement e)) ` set (slice_of (l_Entries n))"

definition Prepare :: "ledger \<Rightarrow> snapshot \<Rightarrow> (ledger_error, ledger) result" where
  "Prepare l s =
     (case s_Retirements s of
        None \<Rightarrow> if l_Armed l then Inl ArmedLegacy else Inr l
      | Some rs \<Rightarrow>
          rbind (prep_generation (l\<lparr>l_Armed := True\<rparr>) s) (\<lambda>n1.
          rbind (prep_ack n1 (s_Ack s)) (\<lambda>n2.
          rbind (scan (prep_mapping n2) (n2, []) (slice_of (s_Mappings s))) (\<lambda>(n3, nxt).
          rbind (scan (prep_retirement n2) (n3, entry_ids n2) rs) (\<lambda>(n4, retired).
            if list_ex (\<lambda>a. a_MappingID a \<notin> a_MappingID ` set nxt \<and> a_MappingID a \<notin> retired) (slice_of (l_Active n2))
            then Inl EpochDisappeared
            else let n5 = n4\<lparr>l_Active := Some (filter (\<lambda>a. a_MappingID a \<notin> retired) nxt)\<rparr>
                 in rbind (ledger_Validate n5) (\<lambda>_. Inr n5))))))"

subsection \<open>Retirements, Clear, ClearedEntries\<close>

definition Retirements :: "ledger \<Rightarrow> retirement list" where
  "Retirements l = map e_Retirement (slice_of (l_Entries l))"

definition Clear :: "ledger \<Rightarrow> string set \<Rightarrow> ledger" where
  "Clear l ids = l\<lparr>l_Entries := map_option
     (map (\<lambda>e. if r_RetirementID (e_Retirement e) \<in> ids then e\<lparr>e_Cleared := True\<rparr> else e)) (l_Entries l)\<rparr>"

definition ClearedEntries :: "ledger \<Rightarrow> entry list" where
  "ClearedEntries l = filter e_Cleared (slice_of (l_Entries l))"

subsection \<open>The ledger file\<close>

definition entry_json :: "entry \<Rightarrow> json" where
  "entry_json e = (case retirement_json (e_Retirement e) of
     JObj kvs \<Rightarrow> JObj (kvs @ [(''cleared'', JBool (e_Cleared e))]) | v \<Rightarrow> v)"

definition active_json :: "active \<Rightarrow> json" where
  "active_json a = JObj [(''mappingId'', enc_i64 (a_MappingID a)), (''flowMark'', enc_uint (a_FlowMark a)),
     (''tupleHash'', JStr (a_TupleHash a))]"

definition slice_json :: "('a \<Rightarrow> json) \<Rightarrow> 'a list option \<Rightarrow> json" where
  "slice_json f x = (case x of None \<Rightarrow> JNull | Some xs \<Rightarrow> JArr (map f xs))"

definition ledger_json :: "ledger \<Rightarrow> json" where
  "ledger_json l = JObj
     [(''version'', enc_i64 (l_Version l)), (''retirementLedgerId'', JStr (l_LedgerID l)), (''armed'', JBool (l_Armed l)),
      (''mappingIdHighWater'', enc_i64 (l_MappingIDHighWater l)), (''flowMarkHighWater'', enc_uint (l_FlowMarkHighWater l)),
      (''retirementHighWater'', enc_i64 (l_RetirementHighWater l)),
      (''managedGenerationHighWater'', enc_i64 (l_ManagedGenerationHighWater l)), (''desiredHash'', JStr (l_DesiredHash l)),
      (''acknowledgedRetirementHighWater'', enc_i64 (l_AckHighWater l)),
      (''active'', slice_json active_json (l_Active l)), (''entries'', slice_json entry_json (l_Entries l))]"

definition set_active_field :: "string \<Rightarrow> json \<Rightarrow> active \<Rightarrow> active option" where
  "set_active_field k v a =
     (if k = ''mappingid'' then map_option (\<lambda>x. a\<lparr>a_MappingID := x\<rparr>) (dec_i64 v (a_MappingID a))
      else if k = ''flowmark'' then map_option (\<lambda>x. a\<lparr>a_FlowMark := x\<rparr>) (dec_uint v (a_FlowMark a))
      else if k = ''tuplehash'' then map_option (\<lambda>x. a\<lparr>a_TupleHash := x\<rparr>) (dec_str v (a_TupleHash a))
      else None)"

definition set_entry_field :: "string \<Rightarrow> json \<Rightarrow> entry \<Rightarrow> entry option" where
  "set_entry_field k v e =
     (if k = ''cleared'' then map_option (\<lambda>x. e\<lparr>e_Cleared := x\<rparr>) (dec_bool v (e_Cleared e))
      else map_option (\<lambda>r. e\<lparr>e_Retirement := r\<rparr>) (set_retirement_field k v (e_Retirement e)))"

definition active_zero :: active where
  "active_zero = \<lparr>a_MappingID = 0, a_FlowMark = 0, a_TupleHash = []\<rparr>"

definition entry_zero :: entry where
  "entry_zero = \<lparr>e_Retirement = retirement_zero, e_Cleared = False\<rparr>"

definition ledger_zero :: ledger where
  "ledger_zero = \<lparr>l_Version = 0, l_LedgerID = [], l_Armed = False, l_MappingIDHighWater = 0, l_FlowMarkHighWater = 0,
     l_RetirementHighWater = 0, l_ManagedGenerationHighWater = 0, l_DesiredHash = [], l_AckHighWater = 0,
     l_Active = None, l_Entries = None\<rparr>"

definition set_ledger_field :: "string \<Rightarrow> json \<Rightarrow> ledger \<Rightarrow> ledger option" where
  "set_ledger_field k v l =
     (if k = ''version'' then map_option (\<lambda>x. l\<lparr>l_Version := x\<rparr>) (dec_i64 v (l_Version l))
      else if k = ''retirementledgerid'' then map_option (\<lambda>x. l\<lparr>l_LedgerID := x\<rparr>) (dec_str v (l_LedgerID l))
      else if k = ''armed'' then map_option (\<lambda>x. l\<lparr>l_Armed := x\<rparr>) (dec_bool v (l_Armed l))
      else if k = ''mappingidhighwater'' then
        map_option (\<lambda>x. l\<lparr>l_MappingIDHighWater := x\<rparr>) (dec_i64 v (l_MappingIDHighWater l))
      else if k = ''flowmarkhighwater'' then
        map_option (\<lambda>x. l\<lparr>l_FlowMarkHighWater := x\<rparr>) (dec_uint v (l_FlowMarkHighWater l))
      else if k = ''retirementhighwater'' then
        map_option (\<lambda>x. l\<lparr>l_RetirementHighWater := x\<rparr>) (dec_i64 v (l_RetirementHighWater l))
      else if k = ''managedgenerationhighwater'' then
        map_option (\<lambda>x. l\<lparr>l_ManagedGenerationHighWater := x\<rparr>) (dec_i64 v (l_ManagedGenerationHighWater l))
      else if k = ''desiredhash'' then map_option (\<lambda>x. l\<lparr>l_DesiredHash := x\<rparr>) (dec_str v (l_DesiredHash l))
      else if k = ''acknowledgedretirementhighwater'' then
        map_option (\<lambda>x. l\<lparr>l_AckHighWater := x\<rparr>) (dec_i64 v (l_AckHighWater l))
      else if k = ''active'' then
        map_option (\<lambda>x. l\<lparr>l_Active := x\<rparr>) (dec_slice (dec_struct set_active_field) active_zero v (l_Active l))
      else if k = ''entries'' then
        map_option (\<lambda>x. l\<lparr>l_Entries := x\<rparr>) (dec_slice (dec_struct set_entry_field) entry_zero v (l_Entries l))
      else None)"

definition dec_ledger :: "json \<Rightarrow> ledger option" where
  "dec_ledger v = dec_struct set_ledger_field v ledger_zero"

datatype ledger_load_error = LedgerUnreadable io_error | LedgerUndecodable | LedgerInvalid ledger_error

definition ledger_Load :: "(io_error, jbody) result \<Rightarrow> (ledger_load_error, ledger) result" where
  "ledger_Load file =
     (case file of Inl e \<Rightarrow> Inl (LedgerUnreadable e)
      | Inr b \<Rightarrow>
          (case Option.bind (DecodeFirst b) dec_ledger of None \<Rightarrow> Inl LedgerUndecodable
           | Some l \<Rightarrow> (case ledger_Validate l of Inl e \<Rightarrow> Inl (LedgerInvalid e) | Inr _ \<Rightarrow> Inr l)))"

text \<open>What \<open>Persist\<close> writes, after validating.\<close>

definition ledger_body :: "ledger \<Rightarrow> (ledger_error, jbody) result" where
  "ledger_body l = rbind (ledger_Validate l) (\<lambda>_. Inr (JDoc (ledger_json l) []))"

subsection \<open>Well-formed ledgers\<close>

definition wf_active :: "ledger \<Rightarrow> active \<Rightarrow> bool" where
  "wf_active l a \<longleftrightarrow>
     0 < a_MappingID a \<and> a_MappingID a \<le> l_MappingIDHighWater l
     \<and> a_FlowMark a \<noteq> 0 \<and> a_FlowMark a \<le> l_FlowMarkHighWater l
     \<and> length (a_TupleHash a) = 64"

abbreviation e_id :: "entry \<Rightarrow> int" where "e_id e \<equiv> r_MappingID (e_Retirement e)"
abbreviation e_mark :: "entry \<Rightarrow> u32" where "e_mark e \<equiv> r_FlowMark (e_Retirement e)"
abbreviation e_rid :: "entry \<Rightarrow> string" where "e_rid e \<equiv> r_RetirementID (e_Retirement e)"
abbreviation e_gen :: "entry \<Rightarrow> int" where "e_gen e \<equiv> r_Generation (e_Retirement e)"

definition wf_entry :: "ledger \<Rightarrow> entry \<Rightarrow> bool" where
  "wf_entry l e \<longleftrightarrow>
     uuid_match (e_rid e)
     \<and> 0 < e_id e \<and> e_id e \<le> l_MappingIDHighWater l
     \<and> e_mark e \<noteq> 0 \<and> e_mark e \<le> l_FlowMarkHighWater l
     \<and> e_gen e \<le> l_RetirementHighWater l
     \<and> r_TupleHash (e_Retirement e) = retirement_hash (e_Retirement e)"

definition wf_ledger :: "ledger \<Rightarrow> bool" where
  "wf_ledger l \<longleftrightarrow>
     l_Version l = 1 \<and> uuid_match (l_LedgerID l)
     \<and> (\<exists>as es. l_Active l = Some as \<and> l_Entries l = Some es
          \<and> length es \<le> MaxOutstanding
          \<and> (\<forall>a\<in>set as. wf_active l a) \<and> (\<forall>e\<in>set es. wf_entry l e)
          \<and> distinct (map a_MappingID as @ map e_id es)
          \<and> distinct (map a_FlowMark as @ map e_mark es)
          \<and> distinct (map e_rid es))
     \<and> l_AckHighWater l \<le> l_RetirementHighWater l
     \<and> (l_Armed l \<longrightarrow> 0 < l_ManagedGenerationHighWater l \<and> length (l_DesiredHash l) = 64)"

definition active_keys :: "active \<Rightarrow> vkey set" where
  "active_keys a = {KeyID (a_MappingID a), KeyMark (a_FlowMark a)}"

definition entry_keys :: "entry \<Rightarrow> vkey set" where
  "entry_keys e = {KeyRet (e_rid e), KeyID (e_id e), KeyMark (e_mark e)}"

definition active_seen :: "int set \<times> u32 set \<Rightarrow> vkey set" where
  "active_seen st = KeyID ` fst st \<union> KeyMark ` snd st"

definition entry_seen :: "string set \<times> int set \<times> u32 set \<Rightarrow> vkey set" where
  "entry_seen st = KeyRet ` fst st \<union> active_seen (snd st)"

interpretation active_loop: keyed_loop "validate_active l" "wf_active l" active_keys active_seen for l
  by unfold_locales
    (auto simp: validate_active_def wf_active_def active_keys_def active_seen_def is_ok_iff not_le not_less
      split: if_splits)

interpretation entry_loop: keyed_loop "validate_entry l" "wf_entry l" entry_keys entry_seen for l
  by unfold_locales
    (auto simp: validate_entry_def wf_entry_def entry_keys_def entry_seen_def active_seen_def is_ok_iff not_le not_less
      Let_def split: if_splits)

lemma active_keys_apart:
  "active_loop.keys_apart as \<longleftrightarrow> distinct (map a_MappingID as) \<and> distinct (map a_FlowMark as)"
  unfolding active_loop.keys_apart_def by (induction as) (auto simp: active_keys_def image_iff)

lemma entry_keys_apart:
  "entry_loop.keys_apart es \<longleftrightarrow> distinct (map e_id es) \<and> distinct (map e_mark es) \<and> distinct (map e_rid es)"
  unfolding entry_loop.keys_apart_def by (induction es) (auto simp: entry_keys_def image_iff)

lemma active_scan_state:
  assumes "scan (validate_active l) ({}, {}) as = Inr (ids, marks)"
  shows "ids = a_MappingID ` set as" "marks = a_FlowMark ` set as"
proof -
  have eq: "active_seen (ids, marks) = (\<Union>a\<in>set as. active_keys a)"
    using active_loop.loop_seen[OF assms] by (simp add: active_seen_def)
  have "i \<in> ids \<longleftrightarrow> KeyID i \<in> active_seen (ids, marks)" for i by (auto simp: active_seen_def)
  then show "ids = a_MappingID ` set as" unfolding eq by (auto simp: active_keys_def)
  have "k \<in> marks \<longleftrightarrow> KeyMark k \<in> active_seen (ids, marks)" for k by (auto simp: active_seen_def)
  then show "marks = a_FlowMark ` set as" unfolding eq by (auto simp: active_keys_def)
qed

lemma ledger_Validate_iff: "ledger_Validate l = Inr u \<longleftrightarrow> wf_ledger l"
proof (cases "l_Active l = None \<or> l_Entries l = None")
  case True
  then show ?thesis by (auto simp: ledger_Validate_def wf_ledger_def)
next
  case False
  then obtain as es where as: "l_Active l = Some as" and es: "l_Entries l = Some es" by auto
  have loop1: "is_ok (scan (validate_active l) ({}, {}) as) \<longleftrightarrow>
      (\<forall>a\<in>set as. wf_active l a) \<and> distinct (map a_MappingID as) \<and> distinct (map a_FlowMark as)"
    by (simp add: active_loop.loop_iff active_keys_apart active_seen_def)
  show ?thesis
  proof (cases "scan (validate_active l) ({}, {}) as")
    case (Inl e)
    with loop1 as es show ?thesis by (auto simp: ledger_Validate_def wf_ledger_def)
  next
    case (Inr st)
    obtain ids marks where st: "st = (ids, marks)" by (cases st)
    note state = active_scan_state[OF Inr[unfolded st]]
    have "(\<forall>e\<in>set es. entry_keys e \<inter> entry_seen ({}, ids, marks) = {}) \<longleftrightarrow>
        e_id ` set es \<inter> ids = {} \<and> e_mark ` set es \<inter> marks = {}"
      by (auto simp: entry_keys_def entry_seen_def active_seen_def)
    then have loop2: "is_ok (scan (validate_entry l) ({}, ids, marks) es) \<longleftrightarrow>
        (\<forall>e\<in>set es. wf_entry l e) \<and> e_id ` set es \<inter> ids = {} \<and> e_mark ` set es \<inter> marks = {}
        \<and> distinct (map e_id es) \<and> distinct (map e_mark es) \<and> distinct (map e_rid es)"
      by (auto simp: entry_loop.loop_iff entry_keys_apart)
    show ?thesis
      using as es Inr loop1 loop2 st state
      by (cases "scan (validate_entry l) ({}, ids, marks) es")
        (auto simp: ledger_Validate_def wf_ledger_def not_less not_le)
  qed
qed

subsection \<open>What the loops of Prepare compute\<close>

lemma prep_keep_scan:
  "scan (prep_keep ack) k es = Inr kept \<longleftrightarrow>
     (\<forall>e\<in>set es. e_gen e \<le> ack \<longrightarrow> e_Cleared e) \<and> kept = k @ filter (\<lambda>e. ack < e_gen e) es"
  by (induction es arbitrary: k) (auto simp: prep_keep_def not_less)

lemma prep_ack_iff:
  "prep_ack n acko = Inr n' \<longleftrightarrow>
     (\<exists>ack. acko = Some ack \<and> l_AckHighWater n \<le> ack \<and> ack \<le> l_RetirementHighWater n
       \<and> (\<forall>e\<in>set (slice_of (l_Entries n)). e_gen e \<le> ack \<longrightarrow> e_Cleared e)
       \<and> n' = n\<lparr>l_Entries := map_option (filter (\<lambda>e. ack < e_gen e)) (l_Entries n), l_AckHighWater := ack\<rparr>)"
  by (cases acko; cases "l_Entries n") (auto simp: prep_ack_def rbind_Inr_iff prep_keep_scan)

text \<open>The epoch a mapping stands for.\<close>

definition epoch_of :: "mapping \<Rightarrow> active" where
  "epoch_of m = (let mark = the (m_FlowMark m)
     in \<lparr>a_MappingID = m_ID m, a_FlowMark = mark, a_TupleHash = mappingHash m mark\<rparr>)"

lemma epoch_of_simps [simp]:
  "a_MappingID (epoch_of m) = m_ID m"
  "a_FlowMark (epoch_of m) = the (m_FlowMark m)"
  by (simp_all add: epoch_of_def Let_def)

lemma epoch_map_id: "epoch_map as i = Some a \<Longrightarrow> a_MappingID a = i \<and> a \<in> set as"
  by (auto simp: epoch_map_def dest: map_of_SomeD)

lemma epoch_map_None: "epoch_map as i = None \<longleftrightarrow> i \<notin> a_MappingID ` set as"
  by (auto simp: epoch_map_def map_of_eq_None_iff image_image)

lemma epoch_map_Some:
  assumes "distinct (map a_MappingID as)"
  shows "epoch_map as i = Some a \<longleftrightarrow> a \<in> set as \<and> a_MappingID a = i"
proof
  assume "a \<in> set as \<and> a_MappingID a = i"
  moreover have "distinct (map fst (rev (map (\<lambda>a. (a_MappingID a, a)) as)))"
    using assms by (simp add: rev_map [symmetric] o_def)
  ultimately show "epoch_map as i = Some a" by (auto simp: epoch_map_def intro!: map_of_is_SomeI)
qed (auto dest: epoch_map_id)

text \<open>How a mapping may enter the active set: as the epoch it already is, or above both high-waters.\<close>

definition epoch_admitted :: "ledger \<Rightarrow> mapping \<Rightarrow> bool" where
  "epoch_admitted l m \<longleftrightarrow> m_FlowMark m \<noteq> None \<and>
     (case epoch_map (slice_of (l_Active l)) (m_ID m) of
        Some a \<Rightarrow> a = epoch_of m
      | None \<Rightarrow> l_MappingIDHighWater l < m_ID m \<and> l_FlowMarkHighWater l < the (m_FlowMark m))"

definition is_new_epoch :: "ledger \<Rightarrow> mapping \<Rightarrow> bool" where
  "is_new_epoch l m \<longleftrightarrow> epoch_map (slice_of (l_Active l)) (m_ID m) = None"

definition raise_marks :: "ledger \<Rightarrow> mapping list \<Rightarrow> ledger \<Rightarrow> ledger" where
  "raise_marks l0 ms n =
     (let new = filter (is_new_epoch l0) ms
      in n\<lparr>l_MappingIDHighWater := fold max (map m_ID new) (l_MappingIDHighWater n),
           l_FlowMarkHighWater := fold max (map (the \<circ> m_FlowMark) new) (l_FlowMarkHighWater n)\<rparr>)"

lemma max_if: "(if x > y then x else y) = max y (x::'a::linorder)"
  by (auto simp: max_def)

lemma prep_mapping_iff:
  "prep_mapping l0 (n, nxt) m = Inr st \<longleftrightarrow>
     epoch_admitted l0 m \<and> st = (raise_marks l0 [m] n, nxt @ [epoch_of m])"
proof (cases "m_FlowMark m")
  case None
  then show ?thesis by (simp add: prep_mapping_def epoch_admitted_def)
next
  case (Some mark)
  show ?thesis
  proof (cases "epoch_map (slice_of (l_Active l0)) (m_ID m)")
    case None
    with Some show ?thesis
      by (cases n) (auto simp: prep_mapping_def epoch_admitted_def raise_marks_def is_new_epoch_def Let_def max_if epoch_of_def max.commute)
  next
    case old: (Some a)
    have "a = epoch_of m \<longleftrightarrow> a_FlowMark a = mark \<and> a_TupleHash a = mappingHash m mark"
      using epoch_map_id[OF old] Some by (cases a) (auto simp: epoch_of_def)
    with old Some show ?thesis
      by (auto simp: prep_mapping_def epoch_admitted_def raise_marks_def is_new_epoch_def Let_def epoch_of_def)
  qed
qed

lemma prep_mapping_scan:
  "scan (prep_mapping l0) (n, nxt) ms = Inr st \<longleftrightarrow>
     (\<forall>m\<in>set ms. epoch_admitted l0 m) \<and> st = (raise_marks l0 ms n, nxt @ map epoch_of ms)"
proof (induction ms arbitrary: n nxt)
  case Nil
  then show ?case by (auto simp: raise_marks_def)
next
  case (Cons m ms)
  have "raise_marks l0 ms (raise_marks l0 [m] n) = raise_marks l0 (m # ms) n"
    by (simp add: raise_marks_def Let_def)
  moreover have "scan (prep_mapping l0) (n, nxt) (m # ms) = Inr st \<longleftrightarrow>
      (\<exists>u. prep_mapping l0 (n, nxt) m = Inr u \<and> scan (prep_mapping l0) u ms = Inr st)"
    by (auto split: sum.splits)
  ultimately show ?case by (auto simp: prep_mapping_iff Cons.IH)
qed

lemma fold_max_ge: "y \<le> fold max xs (y::'a::linorder)"
proof (induction xs arbitrary: y)
  case (Cons a xs)
  from Cons[of "max a y"] show ?case by simp
qed simp

lemma fold_max_mem: "x \<in> set xs \<Longrightarrow> x \<le> fold max xs (y::'a::linorder)"
  by (induction xs arbitrary: y) (auto intro: order.trans[OF _ fold_max_ge])

lemma fold_max_gt: "z < x \<Longrightarrow> x \<in> set xs \<Longrightarrow> z < fold max xs (y::'a::linorder)"
  by (meson fold_max_mem less_le_trans)

abbreviation fresh_entry :: "retirement \<Rightarrow> entry" where
  "fresh_entry r \<equiv> \<lparr>e_Retirement = r, e_Cleared = False\<rparr>"

text \<open>When a retirement that is not in the ledger may enter it.\<close>

definition retires_epoch :: "ledger \<Rightarrow> retirement \<Rightarrow> bool" where
  "retires_epoch l r \<longleftrightarrow>
     (\<exists>a. epoch_map (slice_of (l_Active l)) (r_MappingID r) = Some a
        \<and> a_FlowMark a = r_FlowMark r \<and> a_TupleHash a = r_TupleHash r)
     \<and> l_RetirementHighWater l < r_Generation r"

definition add_retirements :: "retirement list \<Rightarrow> ledger \<Rightarrow> ledger" where
  "add_retirements new n =
     n\<lparr>l_Entries := (if new = [] then l_Entries n else Some (slice_of (l_Entries n) @ map fresh_entry new)),
       l_RetirementHighWater := fold max (map r_Generation new) (l_RetirementHighWater n)\<rparr>"

lemma add_retirements_append:
  "add_retirements ys (add_retirements xs n) = add_retirements (xs @ ys) n"
  by (auto simp: add_retirements_def split: option.splits)

lemma prep_retirement_InrD:
  assumes "prep_retirement l0 (n, R) r = Inr st"
  shows "(r \<in> set (Retirements n) \<and> st = (n, R))
    \<or> (retires_epoch l0 r \<and> r_RetirementID r \<notin> r_RetirementID ` set (Retirements n)
       \<and> st = (add_retirements [r] n, insert (r_MappingID r) R))"
proof (cases "filter (\<lambda>e. e_rid e = r_RetirementID r) (slice_of (l_Entries n)) = []")
  case True
  then have "r_RetirementID r \<notin> r_RetirementID ` set (Retirements n)"
    by (auto simp: Retirements_def filter_empty_conv)
  with assms True show ?thesis
    by (auto simp: prep_retirement_def Let_def retires_epoch_def add_retirements_def max_if max.commute
        split: option.splits if_splits)
next
  case False
  then obtain e where "e \<in> set (slice_of (l_Entries n))" "e_rid e = r_RetirementID r"
    by (auto simp: filter_empty_conv)
  with assms False show ?thesis
    by (auto simp: prep_retirement_def Let_def list_ex_iff Retirements_def split: if_splits)
qed

lemma prep_retirement_scan:
  assumes "scan (prep_retirement l0) (n, R) rs = Inr (n', R')"
  shows "\<exists>new. set new \<subseteq> set rs \<and> (\<forall>r\<in>set new. retires_epoch l0 r \<and> r_RetirementID r \<notin> r_RetirementID ` set (Retirements n))
    \<and> n' = add_retirements new n \<and> R' = R \<union> r_MappingID ` set new \<and> set rs \<subseteq> set (Retirements n')"
  using assms
proof (induction rs arbitrary: n R)
  case Nil
  then show ?case by (intro exI[of _ "[]"]) (auto simp: add_retirements_def)
next
  case (Cons r rs)
  then obtain n1 R1 where one: "prep_retirement l0 (n, R) r = Inr (n1, R1)"
    and rest: "scan (prep_retirement l0) (n1, R1) rs = Inr (n', R')"
    by (auto split: sum.splits)
  from Cons.IH[OF rest] obtain new where new: "set new \<subseteq> set rs"
    "\<forall>r\<in>set new. retires_epoch l0 r \<and> r_RetirementID r \<notin> r_RetirementID ` set (Retirements n1)"
    "n' = add_retirements new n1" "R' = R1 \<union> r_MappingID ` set new" "set rs \<subseteq> set (Retirements n')" by blast
  have grows: "set (Retirements m) \<subseteq> set (Retirements (add_retirements xs m))" for m xs
    by (auto simp: Retirements_def add_retirements_def split: option.splits)
  from prep_retirement_InrD[OF one] show ?case
  proof
    assume "r \<in> set (Retirements n) \<and> (n1, R1) = (n, R)"
    with new grows[of n new] show ?thesis by (intro exI[of _ new]) auto
  next
    assume r: "retires_epoch l0 r \<and> r_RetirementID r \<notin> r_RetirementID ` set (Retirements n)
       \<and> (n1, R1) = (add_retirements [r] n, insert (r_MappingID r) R)"
    then have "r \<in> set (Retirements n1)" by (simp add: Retirements_def add_retirements_def)
    moreover have "r_RetirementID ` set (Retirements n) \<subseteq> r_RetirementID ` set (Retirements n1)"
      using r grows[of n "[r]"] by (intro image_mono) simp
    ultimately show ?thesis using new r grows[of n1 new]
      by (intro exI[of _ "r # new"]) (auto simp: add_retirements_append)
  qed
qed

lemma prep_retirement_known:
  assumes "set rs \<subseteq> set (Retirements n)" "distinct (map r_RetirementID (Retirements n))"
  shows "scan (prep_retirement l0) (n, R) rs = Inr (n, R)"
  using assms(1)
proof (induction rs)
  case Nil
  then show ?case by simp
next
  case (Cons r rs)
  then obtain e where e: "e \<in> set (slice_of (l_Entries n))" "e_Retirement e = r" by (auto simp: Retirements_def)
  have "e_Retirement x = r" if "x \<in> set (slice_of (l_Entries n))" "e_rid x = r_RetirementID r" for x
    using assms(2) e that by (auto simp: Retirements_def distinct_map inj_on_def)
  with e have "prep_retirement l0 (n, R) r = Inr (n, R)"
    by (auto simp: prep_retirement_def Let_def list_ex_iff filter_empty_conv)
  with Cons show ?case by simp
qed

lemma prep_generation_iff:
  "prep_generation n s = Inr n' \<longleftrightarrow>
     l_ManagedGenerationHighWater n \<le> s_Generation s
     \<and> (s_Generation s = l_ManagedGenerationHighWater n \<longrightarrow> l_DesiredHash n \<in> {[], DesiredHash s})
     \<and> n' = n\<lparr>l_ManagedGenerationHighWater := s_Generation s, l_DesiredHash := DesiredHash s\<rparr>"
  by (cases n) (auto simp: prep_generation_def)

text \<open>
  The ledger a successful managed \<open>Prepare\<close> returns, in closed form: \<open>new\<close> are the
  retirements that enter it.
\<close>

definition kept_entries :: "ledger \<Rightarrow> int \<Rightarrow> entry list" where
  "kept_entries l ack = filter (\<lambda>e. ack < e_gen e) (slice_of (l_Entries l))"

definition prepared :: "ledger \<Rightarrow> snapshot \<Rightarrow> int \<Rightarrow> retirement list \<Rightarrow> ledger" where
  "prepared l s ack new =
     (let ms = slice_of (s_Mappings s); fresh = filter (is_new_epoch l) ms
      in \<lparr>l_Version = l_Version l, l_LedgerID = l_LedgerID l, l_Armed = True,
          l_MappingIDHighWater = fold max (map m_ID fresh) (l_MappingIDHighWater l),
          l_FlowMarkHighWater = fold max (map (the \<circ> m_FlowMark) fresh) (l_FlowMarkHighWater l),
          l_RetirementHighWater = fold max (map r_Generation new) (l_RetirementHighWater l),
          l_ManagedGenerationHighWater = s_Generation s, l_DesiredHash = DesiredHash s, l_AckHighWater = ack,
          l_Active = Some (filter (\<lambda>a. a_MappingID a \<notin> e_id ` set (kept_entries l ack) \<union> r_MappingID ` set new)
                       (map epoch_of ms)),
          l_Entries = Some (kept_entries l ack @ map fresh_entry new)\<rparr>)"

definition ack_ok :: "ledger \<Rightarrow> int \<Rightarrow> bool" where
  "ack_ok l ack \<longleftrightarrow> l_AckHighWater l \<le> ack \<and> ack \<le> l_RetirementHighWater l
     \<and> (\<forall>e\<in>set (slice_of (l_Entries l)). e_gen e \<le> ack \<longrightarrow> e_Cleared e)"

text \<open>The ledger after the generation and acknowledgement checks, \<open>n\<close> when \<open>old\<close> is built.\<close>

definition acked :: "ledger \<Rightarrow> snapshot \<Rightarrow> int \<Rightarrow> ledger" where
  "acked l s ack = l\<lparr>l_Armed := True, l_ManagedGenerationHighWater := s_Generation s, l_DesiredHash := DesiredHash s,
     l_Entries := map_option (filter (\<lambda>e. ack < e_gen e)) (l_Entries l), l_AckHighWater := ack\<rparr>"

lemma slice_of_acked [simp]: "slice_of (l_Entries (acked l s ack)) = kept_entries l ack"
  by (cases "l_Entries l") (simp_all add: acked_def kept_entries_def)

lemma acked_same [simp]:
  "epoch_admitted (acked l s ack) = epoch_admitted l"
  "retires_epoch (acked l s ack) = retires_epoch l"
  "is_new_epoch (acked l s ack) = is_new_epoch l"
  by (auto simp: acked_def epoch_admitted_def retires_epoch_def is_new_epoch_def fun_eq_iff split: option.splits)

definition gen_ok :: "ledger \<Rightarrow> snapshot \<Rightarrow> bool" where
  "gen_ok l s \<longleftrightarrow> l_ManagedGenerationHighWater l \<le> s_Generation s
     \<and> (s_Generation s = l_ManagedGenerationHighWater l \<longrightarrow> l_DesiredHash l \<in> {[], DesiredHash s})"

lemma Prepare_iff:
  assumes "s_Retirements s = Some rs"
  shows "Prepare l s = Inr n \<longleftrightarrow>
    (\<exists>ack n4 R. gen_ok l s \<and> s_Ack s = Some ack \<and> ack_ok l ack
      \<and> (\<forall>m\<in>set (slice_of (s_Mappings s)). epoch_admitted l m)
      \<and> scan (prep_retirement (acked l s ack))
          (raise_marks l (slice_of (s_Mappings s)) (acked l s ack), e_id ` set (kept_entries l ack)) rs = Inr (n4, R)
      \<and> (\<forall>a\<in>set (slice_of (l_Active l)). a_MappingID a \<in> m_ID ` set (slice_of (s_Mappings s)) \<or> a_MappingID a \<in> R)
      \<and> n = n4\<lparr>l_Active := Some (filter (\<lambda>a. a_MappingID a \<notin> R) (map epoch_of (slice_of (s_Mappings s))))\<rparr>
      \<and> wf_ledger n)"
proof -
  let ?ms = "slice_of (s_Mappings s)"
  have gen: "prep_generation (l\<lparr>l_Armed := True\<rparr>) s = Inr n1 \<longleftrightarrow> gen_ok l s
      \<and> n1 = l\<lparr>l_Armed := True, l_ManagedGenerationHighWater := s_Generation s, l_DesiredHash := DesiredHash s\<rparr>" for n1
    by (auto simp: prep_generation_iff gen_ok_def)
  have ack: "prep_ack (l\<lparr>l_Armed := True, l_ManagedGenerationHighWater := s_Generation s, l_DesiredHash := DesiredHash s\<rparr>)
      (s_Ack s) = Inr n2 \<longleftrightarrow> (\<exists>ack. s_Ack s = Some ack \<and> ack_ok l ack \<and> n2 = acked l s ack)" for n2
    by (auto simp: prep_ack_iff ack_ok_def acked_def)
  have raise: "raise_marks (acked l s ack) = raise_marks l" for ack
    by (simp add: raise_marks_def fun_eq_iff Let_def)
  have ids: "entry_ids (acked l s ack) = e_id ` set (kept_entries l ack)"
    "slice_of (l_Active (acked l s ack)) = slice_of (l_Active l)" for ack
    by (simp add: entry_ids_def) (simp add: acked_def)
  have eq: "Prepare l s = Inr n \<longleftrightarrow> (\<exists>n1 n2 n4 R. gen_ok l s
      \<and> n1 = l\<lparr>l_Armed := True, l_ManagedGenerationHighWater := s_Generation s, l_DesiredHash := DesiredHash s\<rparr>
      \<and> prep_ack n1 (s_Ack s) = Inr n2
      \<and> (\<forall>m\<in>set ?ms. epoch_admitted n2 m)
      \<and> scan (prep_retirement n2) (raise_marks n2 ?ms n2, entry_ids n2) rs = Inr (n4, R)
      \<and> \<not> list_ex (\<lambda>a. a_MappingID a \<notin> a_MappingID ` set (map epoch_of ?ms) \<and> a_MappingID a \<notin> R) (slice_of (l_Active n2))
      \<and> n = n4\<lparr>l_Active := Some (filter (\<lambda>a. a_MappingID a \<notin> R) (map epoch_of ?ms))\<rparr> \<and> wf_ledger n)"
    unfolding Prepare_def assms option.case rbind_Inr_iff gen prep_mapping_scan Let_def
    by (auto simp: rbind_Inr_iff ledger_Validate_iff split: prod.splits simp del: map_eq_conv)
  show ?thesis unfolding eq using ack raise ids
    by (auto simp: list_ex_iff image_image)
qed

lemma Prepare_InrD:
  assumes "Prepare l s = Inr n" "s_Retirements s = Some rs" "wf_ledger l"
  shows "\<exists>ack new. s_Ack s = Some ack \<and> n = prepared l s ack new \<and> wf_ledger n \<and> ack_ok l ack \<and> gen_ok l s
    \<and> (\<forall>m\<in>set (slice_of (s_Mappings s)). epoch_admitted l m)
    \<and> set new \<subseteq> set rs \<and> set rs \<subseteq> set (Retirements n)
    \<and> (\<forall>r\<in>set new. retires_epoch l r)
    \<and> (\<forall>a\<in>set (slice_of (l_Active l)). a_MappingID a \<in> m_ID ` set (slice_of (s_Mappings s))
         \<or> a_MappingID a \<in> e_id ` set (kept_entries l ack) \<or> a_MappingID a \<in> r_MappingID ` set new)"
proof -
  let ?ms = "slice_of (s_Mappings s)"
  obtain es where es: "l_Entries l = Some es" using assms(3) by (auto simp: wf_ledger_def)
  from assms(1) obtain ack n4 R where
    checks: "gen_ok l s" "s_Ack s = Some ack" "ack_ok l ack" "\<forall>m\<in>set ?ms. epoch_admitted l m"
    and rets: "scan (prep_retirement (acked l s ack))
        (raise_marks l ?ms (acked l s ack), e_id ` set (kept_entries l ack)) rs = Inr (n4, R)"
    and gone: "\<forall>a\<in>set (slice_of (l_Active l)). a_MappingID a \<in> m_ID ` set ?ms \<or> a_MappingID a \<in> R"
    and n: "n = n4\<lparr>l_Active := Some (filter (\<lambda>a. a_MappingID a \<notin> R) (map epoch_of ?ms))\<rparr>" "wf_ledger n"
    unfolding Prepare_iff[OF assms(2)] by blast
  from prep_retirement_scan[OF rets] obtain new where new: "set new \<subseteq> set rs" "\<forall>r\<in>set new. retires_epoch l r"
    "n4 = add_retirements new (raise_marks l ?ms (acked l s ack))"
    "R = e_id ` set (kept_entries l ack) \<union> r_MappingID ` set new" "set rs \<subseteq> set (Retirements n4)" by auto
  have "n = prepared l s ack new"
    by (cases l) (use es in \<open>auto simp: n(1) new(3,4) prepared_def add_retirements_def raise_marks_def Let_def acked_def
        kept_entries_def\<close>)
  moreover have "Retirements n = Retirements n4" by (simp add: n(1) Retirements_def)
  ultimately show ?thesis using checks gone n(2) new by (intro exI[of _ ack] exI[of _ new]) auto
qed

subsection \<open>Consequences for a validated snapshot\<close>

lemma wf_ledger_slices:
  assumes "wf_ledger l"
  shows "\<forall>a\<in>set (slice_of (l_Active l)). wf_active l a" "\<forall>e\<in>set (slice_of (l_Entries l)). wf_entry l e"
    "distinct (map a_MappingID (slice_of (l_Active l)))" "distinct (map a_FlowMark (slice_of (l_Active l)))"
    "distinct (map r_RetirementID (Retirements l))"
    "a_MappingID ` set (slice_of (l_Active l)) \<inter> e_id ` set (slice_of (l_Entries l)) = {}"
    "l_Active l = Some (slice_of (l_Active l))" "l_Entries l = Some (slice_of (l_Entries l))"
  using assms by (clarsimp simp: wf_ledger_def Retirements_def o_def; fail)+

lemma kept_subset: "set (kept_entries l ack) \<subseteq> set (slice_of (l_Entries l))"
  by (auto simp: kept_entries_def)

text \<open>An admitted mapping is not retired: its id is active or above the high-water.\<close>

lemma admitted_not_retired:
  assumes "wf_ledger l" "epoch_admitted l m" "e \<in> set (slice_of (l_Entries l))"
  shows "m_ID m \<noteq> e_id e"
proof (cases "epoch_map (slice_of (l_Active l)) (m_ID m)")
  case None
  with assms(2) have "l_MappingIDHighWater l < m_ID m" by (simp add: epoch_admitted_def)
  moreover have "e_id e \<le> l_MappingIDHighWater l"
    using wf_ledger_slices(2)[OF assms(1)] assms(3) by (simp add: wf_entry_def)
  ultimately show ?thesis by simp
next
  case (Some a)
  then have "m_ID m \<in> a_MappingID ` set (slice_of (l_Active l))" using epoch_map_id[OF Some] by (metis image_eqI)
  with wf_ledger_slices(6)[OF assms(1)] assms(3) show ?thesis by blast
qed

lemma prepared_active:
  assumes "wf_ledger l" "\<forall>m\<in>set ms. epoch_admitted l m" "slice_of (s_Mappings s) = ms"
    and "\<forall>r\<in>set new. r_MappingID r \<notin> m_ID ` set ms"
  shows "l_Active (prepared l s ack new) = Some (map epoch_of ms)"
proof -
  have "m_ID m \<notin> e_id ` set (kept_entries l ack) \<union> r_MappingID ` set new" if "m \<in> set ms" for m
    using admitted_not_retired[OF assms(1)] assms(2,4) that kept_subset[of l ack] by (auto simp: image_iff) metis
  then show ?thesis using assms(3) by (auto simp: prepared_def Let_def filter_id_conv)
qed

lemma wf_snapshot_managedD:
  assumes "wf_snapshot lim s" "s_Retirements s = Some rs"
  shows "\<forall>r\<in>set rs. r_MappingID r \<notin> m_ID ` set (slice_of (s_Mappings s))"
    "\<forall>m\<in>set (slice_of (s_Mappings s)). m_FlowMark m \<noteq> None"
  using assms by (auto simp: wf_snapshot_def wf_retirement_def wf_mapping_def)

subsection \<open>Histories of a ledger\<close>

text \<open>
  The contract that keeps identities unique over a history: keys are admitted to the
  active set only above a high-water that never falls, and an admitted key keeps its
  value while it is active.
\<close>

locale epoch_history =
  fixes step :: "'l \<Rightarrow> 'l \<Rightarrow> bool"
    and inv :: "'l \<Rightarrow> bool"
    and high :: "'l \<Rightarrow> 'k::linorder"
    and epochs :: "'l \<Rightarrow> 'k \<Rightarrow> 'v option"
  assumes inv_step: "inv l \<Longrightarrow> step l l' \<Longrightarrow> inv l'"
    and high_step: "inv l \<Longrightarrow> step l l' \<Longrightarrow> high l \<le> high l'"
    and epochs_below: "inv l \<Longrightarrow> epochs l k = Some v \<Longrightarrow> k \<le> high l"
    and admission: "inv l \<Longrightarrow> step l l' \<Longrightarrow> epochs l' k = Some v \<Longrightarrow> epochs l k = Some v \<or> high l < k"
begin

lemma run_inv: "step\<^sup>*\<^sup>* l l' \<Longrightarrow> inv l \<Longrightarrow> inv l' \<and> high l \<le> high l'"
  by (induction rule: rtranclp_induct) (use inv_step high_step order.trans in blast)+

lemma not_admitted_again:
  assumes "step\<^sup>*\<^sup>* l l'" "inv l" "epochs l k = None" "k \<le> high l"
  shows "epochs l' k = None"
  using assms
proof (induction rule: rtranclp_induct)
  case (step l1 l2)
  then have "inv l1" "high l \<le> high l1" using run_inv by blast+
  with admission[OF _ step.hyps(2), of k] step show ?case by (cases "epochs l2 k") force+
qed

lemma epoch_pinned:
  assumes "step\<^sup>*\<^sup>* l l'" "inv l" "epochs l k = Some v"
  shows "epochs l' k = None \<or> epochs l' k = Some v"
  using assms
proof (induction rule: rtranclp_induct)
  case (step l1 l2)
  then have inv1: "inv l1" and "high l \<le> high l1" using run_inv by blast+
  with epochs_below[OF step.prems] have "k \<le> high l1" by simp
  with admission[OF inv1 step.hyps(2), of k] step show ?case by (cases "epochs l2 k") force+
qed simp

lemma retired_for_ever:
  assumes "step\<^sup>*\<^sup>* l l1" "step\<^sup>*\<^sup>* l1 l2" "inv l" "epochs l k \<noteq> None" "epochs l1 k = None"
  shows "epochs l2 k = None"
proof -
  from assms(4) obtain v where "epochs l k = Some v" by blast
  with epochs_below[OF assms(3)] run_inv[OF assms(1,3)] have "inv l1" "k \<le> high l1" by force+
  with not_admitted_again[OF assms(2)] assms(5) show ?thesis by blast
qed

end

text \<open>The steps of the program on a ledger: preparing any snapshot, and recording cleared retirements.\<close>

inductive ledger_step :: "ledger \<Rightarrow> ledger \<Rightarrow> bool" where
  step_prepare: "Prepare l s = Inr n \<Longrightarrow> ledger_step l n"
| step_clear: "ledger_step l (Clear l ids)"

definition epochs_by_id :: "ledger \<Rightarrow> int \<rightharpoonup> active" where
  "epochs_by_id l = epoch_map (slice_of (l_Active l))"

definition epochs_by_mark :: "ledger \<Rightarrow> u32 \<rightharpoonup> active" where
  "epochs_by_mark l = map_of (rev (map (\<lambda>a. (a_FlowMark a, a)) (slice_of (l_Active l))))"

lemma epochs_by_mark_Some:
  "wf_ledger l \<Longrightarrow> epochs_by_mark l k = Some a \<longleftrightarrow> a \<in> set (slice_of (l_Active l)) \<and> a_FlowMark a = k"
proof -
  assume "wf_ledger l"
  then have "distinct (map fst (rev (map (\<lambda>a. (a_FlowMark a, a)) (slice_of (l_Active l)))))"
    using wf_ledger_slices(4) by (simp add: rev_map [symmetric] o_def)
  then show ?thesis by (auto simp: epochs_by_mark_def map_of_eq_Some_iff)
qed

lemma epochs_by_id_Some:
  "wf_ledger l \<Longrightarrow> epochs_by_id l i = Some a \<longleftrightarrow> a \<in> set (slice_of (l_Active l)) \<and> a_MappingID a = i"
  using wf_ledger_slices(3) by (simp add: epochs_by_id_def epoch_map_Some)

lemma Clear_same [simp]:
  "l_Active (Clear l ids) = l_Active l" "l_Version (Clear l ids) = l_Version l" "l_LedgerID (Clear l ids) = l_LedgerID l"
  "l_Armed (Clear l ids) = l_Armed l" "l_MappingIDHighWater (Clear l ids) = l_MappingIDHighWater l"
  "l_FlowMarkHighWater (Clear l ids) = l_FlowMarkHighWater l" "l_RetirementHighWater (Clear l ids) = l_RetirementHighWater l"
  "l_ManagedGenerationHighWater (Clear l ids) = l_ManagedGenerationHighWater l"
  "l_DesiredHash (Clear l ids) = l_DesiredHash l" "l_AckHighWater (Clear l ids) = l_AckHighWater l"
  by (simp_all add: Clear_def)

lemma Retirements_Clear [simp]: "Retirements (Clear l ids) = Retirements l"
  by (cases "l_Entries l") (auto simp: Retirements_def Clear_def)

lemma wf_ledger_Clear [simp]: "wf_ledger (Clear l ids) = wf_ledger l"
proof (cases "l_Entries l")
  case None
  then show ?thesis by (simp add: wf_ledger_def Clear_def)
next
  case (Some es)
  obtain es' where es': "l_Entries (Clear l ids) = Some es'" "map e_Retirement es' = map e_Retirement es"
    using Some by (simp add: Clear_def)
  define W where "W = (\<lambda>r. wf_entry l (fresh_entry r))"
  have W: "wf_entry l e = W (e_Retirement e)" "wf_entry (Clear l ids) e = W (e_Retirement e)" for e
    by (simp_all add: W_def wf_entry_def)
  have "(\<forall>e\<in>set es'. W (e_Retirement e)) = (\<forall>r\<in>set (map e_Retirement es'). W r)" by simp
  then have "(\<forall>e\<in>set es'. W (e_Retirement e)) = (\<forall>e\<in>set es. W (e_Retirement e))" unfolding es'(2) by simp
  moreover have "map e_id es' = map e_id es" "map e_mark es' = map e_mark es" "map e_rid es' = map e_rid es"
    using arg_cong[OF es'(2), of "map r_MappingID"] arg_cong[OF es'(2), of "map r_FlowMark"]
      arg_cong[OF es'(2), of "map r_RetirementID"] by (simp_all add: o_def)
  moreover have "length es' = length es" using es'(2) map_eq_imp_length_eq by blast
  moreover have "wf_active (Clear l ids) = wf_active l" by (simp add: wf_active_def fun_eq_iff)
  ultimately show ?thesis using Some es'(1) by (simp add: wf_ledger_def W del: distinct_append)
qed

lemma legacy_Prepare: "Prepare l s = Inr n \<Longrightarrow> s_Retirements s = None \<Longrightarrow> n = l \<and> \<not> l_Armed l"
  by (auto simp: Prepare_def)

lemma Prepare_wf:
  assumes "Prepare l s = Inr n" "wf_ledger l"
  shows "wf_ledger n"
  using assms Prepare_InrD[OF assms(1) _ assms(2)] by (cases "s_Retirements s") (auto dest: legacy_Prepare)

text \<open>No high-water ever falls.\<close>

definition waters_le :: "ledger \<Rightarrow> ledger \<Rightarrow> bool" where
  "waters_le l n \<longleftrightarrow>
     l_MappingIDHighWater l \<le> l_MappingIDHighWater n \<and> l_FlowMarkHighWater l \<le> l_FlowMarkHighWater n
     \<and> l_RetirementHighWater l \<le> l_RetirementHighWater n
     \<and> l_ManagedGenerationHighWater l \<le> l_ManagedGenerationHighWater n
     \<and> l_AckHighWater l \<le> l_AckHighWater n
     \<and> (l_Armed l \<longrightarrow> l_Armed n) \<and> l_LedgerID n = l_LedgerID l"

lemma Prepare_waters:
  assumes "Prepare l s = Inr n" "wf_ledger l"
  shows "waters_le l n"
proof (cases "s_Retirements s")
  case None
  with legacy_Prepare[OF assms(1)] show ?thesis by (simp add: waters_le_def)
next
  case (Some rs)
  from Prepare_InrD[OF assms(1) Some assms(2)] obtain ack new where
    "n = prepared l s ack new" "ack_ok l ack" "gen_ok l s" by blast
  then show ?thesis by (simp add: waters_le_def prepared_def Let_def fold_max_ge ack_ok_def gen_ok_def)
qed

lemma Prepare_active:
  assumes "Prepare l s = Inr n" "wf_ledger l" "a \<in> set (slice_of (l_Active n))"
  shows "a \<in> set (slice_of (l_Active l))
    \<or> l_MappingIDHighWater l < a_MappingID a \<and> l_FlowMarkHighWater l < a_FlowMark a"
proof (cases "s_Retirements s")
  case None
  with legacy_Prepare[OF assms(1)] assms(3) show ?thesis by simp
next
  case (Some rs)
  from Prepare_InrD[OF assms(1) Some assms(2)] obtain ack new where
    n: "n = prepared l s ack new" and adm: "\<forall>m\<in>set (slice_of (s_Mappings s)). epoch_admitted l m" by blast
  from assms(3) n obtain m where m: "m \<in> set (slice_of (s_Mappings s))" "a = epoch_of m"
    by (auto simp: prepared_def Let_def)
  with adm have "epoch_admitted l m" by blast
  with m(2) show ?thesis
    by (auto simp: epoch_admitted_def dest: epoch_map_id split: option.splits)
qed

lemma ledger_step_wf: "ledger_step l n \<Longrightarrow> wf_ledger l \<Longrightarrow> wf_ledger n"
  by (induction rule: ledger_step.induct) (auto intro: Prepare_wf)

lemma ledger_step_waters: "ledger_step l n \<Longrightarrow> wf_ledger l \<Longrightarrow> waters_le l n"
  by (induction rule: ledger_step.induct) (auto intro: Prepare_waters, simp add: waters_le_def)

lemma ledger_step_active:
  "ledger_step l n \<Longrightarrow> wf_ledger l \<Longrightarrow> a \<in> set (slice_of (l_Active n)) \<Longrightarrow>
   a \<in> set (slice_of (l_Active l)) \<or> l_MappingIDHighWater l < a_MappingID a \<and> l_FlowMarkHighWater l < a_FlowMark a"
  by (induction rule: ledger_step.induct) (auto dest: Prepare_active)

interpretation id_history: epoch_history ledger_step wf_ledger l_MappingIDHighWater epochs_by_id
proof
  fix l l' :: ledger and k :: int and v :: active
  assume wf: "wf_ledger l"
  show "ledger_step l l' \<Longrightarrow> wf_ledger l'" using ledger_step_wf wf by blast
  show "ledger_step l l' \<Longrightarrow> l_MappingIDHighWater l \<le> l_MappingIDHighWater l'"
    using ledger_step_waters wf by (simp add: waters_le_def)
  show "epochs_by_id l k = Some v \<Longrightarrow> k \<le> l_MappingIDHighWater l"
    using wf_ledger_slices(1)[OF wf] by (auto simp: epochs_by_id_Some[OF wf] wf_active_def)
  show "ledger_step l l' \<Longrightarrow> epochs_by_id l' k = Some v \<Longrightarrow> epochs_by_id l k = Some v \<or> l_MappingIDHighWater l < k"
    using ledger_step_active[OF _ wf, of l' v] ledger_step_wf[OF _ wf, of l']
    by (auto simp: epochs_by_id_Some wf)
qed

interpretation mark_history: epoch_history ledger_step wf_ledger l_FlowMarkHighWater epochs_by_mark
proof
  fix l l' :: ledger and k :: u32 and v :: active
  assume wf: "wf_ledger l"
  show "ledger_step l l' \<Longrightarrow> wf_ledger l'" using ledger_step_wf wf by blast
  show "ledger_step l l' \<Longrightarrow> l_FlowMarkHighWater l \<le> l_FlowMarkHighWater l'"
    using ledger_step_waters wf by (simp add: waters_le_def)
  show "epochs_by_mark l k = Some v \<Longrightarrow> k \<le> l_FlowMarkHighWater l"
    using wf_ledger_slices(1)[OF wf] by (auto simp: epochs_by_mark_Some[OF wf] wf_active_def)
  show "ledger_step l l' \<Longrightarrow> epochs_by_mark l' k = Some v \<Longrightarrow> epochs_by_mark l k = Some v \<or> l_FlowMarkHighWater l < k"
    using ledger_step_active[OF _ wf, of l' v] ledger_step_wf[OF _ wf, of l']
    by (auto simp: epochs_by_mark_Some wf)
qed

subsection \<open>Retrying a prepared state\<close>

text \<open>
  A ledger that already holds what the snapshot asks for is returned unchanged.
\<close>

definition holds_state :: "ledger \<Rightarrow> snapshot \<Rightarrow> bool" where
  "holds_state c s \<longleftrightarrow>
     l_Armed c \<and> l_ManagedGenerationHighWater c = s_Generation s \<and> l_DesiredHash c = DesiredHash s
     \<and> l_Active c = Some (map epoch_of (slice_of (s_Mappings s)))
     \<and> s_Ack s = Some (l_AckHighWater c)
     \<and> (\<forall>r\<in>set (Retirements c). l_AckHighWater c < r_Generation r)
     \<and> (\<forall>m\<in>set (slice_of (s_Mappings s)). m_FlowMark m \<noteq> None)
     \<and> set (slice_of (s_Retirements s)) \<subseteq> set (Retirements c)"

lemma holds_state_acked:
  assumes "holds_state c s" "wf_ledger c"
  shows "acked c s (l_AckHighWater c) = c" "kept_entries c (l_AckHighWater c) = slice_of (l_Entries c)"
    "ack_ok c (l_AckHighWater c)" "gen_ok c s"
proof -
  show kept: "kept_entries c (l_AckHighWater c) = slice_of (l_Entries c)"
    using assms(1) by (simp add: kept_entries_def filter_id_conv holds_state_def Retirements_def)
  have "map_option (filter (\<lambda>e. l_AckHighWater c < e_gen e)) (l_Entries c) = l_Entries c"
    using kept by (cases "l_Entries c") (simp_all add: kept_entries_def)
  then show "acked c s (l_AckHighWater c) = c"
    using assms(1) by (cases c) (simp add: acked_def holds_state_def)
  show "gen_ok c s" using assms(1) by (simp add: gen_ok_def holds_state_def)
  show "ack_ok c (l_AckHighWater c)"
    using assms by (force simp: ack_ok_def holds_state_def wf_ledger_def Retirements_def)
qed

lemma holds_state_mappings:
  assumes "holds_state c s" "wf_ledger c" "m \<in> set (slice_of (s_Mappings s))"
  shows "epoch_admitted c m" "\<not> is_new_epoch c m" "m_ID m \<notin> e_id ` set (slice_of (l_Entries c))"
proof -
  let ?as = "map epoch_of (slice_of (s_Mappings s))"
  have active: "l_Active c = Some ?as" using assms(1) by (simp add: holds_state_def)
  then have "distinct (map a_MappingID ?as)" using wf_ledger_slices(3)[OF assms(2)] by simp
  then have "epoch_map ?as (m_ID m) = Some (epoch_of m)" using assms(3) by (auto simp: epoch_map_Some)
  then show "epoch_admitted c m" "\<not> is_new_epoch c m"
    using active assms(1,3) by (simp_all add: epoch_admitted_def is_new_epoch_def holds_state_def)
  show "m_ID m \<notin> e_id ` set (slice_of (l_Entries c))"
    using wf_ledger_slices(6)[OF assms(2)] active assms(3) by (auto simp: image_image)
qed

lemma Prepare_holds_state:
  assumes "holds_state c s" "wf_ledger c" "s_Retirements s = Some rs"
  shows "Prepare c s = Inr c"
proof -
  let ?ms = "slice_of (s_Mappings s)" and ?R = "e_id ` set (slice_of (l_Entries c))"
  note maps = holds_state_mappings[OF assms(1,2)]
  have raise: "raise_marks c ?ms c = c"
    using maps(2) by (simp add: raise_marks_def filter_empty_conv)
  have "filter (\<lambda>a. a_MappingID a \<notin> ?R) (map epoch_of ?ms) = map epoch_of ?ms"
    using maps(3) by (auto simp: filter_id_conv)
  then have active: "c\<lparr>l_Active := Some (filter (\<lambda>a. a_MappingID a \<notin> ?R) (map epoch_of ?ms))\<rparr> = c"
    using assms(1) by (cases c) (simp add: holds_state_def)
  have "scan (prep_retirement c) (c, ?R) rs = Inr (c, ?R)"
    using assms(1,3) wf_ledger_slices(5)[OF assms(2)] by (intro prep_retirement_known) (auto simp: holds_state_def)
  then show ?thesis
    unfolding Prepare_iff[OF assms(3)]
    using holds_state_acked[OF assms(1,2)] maps(1) raise active assms(1,2)
    by (intro exI[of _ "l_AckHighWater c"] exI[of _ c] exI[of _ ?R]) (auto simp: holds_state_def)
qed

lemma Prepare_establishes:
  assumes prep: "Prepare l s = Inr n" and wf: "wf_ledger l" and snap: "wf_snapshot lim s" and "s_Retirements s = Some rs"
  shows "holds_state n s"
proof -
  let ?ms = "slice_of (s_Mappings s)"
  from Prepare_InrD[OF prep assms(4) wf] obtain ack new where
    ack: "s_Ack s = Some ack" "ack_ok l ack" and n: "n = prepared l s ack new"
    and adm: "\<forall>m\<in>set ?ms. epoch_admitted l m" and new: "set new \<subseteq> set rs" "\<forall>r\<in>set new. retires_epoch l r"
    and known: "set rs \<subseteq> set (Retirements n)" by blast
  note managed = wf_snapshot_managedD[OF snap assms(4)]
  have "\<forall>r\<in>set new. r_MappingID r \<notin> m_ID ` set ?ms" using new(1) managed(1) by blast
  then have "l_Active n = Some (map epoch_of ?ms)" using prepared_active[OF wf adm refl] n by simp
  moreover have "\<forall>r\<in>set (Retirements n). ack < r_Generation r"
    using new(2) ack(2) by (auto simp: n Retirements_def prepared_def Let_def kept_entries_def retires_epoch_def ack_ok_def)
  ultimately show ?thesis
    using known managed(2) ack(1) assms(4) n by (simp add: holds_state_def) (simp add: prepared_def Let_def)
qed

lemma holds_state_Clear: "holds_state (Clear c ids) s = holds_state c s"
  by (simp add: holds_state_def)

lemma Prepare_again:
  assumes "Prepare l s = Inr n" "wf_ledger l" "wf_snapshot lim s"
  shows "Prepare (Clear n ids) s = Inr (Clear n ids)"
proof (cases "s_Retirements s")
  case None
  with legacy_Prepare[OF assms(1)] show ?thesis by (simp add: Prepare_def)
next
  case (Some rs)
  with Prepare_establishes[OF assms Some] Prepare_wf[OF assms(1,2)] show ?thesis
    by (intro Prepare_holds_state) (simp_all add: holds_state_Clear)
qed

subsection \<open>Reading the ledger file back\<close>

definition active_ranges :: "active \<Rightarrow> bool" where
  "active_ranges a = int64 (a_MappingID a)"

definition entry_ranges :: "entry \<Rightarrow> bool" where
  "entry_ranges e = (int64 (e_id e) \<and> int64 (e_gen e))"

definition ledger_ranges :: "ledger \<Rightarrow> bool" where
  "ledger_ranges l \<longleftrightarrow> int64 (l_Version l) \<and> int64 (l_MappingIDHighWater l) \<and> int64 (l_RetirementHighWater l)
     \<and> int64 (l_ManagedGenerationHighWater l) \<and> int64 (l_AckHighWater l)
     \<and> (\<forall>a\<in>set (slice_of (l_Active l)). active_ranges a) \<and> (\<forall>e\<in>set (slice_of (l_Entries l)). entry_ranges e)"

lemma ledger_fold_names [simp]:
  "fold_name ''cleared'' = ''cleared''" "fold_name ''version'' = ''version''" "fold_name ''armed'' = ''armed''"
  "fold_name ''retirementLedgerId'' = ''retirementledgerid''" "fold_name ''mappingIdHighWater'' = ''mappingidhighwater''"
  "fold_name ''flowMarkHighWater'' = ''flowmarkhighwater''" "fold_name ''retirementHighWater'' = ''retirementhighwater''"
  "fold_name ''managedGenerationHighWater'' = ''managedgenerationhighwater''"
  "fold_name ''desiredHash'' = ''desiredhash''" "fold_name ''active'' = ''active''" "fold_name ''entries'' = ''entries''"
  by code_simp+

lemma dec_active_json: "active_ranges a \<Longrightarrow> dec_struct set_active_field (active_json a) active_zero = Some a"
  by (cases a) (simp add: active_json_def dec_struct_def set_active_field_def active_zero_def active_ranges_def)

lemma dec_entry_json: "entry_ranges e \<Longrightarrow> dec_struct set_entry_field (entry_json e) entry_zero = Some e"
  by (cases e; cases "e_Retirement e")
    (simp add: entry_json_def retirement_json_def dec_struct_def set_entry_field_def set_retirement_field_def
      entry_zero_def retirement_zero_def entry_ranges_def)

lemma dec_slice_json:
  assumes "\<And>x. x \<in> set (slice_of xs) \<Longrightarrow> f (g x) z = Some x"
  shows "dec_slice f z (slice_json g xs) None = Some xs"
proof (cases xs)
  case None
  then show ?thesis by (simp add: dec_slice_def slice_json_def)
next
  case (Some ys)
  with assms dec_slice_map[of ys f g z "\<lambda>x. x"] show ?thesis by (simp add: slice_json_def)
qed

lemma dec_ledger_json:
  assumes "ledger_ranges l"
  shows "dec_ledger (ledger_json l) = Some l"
proof -
  have "dec_slice (dec_struct set_active_field) active_zero (slice_json active_json (l_Active l)) None = Some (l_Active l)"
    using assms by (intro dec_slice_json dec_active_json) (simp add: ledger_ranges_def)
  moreover have "dec_slice (dec_struct set_entry_field) entry_zero (slice_json entry_json (l_Entries l)) None = Some (l_Entries l)"
    using assms by (intro dec_slice_json dec_entry_json) (simp add: ledger_ranges_def)
  ultimately show ?thesis
    using assms by (cases l) (simp add: dec_ledger_def ledger_json_def dec_struct_def set_ledger_field_def ledger_zero_def
        ledger_ranges_def)
qed

subsection \<open>A new ledger\<close>

lemma unat_div_16: "unat (w :: u8) div 16 = unat (drop_bit 4 w)"
  by (simp add: drop_bit_eq_div unat_div)

lemma version_nibble: "unat ((b AND 15) OR 64 :: u8) div 16 = 4"
proof -
  have "drop_bit 4 ((b AND 15) OR 64 :: u8) = 4" by (simp add: drop_bit_or drop_bit_and)
  then show ?thesis by (simp add: unat_div_16)
qed

lemma variant_nibble: "unat ((b AND 63) OR 128 :: u8) div 16 \<in> {8, 9, 10, 11}"
proof -
  define x where "x = drop_bit 4 b AND (3 :: u8)"
  have "drop_bit 4 ((b AND 63) OR 128 :: u8) = x OR 8" by (simp add: x_def drop_bit_or drop_bit_and)
  moreover have "x \<in> {0, 1, 2, 3}"
  proof -
    have "x = take_bit 2 (drop_bit 4 b)" by (simp add: x_def take_bit_eq_mask mask_eq_exp_minus_1)
    then have "unat x = take_bit 2 (unat (drop_bit 4 b))" by (simp add: unsigned_take_bit_eq)
    then have "unat x < 4" using take_bit_nat_less_exp[of 2 "unat (drop_bit 4 b)"] by simp
    then have "unat x \<in> {0, 1, 2, 3}" by auto
    then show ?thesis by (auto simp: word_unat_eq_iff)
  qed
  ultimately show ?thesis by (auto simp: unat_div_16)
qed

lemma variant_digits: "\<forall>k\<in>{8, 9, 10, 11}. hex_digit k \<in> set ''89ab''" and version_digit: "hex_digit 4 = CHR ''4''"
  by code_simp+

lemma uuid_text_match:
  assumes "length b = 16"
  shows "uuid_match (uuid_text (hex_encode (version_bits b)))"
proof -
  obtain b0 b1 b2 b3 b4 b5 b6 b7 b8 b9 b10 b11 b12 b13 b14 b15 where
    b: "b = [b0, b1, b2, b3, b4, b5, b6, b7, b8, b9, b10, b11, b12, b13, b14, b15]"
    using assms by (auto simp: numeral_eq_Suc length_Suc_conv)
  have byte: "unat w div 16 < 16" for w :: u8
    using unat_less_2p[of w] by simp
  have variant: "hex_digit (unat ((b8 AND 63) OR 128 :: u8) div 16) \<in> set ''89ab''"
    using variant_nibble[of b8] variant_digits by blast
  show ?thesis
    using byte variant
    by (simp add: b version_bits_def uuid_text_def uuid_match_def uuid_class_def upt_rec version_nibble version_digit byte_of_def)
qed

subsection \<open>Example ledgers\<close>

definition example_ledger :: ledger where
  "example_ledger = \<lparr>l_Version = 1, l_LedgerID = ''00000000-0000-4000-8000-000000000000'', l_Armed = False,
     l_MappingIDHighWater = 0, l_FlowMarkHighWater = 0, l_RetirementHighWater = 0, l_ManagedGenerationHighWater = 0,
     l_DesiredHash = [], l_AckHighWater = 0, l_Active = Some [], l_Entries = Some []\<rparr>"

definition example_marked :: mapping where
  "example_marked = example_mapping\<lparr>m_FlowMark := Some 7\<rparr>"

definition example_managed :: snapshot where
  "example_managed = snapshot_zero\<lparr>s_Generation := 1, s_Mappings := Some [example_marked], s_Retirements := Some [],
     s_Ack := Some 0\<rparr>"

definition example_retirement :: retirement where
  "example_retirement = \<lparr>r_RetirementID = ''11111111-1111-4111-8111-111111111111'', r_MappingID = 101, r_Generation = 2,
     r_Proto = ''tcp'', r_PublicPort = 12345, r_TargetAddr = ''192.0.2.23'', r_TargetPort = 8080, r_FlowMark = 7,
     r_TupleHash = mappingHash example_marked 7\<rparr>"

definition example_retired :: snapshot where
  "example_retired = snapshot_zero\<lparr>s_Generation := 2, s_Mappings := Some [], s_Retirements := Some [example_retirement],
     s_Ack := Some 0\<rparr>"

definition example_active :: ledger where
  "example_active = example_ledger\<lparr>l_Armed := True, l_MappingIDHighWater := 101, l_FlowMarkHighWater := 7,
     l_ManagedGenerationHighWater := 1, l_DesiredHash := DesiredHash example_managed,
     l_Active := Some [epoch_of example_marked]\<rparr>"

definition example_outstanding :: ledger where
  "example_outstanding = example_active\<lparr>l_ManagedGenerationHighWater := 2, l_DesiredHash := DesiredHash example_retired,
     l_RetirementHighWater := 2, l_Active := Some [], l_Entries := Some [fresh_entry example_retirement]\<rparr>"

lemma example_uuids [simp]:
  "uuid_match ''00000000-0000-4000-8000-000000000000''" "uuid_match ''11111111-1111-4111-8111-111111111111''"
  by code_simp+

lemmas example_ledger_defs = example_ledger_def example_active_def example_outstanding_def example_marked_def
  example_managed_def example_retired_def example_mapping_def mapping_zero_def snapshot_zero_def

lemma example_retirement_hash: "retirement_hash example_retirement = r_TupleHash example_retirement"
  by (simp add: retirement_hash_def example_retirement_def mappingHash_def example_marked_def example_mapping_def)

lemma length_mappingHash [simp]: "length (mappingHash m k) = 64"
  by (simp add: mappingHash_def)

lemma length_epoch_hash [simp]: "length (a_TupleHash (epoch_of m)) = 64"
  by (simp add: epoch_of_def Let_def)

lemma example_ledgers_wf: "wf_ledger example_ledger" "wf_ledger example_active" "wf_ledger example_outstanding"
proof -
  show "wf_ledger example_ledger" by (simp add: wf_ledger_def example_ledger_def MaxOutstanding_def)
  show "wf_ledger example_active"
    by (simp add: wf_ledger_def example_active_def example_ledger_def MaxOutstanding_def wf_active_def
        example_marked_def example_mapping_def)
  show "wf_ledger example_outstanding"
    using example_retirement_hash
    by (simp add: wf_ledger_def example_outstanding_def example_active_def example_ledger_def MaxOutstanding_def
        wf_entry_def example_retirement_def)
qed

lemma example_prepares:
  "Prepare example_ledger example_managed = Inr example_active"
  "Prepare example_active example_retired = Inr example_outstanding"
proof -
  have "s_Retirements example_managed = Some []" by (simp add: example_managed_def)
  from Prepare_iff[OF this] show "Prepare example_ledger example_managed = Inr example_active"
    using example_ledgers_wf(2)
    by (auto simp: gen_ok_def ack_ok_def kept_entries_def epoch_admitted_def epoch_map_def example_managed_def
        example_ledger_def example_active_def acked_def raise_marks_def is_new_epoch_def snapshot_zero_def
        example_marked_def example_mapping_def max_def)
  have r: "prep_retirement (acked example_active example_retired 0) (acked example_active example_retired 0, {}) example_retirement
      = Inr (add_retirements [example_retirement] (acked example_active example_retired 0), {101})"
    by (simp add: prep_retirement_def acked_def example_active_def example_ledger_def example_retirement_def epoch_map_def
        epoch_of_def Let_def add_retirements_def) (simp add: example_marked_def example_mapping_def)
  have "s_Retirements example_retired = Some [example_retirement]" by (simp add: example_retired_def)
  from Prepare_iff[OF this] show "Prepare example_active example_retired = Inr example_outstanding"
    using example_ledgers_wf(3) r
    by (auto simp: gen_ok_def ack_ok_def kept_entries_def example_retired_def
        example_ledger_def example_active_def acked_def raise_marks_def snapshot_zero_def
        add_retirements_def example_outstanding_def example_marked_def example_mapping_def example_retirement_def)
qed

lemma example_retirement_target: "ParseAddr (r_TargetAddr example_retirement) = Some (IP4 0xc0000217)"
  using example_target by (simp add: example_retirement_def target_addr_def example_mapping_def)

lemma example_wf_snapshots: "wf_snapshot example_limits example_managed" "wf_snapshot example_limits example_retired"
proof -
  have "wf_mapping example_limits True example_marked"
    using example_wf_mapping
    by (simp add: wf_mapping_def example_marked_def guards_ok_def target_addr_def)
  then show "wf_snapshot example_limits example_managed"
    by (simp add: wf_snapshot_def example_managed_def snapshot_zero_def MaxMappings_def MaxRetirements_def
        mapping_marks_def map_filter_simps example_marked_def)
  have "wf_retirement example_limits 2 {} example_retirement"
    unfolding wf_retirement_def example_retirement_target
    using example_retirement_hash
    by (simp add: retirement_hash_def)
      (simp add: example_retirement_def ProtoTCP_def example_limits_def)
  then show "wf_snapshot example_limits example_retired"
    by (simp add: wf_snapshot_def example_retired_def snapshot_zero_def MaxMappings_def MaxRetirements_def
        mapping_marks_def map_filter_simps)
qed

subsection \<open>Properties\<close>

text \<open>
  C15: the ledger prepared for a validated managed snapshot is valid again; its active epochs
  are exactly the epochs of the snapshot's mappings, in order; every retirement of the
  snapshot is outstanding in it; and an outstanding entry is one that was outstanding and is
  not acknowledged, or a retirement of this snapshot, not yet cleared, of an epoch that was
  active with the same mark and tuple hash.
\<close>

theorem prepare_result:
  assumes "wf_ledger l" "wf_snapshot lim s" "s_Retirements s = Some rs" "Prepare l s = Inr n"
  shows "wf_ledger n \<and> l_Active n = Some (map epoch_of (slice_of (s_Mappings s)))
    \<and> set rs \<subseteq> set (Retirements n)
    \<and> (\<forall>e\<in>set (slice_of (l_Entries n)).
         (e \<in> set (slice_of (l_Entries l)) \<and> l_AckHighWater n < e_gen e)
         \<or> (e_Retirement e \<in> set rs \<and> \<not> e_Cleared e \<and> retires_epoch l (e_Retirement e)))"
proof -
  from Prepare_InrD[OF assms(4,3,1)] obtain ack new where
    n: "n = prepared l s ack new" "wf_ledger n" and new: "set new \<subseteq> set rs" "\<forall>r\<in>set new. retires_epoch l r" by blast
  have "\<forall>e\<in>set (slice_of (l_Entries n)). (e \<in> set (slice_of (l_Entries l)) \<and> l_AckHighWater n < e_gen e)
         \<or> (e_Retirement e \<in> set rs \<and> \<not> e_Cleared e \<and> retires_epoch l (e_Retirement e))"
    using new by (auto simp: n(1) prepared_def Let_def kept_entries_def)
  then show ?thesis
    using n(2) Prepare_establishes[OF assms(4,1,2,3)] assms(3) by (simp add: holds_state_def)
qed

lemma prepare_result_witness:
  "wf_ledger example_outstanding \<and> example_retirement \<in> set (Retirements example_outstanding)"
  using prepare_result[OF example_ledgers_wf(2) example_wf_snapshots(2) _ example_prepares(2)]
  by (simp add: example_retired_def)

text \<open>
  C7: a transition loses nothing. An outstanding entry leaves the ledger only when it was
  cleared and the snapshot acknowledges its generation; an active epoch is still active with
  the same mark and hash, or an outstanding retirement names exactly this epoch.
\<close>

theorem prepare_loses_nothing:
  assumes "wf_ledger l" "Prepare l s = Inr n"
  shows "(\<forall>e\<in>set (slice_of (l_Entries l)).
            e \<in> set (slice_of (l_Entries n)) \<or> (e_Cleared e \<and> e_gen e \<le> l_AckHighWater n \<and> s_Ack s = Some (l_AckHighWater n)))
    \<and> (\<forall>a\<in>set (slice_of (l_Active l)).
            a \<in> set (slice_of (l_Active n))
            \<or> (\<exists>r\<in>set (Retirements n). r_MappingID r = a_MappingID a \<and> r_FlowMark r = a_FlowMark a
                  \<and> r_TupleHash r = a_TupleHash a))"
proof (cases "s_Retirements s")
  case None
  with legacy_Prepare[OF assms(2)] show ?thesis by simp
next
  case (Some rs)
  from Prepare_InrD[OF assms(2) Some assms(1)] obtain ack new where
    n: "n = prepared l s ack new" and ack: "s_Ack s = Some ack" "ack_ok l ack"
    and adm: "\<forall>m\<in>set (slice_of (s_Mappings s)). epoch_admitted l m"
    and new: "\<forall>r\<in>set new. retires_epoch l r"
    and gone: "\<forall>a\<in>set (slice_of (l_Active l)). a_MappingID a \<in> m_ID ` set (slice_of (s_Mappings s))
         \<or> a_MappingID a \<in> e_id ` set (kept_entries l ack) \<or> a_MappingID a \<in> r_MappingID ` set new" by blast
  note dis = wf_ledger_slices(3)[OF assms(1)]
  have "a \<in> set (slice_of (l_Active n)) \<or> (\<exists>r\<in>set (Retirements n). r_MappingID r = a_MappingID a \<and> r_FlowMark r = a_FlowMark a
                  \<and> r_TupleHash r = a_TupleHash a)" if a: "a \<in> set (slice_of (l_Active l))" for a
  proof (cases "a_MappingID a \<in> r_MappingID ` set new")
    case True
    then obtain r where r: "r \<in> set new" "r_MappingID r = a_MappingID a" by force
    have "epoch_map (slice_of (l_Active l)) (a_MappingID a) = Some a" using a dis by (simp add: epoch_map_Some)
    with new r have "r_FlowMark r = a_FlowMark a" "r_TupleHash r = a_TupleHash a" by (auto simp: retires_epoch_def)
    with r show ?thesis by (auto simp: n prepared_def Let_def Retirements_def)
  next
    case False
    have out: "a_MappingID a \<notin> e_id ` set (kept_entries l ack)"
      using wf_ledger_slices(6)[OF assms(1)] kept_subset[of l ack] a by blast
    with gone a False obtain m where m: "m \<in> set (slice_of (s_Mappings s))" "m_ID m = a_MappingID a" by force
    with adm a dis have "epoch_of m = a"
      by (auto simp: epoch_admitted_def epoch_map_Some epoch_map_None split: option.splits)
    with m out False show ?thesis by (force simp: n prepared_def Let_def)
  qed
  then show ?thesis using ack by (auto simp: n prepared_def Let_def kept_entries_def ack_ok_def)
qed

lemma prepare_loses_nothing_witness:
  "\<exists>r\<in>set (Retirements example_outstanding). r_MappingID r = 101 \<and> r_FlowMark r = 7"
  using prepare_loses_nothing[OF example_ledgers_wf(2) example_prepares(2)]
  by (auto simp: example_active_def example_outstanding_def example_marked_def example_mapping_def)

text \<open>
  C3: identities are never reused. Over any history of preparing and clearing that starts from
  a valid ledger, once the mapping id or the flow mark of an active epoch has left the
  active set it never returns to it; and an epoch met later with the same id or the same
  mark is the very same epoch.
\<close>

theorem identities_never_reused:
  assumes "wf_ledger l" "ledger_step\<^sup>*\<^sup>* l l1" "ledger_step\<^sup>*\<^sup>* l1 l2" "a \<in> set (slice_of (l_Active l))"
  shows "(a_MappingID a \<notin> a_MappingID ` set (slice_of (l_Active l1)) \<longrightarrow>
          a_MappingID a \<notin> a_MappingID ` set (slice_of (l_Active l2)))
    \<and> (a_FlowMark a \<notin> a_FlowMark ` set (slice_of (l_Active l1)) \<longrightarrow>
       a_FlowMark a \<notin> a_FlowMark ` set (slice_of (l_Active l2)))
    \<and> (\<forall>b\<in>set (slice_of (l_Active l1)). a_MappingID b = a_MappingID a \<or> a_FlowMark b = a_FlowMark a \<longrightarrow> b = a)"
proof -
  have wf: "wf_ledger l1" "wf_ledger l2" using id_history.run_inv assms(1-3) by blast+
  have ids: "epochs_by_id x i = None \<longleftrightarrow> i \<notin> a_MappingID ` set (slice_of (l_Active x))" for x i
    by (simp add: epochs_by_id_def epoch_map_None)
  have marks: "epochs_by_mark x k = None \<longleftrightarrow> k \<notin> a_FlowMark ` set (slice_of (l_Active x))" for x k
    by (auto simp: epochs_by_mark_def map_of_eq_None_iff image_image)
  have a: "epochs_by_id l (a_MappingID a) = Some a" "epochs_by_mark l (a_FlowMark a) = Some a"
    using assms(1,4) by (simp_all add: epochs_by_id_Some epochs_by_mark_Some)
  have "b = a" if b: "b \<in> set (slice_of (l_Active l1))" "a_MappingID b = a_MappingID a" for b
    using id_history.epoch_pinned[OF assms(2,1) a(1)] epochs_by_id_Some[OF wf(1), of "a_MappingID a" b] b by auto
  moreover have "b = a" if b: "b \<in> set (slice_of (l_Active l1))" "a_FlowMark b = a_FlowMark a" for b
    using mark_history.epoch_pinned[OF assms(2,1) a(2)] epochs_by_mark_Some[OF wf(1), of "a_FlowMark a" b] b by auto
  ultimately show ?thesis
    using id_history.retired_for_ever[OF assms(2,3,1), of "a_MappingID a"]
      mark_history.retired_for_ever[OF assms(2,3,1), of "a_FlowMark a"]
      imageI[OF assms(4), of a_MappingID] imageI[OF assms(4), of a_FlowMark]
    unfolding ids marks by blast
qed

lemma identities_never_reused_witness:
  "101 \<notin> a_MappingID ` set (slice_of (l_Active (Clear example_outstanding {''x''})))"
proof -
  have s1: "ledger_step\<^sup>*\<^sup>* example_active example_outstanding"
    using step_prepare[OF example_prepares(2)] by blast
  have s2: "ledger_step\<^sup>*\<^sup>* example_outstanding (Clear example_outstanding {''x''})"
    using step_clear by blast
  have a: "epoch_of example_marked \<in> set (slice_of (l_Active example_active))" by (simp add: example_active_def)
  from identities_never_reused[OF example_ledgers_wf(2) s1 s2 a] show ?thesis
    by (simp add: example_outstanding_def example_marked_def example_mapping_def)
qed

text \<open>
  Over any history no high-water mark falls, an armed ledger stays armed, the ledger id
  stays the same and the ledger stays valid.
\<close>

theorem ledger_history_monotone:
  assumes "wf_ledger l" "ledger_step\<^sup>*\<^sup>* l n"
  shows "wf_ledger n \<and> waters_le l n"
  using assms(2,1)
proof (induction rule: rtranclp_induct)
  case (step n1 n2)
  then show ?case using ledger_step_wf ledger_step_waters[OF step.hyps(2)] by (force simp: waters_le_def)
qed (simp add: waters_le_def)

lemma ledger_history_monotone_witness: "waters_le example_ledger example_outstanding"
proof -
  have "ledger_step\<^sup>*\<^sup>* example_ledger example_outstanding"
    using step_prepare[OF example_prepares(1)] step_prepare[OF example_prepares(2)] by auto
  from ledger_history_monotone[OF example_ledgers_wf(1) this] show ?thesis by simp
qed

text \<open>
  Preparing is safe to repeat. After a crash between persisting the prepared ledger (with
  any of its retirements recorded as cleared) and persisting the snapshot, preparing the same
  snapshot succeeds again and returns the ledger unchanged.
\<close>

theorem prepare_retry:
  assumes "Prepare l s = Inr n" "wf_ledger l" "wf_snapshot lim s"
  shows "Prepare (Clear n ids) s = Inr (Clear n ids)"
  by (rule Prepare_again[OF assms])

lemma prepare_retry_witness:
  "Prepare (Clear example_outstanding {r_RetirementID example_retirement}) example_retired
     = Inr (Clear example_outstanding {r_RetirementID example_retirement})"
  by (rule prepare_retry[OF example_prepares(2) example_ledgers_wf(2) example_wf_snapshots(2)])

lemma generation_run:
  assumes "ledger_step\<^sup>*\<^sup>* n n'" "wf_ledger n" "l_DesiredHash n \<noteq> []"
  shows "l_ManagedGenerationHighWater n \<le> l_ManagedGenerationHighWater n' \<and> l_DesiredHash n' \<noteq> []
    \<and> (l_ManagedGenerationHighWater n' = l_ManagedGenerationHighWater n \<longrightarrow> l_DesiredHash n' = l_DesiredHash n)"
  using assms
proof (induction rule: rtranclp_induct)
  case (step n1 n2)
  from id_history.run_inv[OF step.hyps(1) step.prems(1)] have wf1: "wf_ledger n1" by blast
  from step.hyps(2) show ?case
  proof cases
    case (step_prepare s)
    show ?thesis
    proof (cases "s_Retirements s")
      case None
      with legacy_Prepare[OF step_prepare] step show ?thesis by simp
    next
      case (Some rs)
      from Prepare_InrD[OF step_prepare Some wf1] obtain ack new where "n2 = prepared n1 s ack new" "gen_ok n1 s" by blast
      moreover have "DesiredHash s \<noteq> []" using length_DesiredHash[of s] by force
      ultimately show ?thesis using step by (auto simp: prepared_def Let_def gen_ok_def)
    qed
  qed (use step in simp)
qed simp

text \<open>
  C16: a generation has one content. If a managed snapshot was prepared and, any number of
  steps later, another one is, then its generation is not smaller, and if it is the same then
  its desired-state hash is the same.
\<close>

theorem generation_pinned:
  assumes "wf_ledger l" "s_Retirements s = Some rs" "Prepare l s = Inr n"
    and "ledger_step\<^sup>*\<^sup>* n n'" "s_Retirements s' = Some rs'" "Prepare n' s' = Inr n''"
  shows "s_Generation s \<le> s_Generation s' \<and> (s_Generation s' = s_Generation s \<longrightarrow> DesiredHash s' = DesiredHash s)"
proof -
  have n: "wf_ledger n" "l_ManagedGenerationHighWater n = s_Generation s" "l_DesiredHash n = DesiredHash s"
    using Prepare_InrD[OF assms(3,2,1)] by (auto simp: prepared_def Let_def)
  moreover have "DesiredHash s \<noteq> []" using length_DesiredHash[of s] by force
  ultimately have n': "s_Generation s \<le> l_ManagedGenerationHighWater n'" "l_DesiredHash n' \<noteq> []"
    "l_ManagedGenerationHighWater n' = s_Generation s \<longrightarrow> l_DesiredHash n' = DesiredHash s"
    using generation_run[OF assms(4)] by simp_all
  moreover have "wf_ledger n'" using id_history.run_inv[OF assms(4) n(1)] by simp
  then have "gen_ok n' s'" using Prepare_InrD[OF assms(6,5)] by blast
  ultimately show ?thesis by (auto simp: gen_ok_def)
qed

lemma generation_pinned_witness: "s_Generation example_managed \<le> s_Generation example_retired"
  using generation_pinned[OF example_ledgers_wf(1) _ example_prepares(1) rtranclp.rtrancl_refl _ example_prepares(2)]
  by (simp add: example_managed_def example_retired_def)

text \<open>
  C21: a valid ledger (its integers in the range of their Go types) is written and read back
  unchanged; so the copy that \<open>Prepare\<close> makes through JSON is the ledger itself.
\<close>

theorem ledger_file_roundtrip:
  assumes "wf_ledger l" "ledger_ranges l"
  shows "\<exists>b. ledger_body l = Inr b \<and> ledger_Load (Inr b) = Inr l"
proof -
  have "ledger_Validate l = Inr ()" using assms(1) by (simp add: ledger_Validate_iff)
  then show ?thesis
    using dec_ledger_json[OF assms(2)] by (simp add: ledger_body_def ledger_Load_def DecodeFirst_def)
qed

lemma ledger_file_roundtrip_witness:
  "\<exists>b. ledger_body example_outstanding = Inr b \<and> ledger_Load (Inr b) = Inr example_outstanding"
  by (rule ledger_file_roundtrip[OF example_ledgers_wf(3)])
    (simp add: ledger_ranges_def example_outstanding_def example_active_def example_ledger_def example_retirement_def
      entry_ranges_def int64_def)

text \<open>
  Whatever sixteen bytes the random source gives, the new ledger has an identifier of the
  required form (version 4, RFC variant) and passes validation.
\<close>

theorem new_ledger_valid:
  assumes "length b = 16"
  shows "\<exists>l. New (Some b) = Some l \<and> ledger_Validate l = Inr () \<and> \<not> l_Armed l"
  using uuid_text_match[OF assms]
  by (simp add: New_def ledger_Validate_iff wf_ledger_def MaxOutstanding_def)

lemma new_ledger_valid_witness:
  "\<exists>l. New (Some (replicate 16 0)) = Some l \<and> ledger_Validate l = Inr () \<and> \<not> l_Armed l"
  by (rule new_ledger_valid) simp

end
