(* ===== verification/Nft_Render.thy ===== *)
theory Nft_Render
  imports Ledger
begin

text \<open>
  \<open>internal/nftctl\<close>, the pure part: from a validated snapshot to rule plans, and from plans
  to the expression lists of the two chains.

  The expression types of the netlink library are a datatype with the fields the source
  sets or compares; its named constants are constructors, so no numeric value of the
  library is assumed. A Go field that is not set has its zero value. Byte strings are lists
  of bytes; \<open>le\<close> says whether the machine is little-endian (\<open>binary.NativeEndian\<close>), and
  \<open>kn\<close> gives the number of a meta key, which appears in the tags of rules.
\<close>

unbundle bit_operations_syntax

subsection \<open>Expressions\<close>

datatype meta_key = MetaIIFNAME | MetaOIFNAME | MetaL4PROTO | MetaOther nat
datatype cmp_op = CmpEq | CmpNeq | CmpOther nat
datatype payload_base = NetworkHeader | TransportHeader | OtherBase nat
datatype ct_key = CtMARK | CtPROTODST | CtSTATUS | CtOther nat
datatype nat_type = DestNAT | OtherNAT nat
datatype family = FamilyIPv4 | OtherFamily nat
datatype verdict_kind = VerdictDrop | OtherVerdict nat
datatype limit_type = LimitPkts | OtherLimit nat
datatype limit_unit = LimitSecond | OtherUnit nat
datatype obj_type = ObjTypeCounter | OtherObjType nat

datatype expr =
    Meta meta_key nat bool
  | Cmp cmp_op nat "u8 list"
  | Payload nat nat nat payload_base nat nat nat nat nat
  | Ct nat bool ct_key nat bool
  | Immediate nat "u8 list"
  | Objref obj_type string
  | NAT nat_type family nat nat nat nat bool bool bool bool
  | Bitwise nat nat nat "u8 list" "u8 list"
  | Verdict verdict_kind
  | Counter u64 u64
  | Limit limit_type u64 bool limit_unit u32
  | Connlimit u32 nat
  | Dynset nat nat string nat int bool "expr list"
  | OtherExpr string

text \<open>\<open>Payload\<close> with only the destination register, base, offset and length set.\<close>

abbreviation PayloadLoad :: "nat \<Rightarrow> payload_base \<Rightarrow> nat \<Rightarrow> nat \<Rightarrow> expr" where
  "PayloadLoad dreg base off len \<equiv> Payload 0 dreg 0 base off len 0 0 0"

subsection \<open>Bytes\<close>

definition be16 :: "u16 \<Rightarrow> u8 list" where
  "be16 w = [ucast (drop_bit 8 w), ucast w]"

definition be32 :: "u32 \<Rightarrow> u8 list" where
  "be32 w = [ucast (drop_bit 24 w), ucast (drop_bit 16 w), ucast (drop_bit 8 w), ucast w]"

definition native32 :: "bool \<Rightarrow> u32 \<Rightarrow> u8 list" where
  "native32 le w = (if le then rev (be32 w) else be32 w)"

definition string_bytes :: "string \<Rightarrow> u8 list" where
  "string_bytes s = map (of_nat \<circ> byte_of) s"

definition ifname :: "string \<Rightarrow> u8 list" where
  "ifname n = take 16 (string_bytes n @ replicate 16 0)"

subsection \<open>Plans and guards\<close>

record rule =
  ru_MappingID :: int
  ru_Proto :: string
  ru_PublicPort :: u16
  ru_Target :: u32
  ru_TargetPort :: u16
  ru_SourcePolicy :: "policy option"
  ru_FlowMark :: u32
  ru_CtMax :: "u32 option"
  ru_NewConnRate :: "u64 option"
  ru_NewConnBurst :: "u32 option"
  ru_PerSourceRate :: "u64 option"
  ru_PerSourceBurst :: "u32 option"

record guards =
  g_MaxConn :: u32
  g_NewConnRate :: u64
  g_NewConnBurst :: u32
  g_PerSourceRate :: u64
  g_PerSourceBurst :: u32

definition override :: "'a option \<Rightarrow> 'a \<Rightarrow> 'a" where
  "override v d = (case v of None \<Rightarrow> d | Some x \<Rightarrow> x)"

definition effectiveGuards :: "rule \<Rightarrow> guards \<Rightarrow> guards" where
  "effectiveGuards r g =
     \<lparr>g_MaxConn = override (ru_CtMax r) (g_MaxConn g),
      g_NewConnRate = override (ru_NewConnRate r) (g_NewConnRate g),
      g_NewConnBurst = override (ru_NewConnBurst r) (g_NewConnBurst g),
      g_PerSourceRate = override (ru_PerSourceRate r) (g_PerSourceRate g),
      g_PerSourceBurst = override (ru_PerSourceBurst r) (g_PerSourceBurst g)\<rparr>"

definition valueOrZero :: "u32 option \<Rightarrow> u32" where
  "valueOrZero v = (case v of None \<Rightarrow> 0 | Some x \<Rightarrow> x)"

text \<open>\<open>netip.Addr.As4\<close> panics on the zero address and on an IPv6 address that does not map IPv4.\<close>

fun As4 :: "addr option \<Rightarrow> u32 option" where
  "As4 (Some (IP4 w)) = Some w"
| "As4 (Some (IP6 w z)) = (if is4in6 (IP6 w z) then Some (ucast w) else None)"
| "As4 None = None"

definition plan_rule :: "mapping \<Rightarrow> rule option" where
  "plan_rule m = map_option (\<lambda>target.
     \<lparr>ru_MappingID = m_ID m, ru_Proto = m_Proto m, ru_PublicPort = m_PublicPort m, ru_Target = target,
      ru_TargetPort = m_TargetPort m, ru_SourcePolicy = m_SourcePolicy m, ru_FlowMark = valueOrZero (m_FlowMark m),
      ru_CtMax = m_CtMax m, ru_NewConnRate = m_NewConnRate m, ru_NewConnBurst = m_NewConnBurst m,
      ru_PerSourceRate = m_PerSourceRate m, ru_PerSourceBurst = m_PerSourceBurst m\<rparr>) (As4 (Target m))"

text \<open>\<open>None\<close> is the panic of \<open>As4\<close>.\<close>

definition Plan :: "snapshot \<Rightarrow> rule list option" where
  "Plan s = those (map plan_rule (slice_of (s_Mappings s)))"

subsection \<open>Object names and tags\<close>

definition counterSuffixes :: "string list" where
  "counterSuffixes = [''new'', ''in'', ''out'', ''rd'', ''cd'', ''pd'']"

definition counterName :: "int \<Rightarrow> string \<Rightarrow> string" where
  "counterName i suffix = ''m'' @ format_int i @ ''_'' @ suffix"

definition parseCounterName :: "string \<Rightarrow> (int \<times> string) option" where
  "parseCounterName name =
     (case cut_prefix ''m'' name of None \<Rightarrow> None
      | Some rest \<Rightarrow>
          (case cut CHR ''_'' rest of None \<Rightarrow> None
           | Some (num, suffix) \<Rightarrow>
               (case parse_int num of None \<Rightarrow> None
                | Some i \<Rightarrow> if i < 0 then None
                    else if suffix \<in> set counterSuffixes then Some (i, suffix) else None)))"

definition setName :: "int \<Rightarrow> string" where
  "setName i = ''ps'' @ format_int i"

definition activeTag :: "rule \<Rightarrow> string" where
  "activeTag r = ''pickle-active:'' @ format_int (ru_MappingID r) @ '':''
     @ TupleHash (ru_MappingID r) (ru_Proto r) (ru_PublicPort r) (addr_string (IP4 (ru_Target r))) (ru_TargetPort r) (ru_FlowMark r)"

definition retirementTag :: "(meta_key \<Rightarrow> int) \<Rightarrow> retirement \<Rightarrow> meta_key \<Rightarrow> string" where
  "retirementTag kn r d = ''pickle-retired:'' @ r_RetirementID r @ '':'' @ format_int (kn d)"

definition quarantineTag :: "(meta_key \<Rightarrow> int) \<Rightarrow> meta_key \<Rightarrow> string" where
  "quarantineTag kn d = ''pickle-quarantine:'' @ format_int (kn d)"

subsection \<open>Expression lists\<close>

definition protoTCP :: u8 where "protoTCP = 6"
definition protoUDP :: u8 where "protoUDP = 17"

definition proto_byte :: "string \<Rightarrow> u8" where
  "proto_byte p = (if p = ProtoUDP then protoUDP else protoTCP)"

definition connlimitInv :: nat where "connlimitInv = 1"
definition dynsetOpUpdate :: nat where "dynsetOpUpdate = 1"
definition ctDirOriginal :: nat where "ctDirOriginal = 0"
definition ctStatusDNAT :: u32 where "ctStatusDNAT = 0x20"
definition perSourceTimeout :: int where "perSourceTimeout = 60 * 1000000000"
definition perSourceSetSize :: nat where "perSourceSetSize = 4096"

definition matchExprs :: "string \<Rightarrow> rule \<Rightarrow> expr list" where
  "matchExprs iface r =
     [Meta MetaIIFNAME 1 False, Cmp CmpEq 1 (ifname iface),
      Meta MetaL4PROTO 1 False, Cmp CmpEq 1 [proto_byte (ru_Proto r)],
      PayloadLoad 1 TransportHeader 2 2, Cmp CmpEq 1 (be16 (ru_PublicPort r))]"

definition objrefCounter :: "int \<Rightarrow> string \<Rightarrow> expr" where
  "objrefCounter i suffix = Objref ObjTypeCounter (counterName i suffix)"

definition guardExprs :: "string \<Rightarrow> rule \<Rightarrow> expr \<Rightarrow> string \<Rightarrow> expr list" where
  "guardExprs iface r limit suffix =
     matchExprs iface r @ [limit, objrefCounter (ru_MappingID r) suffix, Verdict VerdictDrop]"

definition perSourceExprs :: "string \<Rightarrow> rule \<Rightarrow> u64 \<Rightarrow> u32 \<Rightarrow> expr list" where
  "perSourceExprs iface r rate burst =
     matchExprs iface r @
     [PayloadLoad 1 NetworkHeader 12 4,
      Dynset 1 0 (setName (ru_MappingID r)) dynsetOpUpdate perSourceTimeout False [Limit LimitPkts rate True LimitSecond burst],
      objrefCounter (ru_MappingID r) ''pd'', Verdict VerdictDrop]"

definition dnatExprs :: "bool \<Rightarrow> string \<Rightarrow> rule \<Rightarrow> expr list" where
  "dnatExprs le iface r =
     matchExprs iface r
     @ (if ru_FlowMark r \<noteq> 0 then [Immediate 1 (native32 le (ru_FlowMark r)), Ct 1 True CtMARK 0 False] else [])
     @ [objrefCounter (ru_MappingID r) ''new'', Immediate 1 (be32 (ru_Target r)), Immediate 2 (be16 (ru_TargetPort r)),
        NAT DestNAT FamilyIPv4 1 0 2 0 False False False False]"

text \<open>A shift by the width or more gives zero, as Go's shift does.\<close>

definition source_mask :: "nat \<Rightarrow> u32" where
  "source_mask bits = push_bit (32 - bits) (NOT 0)"

text \<open>
  A policy holds IPv4 prefixes only (\<open>Source_Policy.policy_parse_exact\<close>), so \<open>As4\<close> does not
  panic here; the model emits nothing for an IPv6 prefix.
\<close>

definition prefix_drop :: "prefix \<Rightarrow> expr list" where
  "prefix_drop p = (case pfx_addr p of
     IP4 a \<Rightarrow> [PayloadLoad 1 NetworkHeader 12 4, Bitwise 1 1 4 (be32 (source_mask (pfx_bits p))) (replicate 4 0),
              Cmp CmpNeq 1 (be32 a)]
   | IP6 _ _ \<Rightarrow> [])"

definition sourceDropExprs :: "string \<Rightarrow> rule \<Rightarrow> expr list option" where
  "sourceDropExprs iface r =
     (case ru_SourcePolicy r of None \<Rightarrow> None
      | Some p \<Rightarrow> Some (matchExprs iface r @ concat (map prefix_drop p) @ [Counter 0 0, Verdict VerdictDrop]))"

definition dnatMask :: "bool \<Rightarrow> expr list" where
  "dnatMask le = [Ct 1 False CtSTATUS 0 False, Bitwise 1 1 4 (native32 le ctStatusDNAT) (replicate 4 0),
     Cmp CmpNeq 1 (replicate 4 0)]"

definition quarantineDropExprs :: "bool \<Rightarrow> string \<Rightarrow> meta_key \<Rightarrow> expr list" where
  "quarantineDropExprs le iface d =
     [Meta d 1 False, Cmp CmpEq 1 (ifname iface)] @ dnatMask le @ [Verdict VerdictDrop]"

definition retirementDropExprs :: "bool \<Rightarrow> string \<Rightarrow> retirement \<Rightarrow> meta_key \<Rightarrow> expr list" where
  "retirementDropExprs le iface r d =
     [Meta d 1 False, Cmp CmpEq 1 (ifname iface),
      Meta MetaL4PROTO 1 False, Cmp CmpEq 1 [proto_byte (r_Proto r)],
      Ct 1 False CtMARK 0 False, Cmp CmpEq 1 (native32 le (r_FlowMark r)),
      Ct 1 False CtPROTODST ctDirOriginal False, Cmp CmpEq 1 (be16 (r_PublicPort r))]
     @ dnatMask le @ [Verdict VerdictDrop]"

definition forwardCountExprs :: "bool \<Rightarrow> string \<Rightarrow> rule \<Rightarrow> meta_key \<Rightarrow> string \<Rightarrow> expr list" where
  "forwardCountExprs le iface r d suffix =
     [Meta d 1 False, Cmp CmpEq 1 (ifname iface),
      Meta MetaL4PROTO 1 False, Cmp CmpEq 1 [proto_byte (ru_Proto r)],
      Ct 1 False CtPROTODST ctDirOriginal False, Cmp CmpEq 1 (be16 (ru_PublicPort r))]
     @ dnatMask le @ [objrefCounter (ru_MappingID r) suffix]"

definition render_rule :: "bool \<Rightarrow> string \<Rightarrow> guards \<Rightarrow> rule \<Rightarrow> expr list list" where
  "render_rule le iface g r =
     (let eff = effectiveGuards r g
      in (case sourceDropExprs iface r of None \<Rightarrow> [] | Some acl \<Rightarrow> [acl])
         @ (if g_PerSourceRate eff > 0 then [perSourceExprs iface r (g_PerSourceRate eff) (g_PerSourceBurst eff)] else [])
         @ (if g_NewConnRate eff > 0
            then [guardExprs iface r (Limit LimitPkts (g_NewConnRate eff) True LimitSecond (g_NewConnBurst eff)) ''rd''] else [])
         @ (if g_MaxConn eff > 0 then [guardExprs iface r (Connlimit (g_MaxConn eff) connlimitInv) ''cd''] else [])
         @ [dnatExprs le iface r])"

definition renderRules :: "bool \<Rightarrow> string \<Rightarrow> rule list \<Rightarrow> guards \<Rightarrow> expr list list" where
  "renderRules le iface rules g = concat (map (render_rule le iface g) rules)"

definition renderForwardRules :: "bool \<Rightarrow> string \<Rightarrow> rule list \<Rightarrow> expr list list" where
  "renderForwardRules le iface rules = concat (map (\<lambda>r.
     [forwardCountExprs le iface r MetaIIFNAME ''in'', forwardCountExprs le iface r MetaOIFNAME ''out'']) rules)"

definition both_directions :: "meta_key list" where
  "both_directions = [MetaIIFNAME, MetaOIFNAME]"

definition retirement_rules :: "bool \<Rightarrow> string \<Rightarrow> retirement list \<Rightarrow> expr list list" where
  "retirement_rules le iface rets = concat (map (\<lambda>r. map (retirementDropExprs le iface r) both_directions) rets)"

subsection \<open>Planning validated snapshots\<close>

lemma those_map_Some: "(\<And>x. x \<in> set xs \<Longrightarrow> f x = Some (g x)) \<Longrightarrow> those (map f xs) = Some (map g xs)"
  by (induction xs) auto

lemma those_SomeD: "those (map f xs) = Some ys \<Longrightarrow> list_all2 (\<lambda>x y. f x = Some y) xs ys"
  by (induction xs arbitrary: ys) (auto split: option.splits)

text \<open>The rule of a mapping whose target was parsed.\<close>

definition rule_of :: "mapping \<Rightarrow> rule" where
  "rule_of m = the (plan_rule m)"

lemma plan_rule_wf:
  assumes "wf_mapping lim b m" "m_target m = target_addr m"
  shows "\<exists>a. target_addr m = Some (IP4 a) \<and> plan_rule m = Some (rule_of m) \<and> ru_Target (rule_of m) = a
    \<and> addr_string (IP4 a) = m_TargetAddr m"
proof -
  from assms(1) obtain a where a: "target_addr m = Some (IP4 a)" by (auto simp: wf_mapping_def)
  then have "addr_string (IP4 a) = m_TargetAddr m" using parse_addr_canonical by (simp only: target_addr_def)
  with a assms(2) show ?thesis by (simp add: rule_of_def plan_rule_def Target_def)
qed

lemma with_targets_mem:
  assumes "with_targets ms = ms" "m \<in> set ms"
  shows "m_target m = target_addr m"
proof -
  have "map m_target (with_targets ms) = map target_addr ms" by (simp add: with_targets_def)
  with assms show ?thesis by simp
qed

lemma Plan_wf:
  assumes "wf_snapshot lim s" "map_option with_targets (s_Mappings s) = s_Mappings s"
  shows "Plan s = Some (map rule_of (slice_of (s_Mappings s)))"
proof -
  obtain ms where ms: "s_Mappings s = Some ms" using assms(1) by (auto simp: wf_snapshot_def)
  have "plan_rule m = Some (rule_of m)" if "m \<in> set ms" for m
  proof -
    have "m_target m = target_addr m" using assms(2) ms that by (intro with_targets_mem) simp_all
    moreover have "wf_mapping lim (s_Retirements s \<noteq> None) m" using assms(1) ms that by (auto simp: wf_snapshot_def)
    ultimately show ?thesis using plan_rule_wf by blast
  qed
  with ms show ?thesis by (simp add: Plan_def those_map_Some)
qed

lemma rule_of_simps:
  assumes "plan_rule m = Some r"
  shows "ru_MappingID r = m_ID m" "ru_Proto r = m_Proto m" "ru_PublicPort r = m_PublicPort m"
    "ru_TargetPort r = m_TargetPort m" "ru_SourcePolicy r = m_SourcePolicy m" "ru_FlowMark r = valueOrZero (m_FlowMark m)"
  using assms by (auto simp: plan_rule_def)

subsection \<open>The shape of the nat chain\<close>

definition is_nat :: "expr \<Rightarrow> bool" where
  "is_nat e = (case e of NAT _ _ _ _ _ _ _ _ _ _ \<Rightarrow> True | _ \<Rightarrow> False)"

lemma last_exprs [simp]:
  "is_nat (last (dnatExprs le iface r))"
  "\<not> is_nat (last (guardExprs iface r lim sfx))"
  "\<not> is_nat (last (perSourceExprs iface r rate burst))"
  "sourceDropExprs iface r = Some acl \<Longrightarrow> \<not> is_nat (last acl)"
  by (auto simp: dnatExprs_def guardExprs_def perSourceExprs_def sourceDropExprs_def is_nat_def split: option.splits)

text \<open>The guards of a mapping in order; its rules are these and then the DNAT rule.\<close>

definition guard_rules :: "string \<Rightarrow> guards \<Rightarrow> rule \<Rightarrow> expr list list" where
  "guard_rules iface g r = butlast (render_rule True iface g r)"

lemma render_rule_split: "render_rule le iface g r = guard_rules iface g r @ [dnatExprs le iface r]"
  by (simp add: guard_rules_def render_rule_def Let_def butlast_append)

lemma guard_rules_not_nat: "\<forall>x\<in>set (guard_rules iface g r). \<not> is_nat (last x)"
  by (auto simp: guard_rules_def render_rule_def Let_def butlast_append split: option.splits)

lemma cut_counter: "cut CHR ''_'' (format_int i @ CHR ''_'' # s) = Some (format_int i, s)"
proof (rule cut_append)
  show "CHR ''_'' \<notin> set (format_int i)"
    using format_int_chars[of "CHR ''_''" i] by (auto simp: is_digit_def byte_of_def)
qed

lemma parseCounterName_counterName:
  assumes "0 \<le> i" "i < 2 ^ 63" "sfx \<in> set counterSuffixes"
  shows "parseCounterName (counterName i sfx) = Some (i, sfx)"
  using assms by (simp add: parseCounterName_def counterName_def cut_prefix_def has_prefix_def cut_counter)

text \<open>
  The names of counter objects are read back as the mapping id and the counter they were
  made from.
\<close>

theorem counter_name_roundtrip:
  assumes "0 \<le> i" "i < 2 ^ 63" "sfx \<in> set counterSuffixes"
  shows "parseCounterName (counterName i sfx) = Some (i, sfx)"
  by (rule parseCounterName_counterName[OF assms])

lemma counter_name_roundtrip_witness: "parseCounterName (counterName 101 ''in'') = Some (101, ''in'')"
  by (rule counter_name_roundtrip) (simp_all add: counterSuffixes_def)

subsection \<open>Tags and epochs\<close>

definition epoch_tag :: "active \<Rightarrow> string" where
  "epoch_tag a = ''pickle-active:'' @ format_int (a_MappingID a) @ '':'' @ a_TupleHash a"

lemma activeTag_epoch:
  assumes "wf_mapping lim True m" "m_target m = target_addr m"
  shows "activeTag (rule_of m) = epoch_tag (epoch_of m)"
proof -
  from plan_rule_wf[OF assms] obtain a where plan: "plan_rule m = Some (rule_of m)"
    and a: "ru_Target (rule_of m) = a" "addr_string (IP4 a) = m_TargetAddr m" by blast
  from assms(1) obtain k where "m_FlowMark m = Some k" by (auto simp: wf_mapping_def)
  with a rule_of_simps[OF plan] show ?thesis
    by (simp only: activeTag_def epoch_tag_def epoch_of_def mappingHash_def valueOrZero_def Let_def option.case option.sel
        active.select_convs)
qed

text \<open>
  C28: the plan of a parsed snapshot never panics, and the tags of its rules are the epochs of
  the ledger prepared for it: the mapping id and the tuple hash the kernel rule carries are
  the ones the ledger recorded, mapping by mapping.
\<close>

theorem plan_tags_are_epochs:
  assumes "Parse pt body lim = Inr s" "s_Retirements s = Some rs" "wf_ledger l" "Prepare l s = Inr n"
  shows "\<exists>rules. Plan s = Some rules \<and> map activeTag rules = map epoch_tag (slice_of (l_Active n))"
proof -
  note wf = Parse_wf[OF assms(1)]
  obtain ms where ms: "s_Mappings s = Some ms" using wf(1) by (auto simp: wf_snapshot_def)
  have "activeTag (rule_of m) = epoch_tag (epoch_of m)" if "m \<in> set ms" for m
  proof (rule activeTag_epoch)
    show "wf_mapping lim True m" using wf(1) ms that assms(2) by (auto simp: wf_snapshot_def)
    show "m_target m = target_addr m" using wf(3) ms that by (intro with_targets_mem) simp_all
  qed
  then show ?thesis
    using Plan_wf[OF wf(1,3)] Prepare_establishes[OF assms(4,3) wf(1) assms(2)] ms by (simp add: holds_state_def)
qed

lemma example_parse_managed:
  "\<exists>body s. Parse parse_int body example_limits = Inr s \<and> s_Retirements s = Some []
     \<and> Prepare example_ledger s = Inr example_active
     \<and> s_Mappings s = Some [example_marked\<lparr>m_target := target_addr example_marked\<rparr>]"
proof -
  let ?s = "example_managed\<lparr>s_Mappings := Some (with_targets [example_marked])\<rparr>"
  have wf: "wf_snapshot example_limits ?s = wf_snapshot example_limits example_managed"
    by (rule wf_snapshot_retarget[where f = target_addr]) (simp_all add: with_targets_def example_managed_def)
  have "Parse parse_int (persisted_body format_int 1000 ?s) example_limits = Inr (?s\<lparr>s_PersistedAt := 1000\<rparr>)"
  proof (rule Parse_persisted)
    show "wf_snapshot example_limits ?s" using wf example_wf_snapshots(1) by simp
    show "json_ranges ?s"
      by (simp add: json_ranges_def with_targets_def example_managed_def snapshot_zero_def example_marked_def
          example_mapping_def mapping_zero_def int64_def policy_stable_def)
    show "map_option with_targets (s_Mappings ?s) = s_Mappings ?s" by (simp add: with_targets_def target_addr_def)
    show "parse_int (format_int 1000) = Some 1000" by (rule parse_int_format) simp_all
  qed simp
  moreover have "Prepare example_ledger (?s\<lparr>s_PersistedAt := 1000\<rparr>) = Inr example_active"
  proof -
    have "mapping_json (m\<lparr>m_target := x\<rparr>) = mapping_json m" "mappingHash (m\<lparr>m_target := x\<rparr>) k = mappingHash m k" for m x k
      by (simp_all add: mapping_json_def mappingHash_def)
    then have "DesiredHash (?s\<lparr>s_PersistedAt := 1000\<rparr>) = DesiredHash example_managed"
      "prep_mapping l st (m\<lparr>m_target := x\<rparr>) = prep_mapping l st m" for l st m x
      by (simp add: DesiredHash_def desired_json_def with_targets_def example_managed_def)
        (cases st; cases "m_FlowMark m"; simp add: prep_mapping_def mappingHash_def Let_def split: option.split)
    then have "Prepare example_ledger (?s\<lparr>s_PersistedAt := 1000\<rparr>) = Prepare example_ledger example_managed"
      by (simp add: Prepare_def with_targets_def example_managed_def prep_generation_def)
    with example_prepares(1) show ?thesis by simp
  qed
  moreover have "s_Retirements (?s\<lparr>s_PersistedAt := 1000\<rparr>) = Some []"
    "s_Mappings (?s\<lparr>s_PersistedAt := 1000\<rparr>) = Some [example_marked\<lparr>m_target := target_addr example_marked\<rparr>]"
    by (simp_all add: example_managed_def with_targets_def)
  ultimately show ?thesis by blast
qed

lemma plan_tags_are_epochs_witness:
  "\<exists>s rules. Plan s = Some rules \<and> map activeTag rules = map epoch_tag (slice_of (l_Active example_active))"
proof -
  obtain body s where "Parse parse_int body example_limits = Inr s" "s_Retirements s = Some []"
    "Prepare example_ledger s = Inr example_active" using example_parse_managed by blast
  from plan_tags_are_epochs[OF this(1,2) example_ledgers_wf(1) this(3)] show ?thesis by blast
qed

end
