(* ===== verification/Nft_Semantics.thy ===== *)
theory Nft_Semantics
  imports Nft_Render
begin

text \<open>
  What the rendered rules do to a packet.

  The kernel's evaluation of one expression is the parameter \<open>ev\<close>; \<open>documented_nft\<close> states
  the documented behaviour of the expressions the agent emits: loads fill a register, a store
  to the connection mark sets the mark,
  comparisons break off the rule, \<open>drop\<close> and \<open>dnat\<close> end the evaluation, counters have no
  effect on it, a limit either passes or breaks off, and a translation takes one address and
  one port, given as a range of one or without the upper end. A rule is evaluated left to right
  and a chain rule by rule; a chain without a verdict falls back to its policy, accept.

  A packet is what the expressions can read of it: meta data, headers and the conntrack
  entry of its flow.

  Shown: a packet selected by a mapping is dropped when its source is not in the
  allowlist, and otherwise dropped by a guard or sent to exactly the mapping's target with
  the mapping's mark on its connection;
  every other packet is left alone; retirement rules drop exactly the flows they name, and
  the quarantine rules exactly the translated flows of the interface.
\<close>

unbundle bit_operations_syntax

record packet =
  pk_meta :: "meta_key \<Rightarrow> u8 list"
  pk_header :: "payload_base \<Rightarrow> u8 list"
  pk_ct :: "ct_key \<Rightarrow> u8 list"

text \<open>
  What a rule can write: its registers, and the mark of the packet's connection. The cells are
  empty when the rule starts, so an empty mark cell says that the rule has not set the mark. A
  translation carries the mark with it.
\<close>

datatype cell = Reg nat | FlowMark

type_synonym regs = "cell \<Rightarrow> u8 list"

datatype outcome = Next regs | Break | Dropped | Translate "u8 list" "u8 list"
datatype chain_verdict = AcceptV | DropV | DnatV "u8 list" "u8 list" "u8 list"

definition documented_nft :: "(expr \<Rightarrow> packet \<Rightarrow> regs \<Rightarrow> outcome) \<Rightarrow> bool" where
  "documented_nft ev \<longleftrightarrow>
     (\<forall>k r p R. ev (Meta k r False) p R = Next (R(Reg r := pk_meta p k)))
     \<and> (\<forall>r d p R. ev (Cmp CmpEq r d) p R = (if R (Reg r) = d then Next R else Break))
     \<and> (\<forall>r d p R. ev (Cmp CmpNeq r d) p R = (if R (Reg r) \<noteq> d then Next R else Break))
     \<and> (\<forall>r b off len p R. ev (PayloadLoad r b off len) p R =
          (if off + len \<le> length (pk_header p b) then Next (R(Reg r := take len (drop off (pk_header p b)))) else Break))
     \<and> (\<forall>s d len m x p R. ev (Bitwise s d len m x) p R = Next (R(Reg d := map2 (XOR) (map2 (AND) (R (Reg s)) m) x)))
     \<and> (\<forall>r d p R. ev (Immediate r d) p R = Next (R(Reg r := d)))
     \<and> (\<forall>r k dir p R. ev (Ct r False k dir False) p R = Next (R(Reg r := pk_ct p k)))
     \<and> (\<forall>r p R. ev (Ct r True CtMARK 0 False) p R = Next (R(FlowMark := R (Reg r))))
     \<and> (\<forall>b n p R. ev (Counter b n) p R = Next R)
     \<and> (\<forall>n p R. ev (Objref ObjTypeCounter n) p R = Next R)
     \<and> (\<forall>p R. ev (Verdict VerdictDrop) p R = Dropped)
     \<and> (\<forall>a a' q q' p R. a' \<in> {0, a} \<longrightarrow> q' \<in> {0, q} \<longrightarrow>
          ev (NAT DestNAT FamilyIPv4 a a' q q' False False False False) p R = Translate (R (Reg a)) (R (Reg q)))
     \<and> (\<forall>t r ov u b p R. ev (Limit t r ov u b) p R \<in> {Next R, Break})
     \<and> (\<forall>c f p R. ev (Connlimit c f) p R \<in> {Next R, Break})
     \<and> (\<forall>k d n op t i es p R. ev (Dynset k d n op t i es) p R \<in> {Next R, Break})"

fun eval_rule :: "(expr \<Rightarrow> packet \<Rightarrow> regs \<Rightarrow> outcome) \<Rightarrow> expr list \<Rightarrow> packet \<Rightarrow> regs \<Rightarrow> chain_verdict option" where
  "eval_rule ev [] p R = None"
| "eval_rule ev (e # es) p R =
     (case ev e p R of
        Next R' \<Rightarrow> eval_rule ev es p R'
      | Break \<Rightarrow> None
      | Dropped \<Rightarrow> Some DropV
      | Translate a q \<Rightarrow> Some (DnatV a q (R FlowMark)))"

fun eval_chain :: "(expr \<Rightarrow> packet \<Rightarrow> regs \<Rightarrow> outcome) \<Rightarrow> expr list list \<Rightarrow> packet \<Rightarrow> chain_verdict" where
  "eval_chain ev [] p = AcceptV"
| "eval_chain ev (rule # rules) p =
     (case eval_rule ev rule p (\<lambda>_. []) of None \<Rightarrow> eval_chain ev rules p | Some v \<Rightarrow> v)"

lemma eval_chain_append:
  "eval_chain ev (xs @ ys) p =
     (if \<forall>x\<in>set xs. eval_rule ev x p (\<lambda>_. []) = None then eval_chain ev ys p else eval_chain ev xs p)"
  by (induction xs) (auto split: option.split)

lemma eval_chain_none: "(\<forall>x\<in>set xs. eval_rule ev x p (\<lambda>_. []) = None) \<Longrightarrow> eval_chain ev xs p = AcceptV"
  by (induction xs) auto

subsection \<open>Bytes and bits\<close>

lemma length_be [simp]: "length (be16 w) = 2" "length (be32 v) = 4" "length (native32 le x) = 4"
  by (simp_all add: be16_def be32_def native32_def)

lemma ucast8_eq: "(ucast (x :: 'a::len word) :: u8) = ucast y \<longleftrightarrow> (\<forall>i<8. bit x i = bit y i)"
  by (auto simp: bit_eq_iff bit_ucast_iff)

lemma be16_inj [simp]: "be16 a = be16 b \<longleftrightarrow> a = b"
proof
  assume "be16 a = be16 b"
  then have lo: "\<And>i. i < 8 \<Longrightarrow> bit a i = bit b i" and hi: "\<And>i. i < 8 \<Longrightarrow> bit a (8 + i) = bit b (8 + i)"
    by (auto simp: be16_def ucast8_eq bit_drop_bit_eq)
  show "a = b"
  proof (rule bit_word_eqI)
    fix i assume "i < LENGTH(16)"
    then show "bit a i = bit b i" using lo[of i] hi[of "i - 8"] by (cases "i < 8") auto
  qed
qed simp

lemma be32_inj [simp]: "be32 a = be32 b \<longleftrightarrow> a = b"
proof
  assume "be32 a = be32 b"
  then have bits: "\<And>i. i < 8 \<Longrightarrow> bit a i = bit b i" "\<And>i. i < 8 \<Longrightarrow> bit a (8 + i) = bit b (8 + i)"
    "\<And>i. i < 8 \<Longrightarrow> bit a (16 + i) = bit b (16 + i)" "\<And>i. i < 8 \<Longrightarrow> bit a (24 + i) = bit b (24 + i)"
    by (auto simp: be32_def ucast8_eq bit_drop_bit_eq)
  show "a = b"
  proof (rule bit_word_eqI)
    fix i assume "i < LENGTH(32)"
    then consider "i < 8" | "8 \<le> i" "i < 16" | "16 \<le> i" "i < 24" | "24 \<le> i" "i < 32" by fastforce
    then show "bit a i = bit b i"
      using bits(1)[of i] bits(2)[of "i - 8"] bits(3)[of "i - 16"] bits(4)[of "i - 24"] by cases auto
  qed
qed simp

lemma native32_inj [simp]: "native32 le a = native32 le b \<longleftrightarrow> a = b"
  by (simp add: native32_def)

lemma be32_zero: "replicate 4 0 = be32 0"
  by (simp add: be32_def numeral_eq_Suc)

lemma native32_zero: "replicate 4 0 = native32 le 0"
  by (auto simp: native32_def be32_def numeral_eq_Suc)

lemma ucast_and: "(ucast (a AND b :: 'a::len word) :: u8) = ucast a AND ucast b"
  by (rule bit_word_eqI) (auto simp: bit_ucast_iff bit_and_iff)

lemma be32_and: "map2 (AND) (be32 a) (be32 b) = be32 (a AND b)"
  by (simp add: be32_def ucast_and drop_bit_and)

lemma native32_and: "map2 (AND) (native32 le a) (native32 le b) = native32 le (a AND b)"
  by (simp add: native32_def be32_def ucast_and drop_bit_and)

lemma xor_zeros: "length xs = n \<Longrightarrow> map2 (XOR) xs (replicate n (0::u8)) = xs"
  by (induction xs arbitrary: n) auto

subsection \<open>Selectors\<close>

text \<open>The packet comes in on the interface, with the protocol and the destination port of the mapping.\<close>

definition selects :: "string \<Rightarrow> rule \<Rightarrow> packet \<Rightarrow> bool" where
  "selects iface r p \<longleftrightarrow>
     pk_meta p MetaIIFNAME = ifname iface \<and> pk_meta p MetaL4PROTO = [proto_byte (ru_Proto r)]
     \<and> 4 \<le> length (pk_header p TransportHeader)
     \<and> take 2 (drop 2 (pk_header p TransportHeader)) = be16 (ru_PublicPort r)"

definition source_is :: "packet \<Rightarrow> u32 \<Rightarrow> bool" where
  "source_is p a \<longleftrightarrow> 16 \<le> length (pk_header p NetworkHeader) \<and> take 4 (drop 12 (pk_header p NetworkHeader)) = be32 a"

definition source_allowed :: "rule \<Rightarrow> u32 \<Rightarrow> bool" where
  "source_allowed r a = (case ru_SourcePolicy r of None \<Rightarrow> True | Some ps \<Rightarrow> \<exists>q\<in>set ps. prefix_contains q (IP4 a))"

definition translated :: "packet \<Rightarrow> bool \<Rightarrow> bool" where
  "translated p le \<longleftrightarrow> (\<exists>st. pk_ct p CtSTATUS = native32 le st \<and> bit st 5)"

lemma documentedD:
  assumes "documented_nft ev"
  shows "ev (Meta k r False) p R = Next (R(Reg r := pk_meta p k))"
    "ev (Cmp CmpEq r d) p R = (if R (Reg r) = d then Next R else Break)"
    "ev (Cmp CmpNeq r d) p R = (if R (Reg r) \<noteq> d then Next R else Break)"
    "ev (PayloadLoad r b off len) p R =
       (if off + len \<le> length (pk_header p b) then Next (R(Reg r := take len (drop off (pk_header p b)))) else Break)"
    "ev (Bitwise s r len m x) p R = Next (R(Reg r := map2 (XOR) (map2 (AND) (R (Reg s)) m) x))"
    "ev (Immediate r d) p R = Next (R(Reg r := d))"
    "ev (Ct r False ck dir False) p R = Next (R(Reg r := pk_ct p ck))"
    "ev (Ct r True CtMARK 0 False) p R = Next (R(FlowMark := R (Reg r)))"
    "ev (Counter cb cn) p R = Next R" "ev (Objref ObjTypeCounter nm) p R = Next R" "ev (Verdict VerdictDrop) p R = Dropped"
    "ev (NAT DestNAT FamilyIPv4 na 0 nq 0 False False False False) p R = Translate (R (Reg na)) (R (Reg nq))"
  using assms unfolding documented_nft_def by (blast | simp)+

lemma limits_pass:
  assumes "documented_nft ev"
  shows "ev (Limit t q ov u bb) p R = Next R \<or> ev (Limit t q ov u bb) p R = Break"
    "ev (Connlimit c f) p R = Next R \<or> ev (Connlimit c f) p R = Break"
    "ev (Dynset k d n op tt i es) p R = Next R \<or> ev (Dynset k d n op tt i es) p R = Break"
  using assms unfolding documented_nft_def by (meson insert_iff singletonD)+

lemma eval_match:
  assumes "documented_nft ev"
  shows "\<exists>R'. eval_rule ev (matchExprs iface r @ es) p R = (if selects iface r p then eval_rule ev es p R' else None)
    \<and> R' FlowMark = R FlowMark"
  by (auto simp: matchExprs_def documentedD[OF assms] selects_def)

lemma eval_not_selected:
  "documented_nft ev \<Longrightarrow> \<not> selects iface r p \<Longrightarrow> eval_rule ev (matchExprs iface r @ es) p R = None"
  using eval_match[of ev iface r es p R] by auto

text \<open>Every nat rule of a mapping starts with its selector.\<close>

lemma render_rule_selector:
  assumes "x \<in> set (render_rule le iface g r)"
  shows "\<exists>es. x = matchExprs iface r @ es"
  using assms
  by (auto simp: render_rule_def Let_def sourceDropExprs_def perSourceExprs_def guardExprs_def dnatExprs_def
      split: option.splits if_splits)

subsection \<open>The allowlist\<close>

lemma source_mask_mask4: "source_mask n = mask4 n"
  by (simp add: source_mask_def mask4_def)

lemma eval_prefix_drop:
  assumes ev: "documented_nft ev" and src: "source_is p a" and q: "canonical4 q"
  shows "\<exists>R'. eval_rule ev (prefix_drop q @ es) p R =
    (if prefix_contains q (IP4 a) then None else eval_rule ev es p R')"
proof -
  obtain b n where q': "q = Prefix (IP4 b) n" "b AND mask4 n = b"
    using q by (cases q; cases "pfx_addr q") (auto simp: canonical4_def masked_canonical4)
  have "map2 (XOR) (map2 (AND) (be32 a) (be32 (mask4 n))) (replicate 4 0) = be32 (a AND mask4 n)"
    by (simp add: be32_and xor_zeros)
  moreover have "prefix_contains q (IP4 a) \<longleftrightarrow> a AND mask4 n = b" unfolding q'(1) prefix_contains_mask4 using q'(2) by simp
  ultimately show ?thesis
    using src q'(1) by (auto simp: prefix_drop_def documentedD[OF ev] source_is_def source_mask_mask4)
qed

lemma eval_prefix_drops:
  assumes ev: "documented_nft ev" and src: "source_is p a" and "\<forall>q\<in>set ps. canonical4 q"
  shows "\<exists>R'. eval_rule ev (concat (map prefix_drop ps) @ es) p R =
    (if \<exists>q\<in>set ps. prefix_contains q (IP4 a) then None else eval_rule ev es p R')"
  using assms(3)
proof (induction ps arbitrary: R)
  case Nil
  then show ?case by auto
next
  case (Cons q ps)
  obtain R1 where R1: "eval_rule ev (prefix_drop q @ concat (map prefix_drop ps) @ es) p R =
      (if prefix_contains q (IP4 a) then None else eval_rule ev (concat (map prefix_drop ps) @ es) p R1)"
    using eval_prefix_drop[OF ev src, of q "concat (map prefix_drop ps) @ es" R] Cons.prems by auto
  from Cons.IH[of R1] Cons.prems obtain R2 where
    "eval_rule ev (concat (map prefix_drop ps) @ es) p R1 =
      (if \<exists>q\<in>set ps. prefix_contains q (IP4 a) then None else eval_rule ev es p R2)" by auto
  with R1 show ?case by (intro exI[of _ R2]) auto
qed

lemma eval_source_drop:
  assumes "documented_nft ev" "source_is p a" "selects iface r p" "ru_SourcePolicy r = Some ps" "\<forall>q\<in>set ps. canonical4 q"
    and "sourceDropExprs iface r = Some acl"
  shows "eval_rule ev acl p R = (if source_allowed r a then None else Some DropV)"
proof -
  have acl: "acl = matchExprs iface r @ concat (map prefix_drop ps) @ [Counter 0 0, Verdict VerdictDrop]"
    using assms(4,6) by (simp add: sourceDropExprs_def)
  obtain R1 where "eval_rule ev acl p R = eval_rule ev (concat (map prefix_drop ps) @ [Counter 0 0, Verdict VerdictDrop]) p R1"
    using eval_match[OF assms(1), of iface r "concat (map prefix_drop ps) @ [Counter 0 0, Verdict VerdictDrop]" p R] assms(3)
    unfolding acl by auto
  moreover obtain R2 where "eval_rule ev (concat (map prefix_drop ps) @ [Counter 0 0, Verdict VerdictDrop]) p R1 =
      (if \<exists>q\<in>set ps. prefix_contains q (IP4 a) then None else eval_rule ev [Counter 0 0, Verdict VerdictDrop] p R2)"
    using eval_prefix_drops[OF assms(1,2,5)] by blast
  ultimately show ?thesis using assms(4) by (simp add: documentedD[OF assms(1)] source_allowed_def)
qed

subsection \<open>The nat chain\<close>

lemma eval_limits:
  assumes "documented_nft ev"
  shows "eval_rule ev (perSourceExprs iface r rate burst) p R \<in> {None, Some DropV}"
    "eval_rule ev (guardExprs iface r (Limit LimitPkts q True LimitSecond b) sfx) p R \<in> {None, Some DropV}"
    "eval_rule ev (guardExprs iface r (Connlimit c f) sfx) p R \<in> {None, Some DropV}"
proof -
  note d = documentedD[OF assms]
  let ?ps = "Dynset 1 0 (setName (ru_MappingID r)) dynsetOpUpdate perSourceTimeout False [Limit LimitPkts rate True LimitSecond burst]"
  have tail: "eval_rule ev [l, objrefCounter i s, Verdict VerdictDrop] p R' \<in> {None, Some DropV}"
    if "ev l p R' = Next R' \<or> ev l p R' = Break" for l i s R'
    using that by (auto simp: d objrefCounter_def)
  have "eval_rule ev ([PayloadLoad 1 NetworkHeader 12 4] @ [?ps, objrefCounter (ru_MappingID r) ''pd'', Verdict VerdictDrop]) p R'
      \<in> {None, Some DropV}" for R'
    using tail[OF limits_pass(3)[OF assms]] by (auto simp: d)
  then show "eval_rule ev (perSourceExprs iface r rate burst) p R \<in> {None, Some DropV}"
    using eval_match[OF assms] unfolding perSourceExprs_def by (metis append_Cons append_Nil insertCI)
  show "eval_rule ev (guardExprs iface r (Limit LimitPkts q True LimitSecond b) sfx) p R \<in> {None, Some DropV}"
    using eval_match[OF assms] tail[OF limits_pass(1)[OF assms]] unfolding guardExprs_def by (metis insertCI)
  show "eval_rule ev (guardExprs iface r (Connlimit c f) sfx) p R \<in> {None, Some DropV}"
    using eval_match[OF assms] tail[OF limits_pass(2)[OF assms]] unfolding guardExprs_def by (metis insertCI)
qed

text \<open>The mark a mapping puts on its connections, none for the mark 0.\<close>

definition mark_bytes :: "bool \<Rightarrow> u32 \<Rightarrow> u8 list" where
  "mark_bytes le k = (if k = 0 then [] else native32 le k)"

abbreviation dnat_verdict :: "bool \<Rightarrow> rule \<Rightarrow> chain_verdict" where
  "dnat_verdict le r \<equiv> DnatV (be32 (ru_Target r)) (be16 (ru_TargetPort r)) (mark_bytes le (ru_FlowMark r))"

lemma eval_dnat:
  assumes "documented_nft ev" "selects iface r p" "R FlowMark = []"
  shows "eval_rule ev (dnatExprs le iface r) p R = Some (dnat_verdict le r)"
proof -
  have tail: "eval_rule ev ((if ru_FlowMark r \<noteq> 0 then [Immediate 1 (native32 le (ru_FlowMark r)), Ct 1 True CtMARK 0 False] else [])
     @ [objrefCounter (ru_MappingID r) ''new'', Immediate 1 (be32 (ru_Target r)), Immediate 2 (be16 (ru_TargetPort r)),
        NAT DestNAT FamilyIPv4 1 0 2 0 False False False False]) p R' = Some (dnat_verdict le r)"
    if "R' FlowMark = []" for R'
    using that by (auto simp: documentedD[OF assms(1)] objrefCounter_def mark_bytes_def)
  show ?thesis unfolding dnatExprs_def using eval_match[OF assms(1)] assms(2,3) tail by metis
qed

lemma eval_chain_guarded:
  assumes "\<forall>x\<in>set xs. eval_rule ev x p (\<lambda>_. []) \<in> {None, Some DropV}" "eval_rule ev y p (\<lambda>_. []) = Some v"
  shows "eval_chain ev (xs @ y # ys) p \<in> {DropV, v}"
  using assms(1) by (induction xs) (auto simp: assms(2))

definition no_guards :: "guards \<Rightarrow> bool" where
  "no_guards g \<longleftrightarrow> g_PerSourceRate g = 0 \<and> g_NewConnRate g = 0 \<and> g_MaxConn g = 0"

definition policy_canonical :: "rule \<Rightarrow> bool" where
  "policy_canonical r \<longleftrightarrow> (\<forall>ps. ru_SourcePolicy r = Some ps \<longrightarrow> (\<forall>q\<in>set ps. canonical4 q))"

text \<open>What the nat chain may answer for a packet that a mapping selects.\<close>

definition mapping_verdict :: "bool \<Rightarrow> guards \<Rightarrow> rule \<Rightarrow> u32 \<Rightarrow> chain_verdict \<Rightarrow> bool" where
  "mapping_verdict le g r a v \<longleftrightarrow>
     (if source_allowed r a then v \<in> {DropV, dnat_verdict le r} \<and> (no_guards (effectiveGuards r g) \<longrightarrow> v = dnat_verdict le r)
      else v = DropV)"

lemma eval_block:
  assumes ev: "documented_nft ev" and sel: "selects iface r p" and src: "source_is p a" and can: "policy_canonical r"
  shows "mapping_verdict le g r a (eval_chain ev (render_rule le iface g r @ rest) p)"
proof -
  let ?eff = "effectiveGuards r g"
  define acl where "acl = (case sourceDropExprs iface r of None \<Rightarrow> [] | Some x \<Rightarrow> [x])"
  define limits where "limits = (if g_PerSourceRate ?eff > 0 then [perSourceExprs iface r (g_PerSourceRate ?eff) (g_PerSourceBurst ?eff)] else [])
         @ (if g_NewConnRate ?eff > 0
            then [guardExprs iface r (Limit LimitPkts (g_NewConnRate ?eff) True LimitSecond (g_NewConnBurst ?eff)) ''rd''] else [])
         @ (if g_MaxConn ?eff > 0 then [guardExprs iface r (Connlimit (g_MaxConn ?eff) connlimitInv) ''cd''] else [])"
  have chain: "render_rule le iface g r @ rest = acl @ limits @ dnatExprs le iface r # rest"
    by (simp add: render_rule_def acl_def limits_def Let_def)
  have none: "no_guards ?eff \<longrightarrow> limits = []" by (simp add: limits_def no_guards_def)
  have lim: "\<forall>x\<in>set limits. eval_rule ev x p (\<lambda>_. []) \<in> {None, Some DropV}"
    by (simp add: limits_def ball_Un eval_limits[OF ev] del: insert_iff)
  note dnat = eval_dnat[OF ev sel, of "\<lambda>_. []" le, OF refl]
  have acl_none: "eval_rule ev x p (\<lambda>_. []) = (if source_allowed r a then None else Some DropV)" if "x \<in> set acl" for x
    using that can eval_source_drop[OF ev src sel] unfolding acl_def policy_canonical_def
    by (cases "ru_SourcePolicy r") (auto simp: sourceDropExprs_def)
  have rest: "eval_chain ev (limits @ dnatExprs le iface r # rest) p \<in> {DropV, dnat_verdict le r}"
    using eval_chain_guarded[OF lim dnat] by blast
  show ?thesis
  proof (cases "source_allowed r a")
    case True
    then have "eval_chain ev (acl @ limits @ dnatExprs le iface r # rest) p = eval_chain ev (limits @ dnatExprs le iface r # rest) p"
      using acl_none by (simp add: eval_chain_append)
    with rest none dnat True show ?thesis unfolding chain mapping_verdict_def by auto
  next
    case False
    then obtain x where "acl = [x]"
      by (auto simp: source_allowed_def acl_def sourceDropExprs_def split: option.splits)
    with acl_none[of x] False show ?thesis unfolding chain mapping_verdict_def by simp
  qed
qed

lemma eval_chain_skip:
  assumes "documented_nft ev" "\<forall>r\<in>set rules. \<not> selects iface r p"
  shows "eval_chain ev (renderRules le iface rules g @ rest) p = eval_chain ev rest p"
proof -
  have "eval_rule ev x p (\<lambda>_. []) = None" if x: "x \<in> set (renderRules le iface rules g)" for x
  proof -
    from x obtain r where "r \<in> set rules" "x \<in> set (render_rule le iface g r)" by (auto simp: renderRules_def)
    with render_rule_selector[of x le iface g r] assms eval_not_selected show ?thesis by force
  qed
  then show ?thesis by (simp add: eval_chain_append)
qed

lemma selects_unique:
  assumes "selects iface r p" "selects iface r' p"
  shows "proto_byte (ru_Proto r) = proto_byte (ru_Proto r')" "ru_PublicPort r = ru_PublicPort r'"
  using assms by (auto simp: selects_def)

lemma nat_chain_selected:
  assumes "documented_nft ev" "distinct (map (\<lambda>r. (proto_byte (ru_Proto r), ru_PublicPort r)) rules)"
    and "r \<in> set rules" "selects iface r p" "source_is p a" "policy_canonical r"
  shows "mapping_verdict le g r a (eval_chain ev (renderRules le iface rules g) p)"
proof -
  from assms(3) obtain xs ys where split: "rules = xs @ r # ys" by (meson split_list)
  have "\<not> selects iface x p" if "x \<in> set xs" for x
    using selects_unique[OF assms(4), of x] assms(2) that by (force simp: split)
  then have "eval_chain ev (renderRules le iface rules g) p
      = eval_chain ev (render_rule le iface g r @ renderRules le iface ys g) p"
    using eval_chain_skip[OF assms(1), of xs iface p le g "render_rule le iface g r @ renderRules le iface ys g"]
    by (simp add: split renderRules_def)
  with eval_block[OF assms(1,4,5,6)] show ?thesis by simp
qed

lemma stable_canonical:
  assumes "policy_stable (Some ps)"
  shows "\<forall>q\<in>set ps. canonical4 q"
proof -
  from assms have "policy_UnmarshalJSON (policy_MarshalJSON (Some ps)) = Inr (Some ps)" by (simp add: policy_stable_def)
  from policy_UnmarshalJSON_parse[OF this] obtain cidrs where "policy_Parse (Some cidrs) = Inr (Some ps)" by blast
  from policy_Parse_props[OF this] show ?thesis by auto
qed

lemma proto_byte_inj: "p \<in> {ProtoTCP, ProtoUDP} \<Longrightarrow> q \<in> {ProtoTCP, ProtoUDP} \<Longrightarrow> proto_byte p = proto_byte q \<longleftrightarrow> p = q"
  by (auto simp: proto_byte_def ProtoTCP_def ProtoUDP_def protoTCP_def protoUDP_def)

text \<open>What parsing and planning give for the mappings of a snapshot.\<close>

lemma parsed_rules:
  assumes "Parse pt body lim = Inr s" "s_Mappings s = Some ms"
  shows "Plan s = Some (map rule_of ms)"
    "distinct (map (\<lambda>r. (proto_byte (ru_Proto r), ru_PublicPort r)) (map rule_of ms))"
    "m \<in> set ms \<Longrightarrow> plan_rule m = Some (rule_of m) \<and> policy_canonical (rule_of m)
        \<and> target_addr m = Some (IP4 (ru_Target (rule_of m)))"
proof -
  note wf = Parse_wf[OF assms(1)]
  show "Plan s = Some (map rule_of ms)" using Plan_wf[OF wf(1,3)] assms(2) by simp
  have wfm: "wf_mapping lim (s_Retirements s \<noteq> None) m" if "m \<in> set ms" for m
    using wf(1) assms(2) that by (auto simp: wf_snapshot_def)
  have tgt: "m_target m = target_addr m" if "m \<in> set ms" for m
    using wf(3) assms(2) that by (intro with_targets_mem) simp_all
  have plan: "plan_rule m = Some (rule_of m)" "target_addr m = Some (IP4 (ru_Target (rule_of m)))" if "m \<in> set ms" for m
    using plan_rule_wf[OF wfm[OF that] tgt[OF that]] by auto
  have "policy_canonical (rule_of m)" if "m \<in> set ms" for m
    using wf(2) assms(2) that stable_canonical rule_of_simps(5)[OF plan(1)[OF that]]
    by (auto simp: json_ranges_def policy_canonical_def)
  with plan show "m \<in> set ms \<Longrightarrow> plan_rule m = Some (rule_of m) \<and> policy_canonical (rule_of m)
        \<and> target_addr m = Some (IP4 (ru_Target (rule_of m)))" by blast
  have proto: "m_Proto m \<in> {ProtoTCP, ProtoUDP}" if "m \<in> set ms" for m
    using wfm[OF that] by (simp add: wf_mapping_def)
  have "distinct (map (\<lambda>m. (m_Proto m, m_PublicPort m)) ms)" using wf(1) assms(2) by (auto simp: wf_snapshot_def)
  then have "distinct (map (\<lambda>m. (proto_byte (m_Proto m), m_PublicPort m)) ms)"
    using proto_byte_inj[OF proto proto] by (auto simp: distinct_map inj_on_def)
  moreover have "map (\<lambda>m. (proto_byte (m_Proto m), m_PublicPort m)) ms
      = map (\<lambda>r. (proto_byte (ru_Proto r), ru_PublicPort r)) (map rule_of ms)"
    using rule_of_simps(2,3)[OF plan(1)] by simp
  ultimately show "distinct (map (\<lambda>r. (proto_byte (ru_Proto r), ru_PublicPort r)) (map rule_of ms))" by simp
qed

subsection \<open>The forward chain\<close>

lemma and_status: "(st AND ctStatusDNAT = 0) \<longleftrightarrow> \<not> bit st 5" for st :: u32
proof -
  have eq: "ctStatusDNAT = push_bit 5 1" by (simp add: ctStatusDNAT_def push_bit_eq_mult)
  have "bit ctStatusDNAT n \<longleftrightarrow> n = 5" for n
    unfolding eq bit_push_bit_iff bit_1_iff by auto
  then show ?thesis by (subst bit_eq_iff) (auto simp: bit_and_iff dest: spec[of _ "5::nat"])
qed

lemma eval_dnatMask:
  assumes "documented_nft ev" "pk_ct p CtSTATUS = native32 le st"
  shows "\<exists>R'. eval_rule ev (dnatMask le @ es) p R = (if bit st 5 then eval_rule ev es p R' else None)"
proof -
  have "map2 (XOR) (map2 (AND) (native32 le st) (native32 le ctStatusDNAT)) (replicate 4 0) = native32 le (st AND ctStatusDNAT)"
    by (simp add: native32_and xor_zeros)
  moreover have "native32 le (st AND ctStatusDNAT) = replicate 4 0 \<longleftrightarrow> \<not> bit st 5"
    unfolding native32_zero[of le] by (simp add: and_status)
  ultimately show ?thesis using assms(2) by (auto simp: dnatMask_def documentedD[OF assms(1)])
qed

text \<open>The flow of the packet was made by the retired mapping and crosses the interface.\<close>

definition retired_flow :: "bool \<Rightarrow> string \<Rightarrow> retirement \<Rightarrow> packet \<Rightarrow> bool" where
  "retired_flow le iface r p \<longleftrightarrow>
     pk_meta p MetaL4PROTO = [proto_byte (r_Proto r)] \<and> pk_ct p CtMARK = native32 le (r_FlowMark r)
     \<and> pk_ct p CtPROTODST = be16 (r_PublicPort r)"

definition crosses :: "string \<Rightarrow> packet \<Rightarrow> bool" where
  "crosses iface p \<longleftrightarrow> pk_meta p MetaIIFNAME = ifname iface \<or> pk_meta p MetaOIFNAME = ifname iface"

lemma eval_retirement_drop:
  assumes "documented_nft ev" "pk_ct p CtSTATUS = native32 le st"
  shows "eval_rule ev (retirementDropExprs le iface r d) p R =
    (if pk_meta p d = ifname iface \<and> retired_flow le iface r p \<and> bit st 5 then Some DropV else None)"
proof -
  have "eval_rule ev (dnatMask le @ [Verdict VerdictDrop]) p R' = (if bit st 5 then Some DropV else None)" for R'
    using eval_dnatMask[OF assms, of "[Verdict VerdictDrop]" R'] by (auto simp: documentedD[OF assms(1)])
  then show ?thesis by (simp add: retirementDropExprs_def documentedD[OF assms(1)] retired_flow_def)
qed

lemma eval_forward_count:
  assumes "documented_nft ev" "pk_ct p CtSTATUS = native32 le st"
  shows "eval_rule ev (forwardCountExprs le iface r d sfx) p R = None"
proof -
  have "eval_rule ev (dnatMask le @ [objrefCounter (ru_MappingID r) sfx]) p R' = None" for R'
    using eval_dnatMask[OF assms, of "[objrefCounter (ru_MappingID r) sfx]" R']
    by (auto simp: documentedD[OF assms(1)] objrefCounter_def)
  then show ?thesis by (simp add: forwardCountExprs_def documentedD[OF assms(1)])
qed

lemma eval_chain_drops:
  assumes "\<forall>x\<in>set xs. eval_rule ev x p (\<lambda>_. []) \<in> {None, Some DropV}"
  shows "eval_chain ev xs p = (if \<exists>x\<in>set xs. eval_rule ev x p (\<lambda>_. []) = Some DropV then DropV else AcceptV)"
  using assms by (induction xs) auto

lemma eval_quarantine_drop:
  assumes "documented_nft ev" "pk_ct p CtSTATUS = native32 le st"
  shows "eval_rule ev (quarantineDropExprs le iface d) p R = (if pk_meta p d = ifname iface \<and> bit st 5 then Some DropV else None)"
proof -
  have "eval_rule ev (dnatMask le @ [Verdict VerdictDrop]) p R' = (if bit st 5 then Some DropV else None)" for R'
    using eval_dnatMask[OF assms, of "[Verdict VerdictDrop]" R'] by (auto simp: documentedD[OF assms(1)])
  then show ?thesis by (simp add: quarantineDropExprs_def documentedD[OF assms(1)])
qed

subsection \<open>An evaluator, for witnesses\<close>

fun model_ev :: "expr \<Rightarrow> packet \<Rightarrow> regs \<Rightarrow> outcome" where
  "model_ev (Meta k r src) p R = Next (if src then R else R(Reg r := pk_meta p k))"
| "model_ev (Cmp op r d) p R =
     (case op of CmpEq \<Rightarrow> if R (Reg r) = d then Next R else Break | CmpNeq \<Rightarrow> if R (Reg r) \<noteq> d then Next R else Break | _ \<Rightarrow> Break)"
| "model_ev (Payload opt r sr b off len ct co cf) p R =
     (if off + len \<le> length (pk_header p b) then Next (R(Reg r := take len (drop off (pk_header p b)))) else Break)"
| "model_ev (Bitwise s d len m x) p R = Next (R(Reg d := map2 (XOR) (map2 (AND) (R (Reg s)) m) x))"
| "model_ev (Immediate r d) p R = Next (R(Reg r := d))"
| "model_ev (Ct r src k dir opt) p R =
     Next (if src then (if k = CtMARK then R(FlowMark := R (Reg r)) else R) else R(Reg r := pk_ct p k))"
| "model_ev (Counter b n) p R = Next R"
| "model_ev (Objref t n) p R = Next R"
| "model_ev (Verdict k) p R = (case k of VerdictDrop \<Rightarrow> Dropped | _ \<Rightarrow> Break)"
| "model_ev (NAT t f a amax q qmax rnd frnd pers pfx) p R = Translate (R (Reg a)) (R (Reg q))"
| "model_ev (Limit t r ov u b) p R = Break"
| "model_ev (Connlimit c f) p R = Break"
| "model_ev (Dynset k d n op t i es) p R = Break"
| "model_ev (OtherExpr s) p R = Break"

lemma model_ev_documented: "documented_nft model_ev"
  by (simp add: documented_nft_def)

definition example_packet :: packet where
  "example_packet = \<lparr>pk_meta = (\<lambda>k. if k = MetaL4PROTO then [6] else ifname ''eth0''),
     pk_header = (\<lambda>b. if b = NetworkHeader then replicate 12 0 @ be32 0xc6336407 @ replicate 4 0 else [0, 0, 0x30, 0x39]),
     pk_ct = (\<lambda>k. case k of CtMARK \<Rightarrow> native32 True 7 | CtPROTODST \<Rightarrow> be16 12345 | _ \<Rightarrow> native32 True 0x20)\<rparr>"

subsection \<open>Properties\<close>

text \<open>A change of the bursts of a rule changes neither what it selects nor what it declares.\<close>

definition burst_only :: "(rule \<Rightarrow> rule) \<Rightarrow> bool" where
  "burst_only f \<longleftrightarrow> (\<forall>r. \<exists>nb pb. f r = r\<lparr>ru_NewConnBurst := nb, ru_PerSourceBurst := pb\<rparr>)"

lemma burst_only_facts:
  assumes "burst_only f"
  shows "selects iface (f r) p = selects iface r p" "mapping_verdict le g (f r) a v = mapping_verdict le g r a v"
    "policy_canonical (f r) = policy_canonical r" "ru_Proto (f r) = ru_Proto r" "ru_PublicPort (f r) = ru_PublicPort r"
    "ru_MappingID (f r) = ru_MappingID r"
proof -
  obtain nb pb where f: "f r = r\<lparr>ru_NewConnBurst := nb, ru_PerSourceBurst := pb\<rparr>" using assms unfolding burst_only_def by blast
  show "selects iface (f r) p = selects iface r p" "mapping_verdict le g (f r) a v = mapping_verdict le g r a v"
    "policy_canonical (f r) = policy_canonical r" "ru_Proto (f r) = ru_Proto r" "ru_PublicPort (f r) = ru_PublicPort r"
    "ru_MappingID (f r) = ru_MappingID r"
    by (simp_all add: f selects_def mapping_verdict_def source_allowed_def no_guards_def effectiveGuards_def policy_canonical_def)
qed

lemma burst_only_id: "burst_only (\<lambda>r. r)"
  unfolding burst_only_def
proof
  fix r :: rule
  show "\<exists>nb pb. r = r\<lparr>ru_NewConnBurst := nb, ru_PerSourceBurst := pb\<rparr>"
    by (rule exI[of _ "ru_NewConnBurst r"], rule exI[of _ "ru_PerSourceBurst r"]) simp
qed

lemma nat_chain_declared:
  assumes "documented_nft ev" "Parse pt body lim = Inr s" "s_Mappings s = Some ms" "m \<in> set ms"
    and "selects iface (rule_of m) p" "source_is p a" "burst_only f"
  shows "\<exists>t. Plan s = Some (map rule_of ms) \<and> ParseAddr (m_TargetAddr m) = Some (IP4 t)
    \<and> (let v = eval_chain ev (renderRules le iface (map (\<lambda>m. f (rule_of m)) ms) g) p;
          dnat = DnatV (be32 t) (be16 (m_TargetPort m)) (mark_bytes le (valueOrZero (m_FlowMark m)))
       in if (case m_SourcePolicy m of None \<Rightarrow> True | Some ps \<Rightarrow> \<exists>q\<in>set ps. prefix_contains q (IP4 a))
          then v \<in> {DropV, dnat} \<and> (no_guards (effectiveGuards (rule_of m) g) \<longrightarrow> v = dnat)
          else v = DropV)"
proof -
  note rules = parsed_rules[OF assms(2,3)]
  note f = burst_only_facts[OF assms(7)]
  from rules(3)[OF assms(4)] have plan: "plan_rule m = Some (rule_of m)" "policy_canonical (rule_of m)"
    "target_addr m = Some (IP4 (ru_Target (rule_of m)))" by blast+
  let ?rules = "map (\<lambda>m. f (rule_of m)) ms"
  have "distinct (map (\<lambda>r. (proto_byte (ru_Proto r), ru_PublicPort r)) ?rules)" using rules(2) by (simp add: f o_def)
  moreover have "f (rule_of m) \<in> set ?rules" using assms(4) by simp
  ultimately have "mapping_verdict le g (rule_of m) a (eval_chain ev (renderRules le iface ?rules g) p)"
    using nat_chain_selected[OF assms(1), of ?rules "f (rule_of m)" iface p a le g] assms(5,6) plan(2) by (simp only: f)
  then show ?thesis
    using rules(1) plan(3) rule_of_simps(4-6)[OF plan(1)]
    by (intro exI[of _ "ru_Target (rule_of m)"])
      (auto simp: target_addr_def mapping_verdict_def source_allowed_def Let_def split: if_splits)
qed

text \<open>
  C8: on a host whose kernel evaluates expressions as documented, the nat chain applied for a
  parsed snapshot does what the mapping that selects a packet declares: a source outside its
  allowlist is dropped; an allowed source is translated to exactly the declared target
  address and port, its connection carrying the mapping's flow mark, unless a rate or connection guard drops it, and is always translated when
  the mapping has no guard in effect.
\<close>

theorem nat_chain_as_declared:
  assumes "documented_nft ev" "Parse pt body lim = Inr s" "s_Mappings s = Some ms" "m \<in> set ms"
    and "selects iface (rule_of m) p" "source_is p a"
  shows "\<exists>rules t. Plan s = Some rules \<and> ParseAddr (m_TargetAddr m) = Some (IP4 t)
    \<and> (let v = eval_chain ev (renderRules le iface rules g) p; dnat = DnatV (be32 t) (be16 (m_TargetPort m)) (mark_bytes le (valueOrZero (m_FlowMark m)))
       in if (case m_SourcePolicy m of None \<Rightarrow> True | Some ps \<Rightarrow> \<exists>q\<in>set ps. prefix_contains q (IP4 a))
          then v \<in> {DropV, dnat} \<and> (no_guards (effectiveGuards (rule_of m) g) \<longrightarrow> v = dnat)
          else v = DropV)"
  using nat_chain_declared[OF assms burst_only_id, of le g] by auto

lemma example_packet_facts:
  "source_is example_packet 0xc6336407" "plan_rule m = Some r \<Longrightarrow> m_Proto m = ''tcp'' \<Longrightarrow> m_PublicPort m = 12345 \<Longrightarrow>
     selects ''eth0'' r example_packet"
  by (simp_all add: source_is_def example_packet_def selects_def rule_of_simps be16_def proto_byte_def ProtoUDP_def protoTCP_def)

lemma nat_chain_as_declared_witness:
  "\<exists>s m rules t. s_Mappings s = Some [m] \<and> Plan s = Some rules \<and> ParseAddr (m_TargetAddr m) = Some (IP4 t)
    \<and> eval_chain model_ev (renderRules True ''eth0'' rules \<lparr>g_MaxConn = 0, g_NewConnRate = 0, g_NewConnBurst = 0,
         g_PerSourceRate = 0, g_PerSourceBurst = 0\<rparr>) example_packet = DnatV (be32 t) (be16 8080) (native32 True 7)"
proof -
  let ?m = "example_marked\<lparr>m_target := target_addr example_marked\<rparr>"
  let ?g = "\<lparr>g_MaxConn = 0, g_NewConnRate = 0, g_NewConnBurst = 0, g_PerSourceRate = 0, g_PerSourceBurst = 0\<rparr>"
  obtain body s where s: "Parse parse_int body example_limits = Inr s" "s_Mappings s = Some [?m]"
    using example_parse_managed by blast
  have plan: "plan_rule ?m = Some (rule_of ?m)" using parsed_rules(3)[OF s, of ?m] by simp
  then have sel: "selects ''eth0'' (rule_of ?m) example_packet"
    by (rule example_packet_facts(2)) (simp_all add: example_marked_def example_mapping_def)
  have "no_guards (effectiveGuards (rule_of ?m) ?g)"
    using plan by (auto simp: plan_rule_def no_guards_def effectiveGuards_def override_def example_marked_def
        example_mapping_def mapping_zero_def rule_of_def)
  moreover have "m_SourcePolicy ?m = None" "m_TargetPort ?m = 8080" "mark_bytes True (valueOrZero (m_FlowMark ?m)) = native32 True 7"
    by (simp_all add: example_marked_def example_mapping_def mapping_zero_def mark_bytes_def valueOrZero_def)
  ultimately show ?thesis
    using nat_chain_as_declared[OF model_ev_documented s _ sel example_packet_facts(1), of True ?g]
    by (intro exI[of _ s] exI[of _ ?m]) (auto simp: Let_def s(2))
qed

text \<open>
  The nat chain leaves every packet alone that no mapping of the snapshot selects.
\<close>

theorem nat_chain_leaves_others:
  assumes "documented_nft ev" "Plan s = Some rules" "\<forall>r\<in>set rules. \<not> selects iface r p"
  shows "eval_chain ev (renderRules le iface rules g) p = AcceptV"
  using eval_chain_skip[OF assms(1,3), of le g "[]"] by simp

lemma nat_chain_leaves_others_witness:
  "eval_chain model_ev (renderRules True ''eth0'' [] \<lparr>g_MaxConn = 0, g_NewConnRate = 0, g_NewConnBurst = 0,
         g_PerSourceRate = 0, g_PerSourceBurst = 0\<rparr>) example_packet = AcceptV"
proof -
  have "Plan (snapshot_zero\<lparr>s_Mappings := Some []\<rparr>) = Some []" by (simp add: Plan_def)
  from nat_chain_leaves_others[OF model_ev_documented this] show ?thesis by simp
qed

lemma forward_chain_verdict:
  assumes "documented_nft ev" "pk_ct p CtSTATUS = native32 le st"
  shows "eval_chain ev (renderForwardRules le iface rules @ retirement_rules le iface rets) p =
    (if bit st 5 \<and> crosses iface p \<and> (\<exists>r\<in>set rets. retired_flow le iface r p) then DropV else AcceptV)"
proof -
  note ret = eval_retirement_drop[OF assms]
  have none: "\<forall>x\<in>set (renderForwardRules le iface rules). eval_rule ev x p (\<lambda>_. []) = None"
    using eval_forward_count[OF assms] by (auto simp: renderForwardRules_def)
  have "\<forall>x\<in>set (retirement_rules le iface rets). eval_rule ev x p (\<lambda>_. []) \<in> {None, Some DropV}"
    by (auto simp: retirement_rules_def ret)
  from eval_chain_drops[OF this] none show ?thesis
    by (auto simp: eval_chain_append retirement_rules_def both_directions_def ret crosses_def split: if_splits)
qed

text \<open>
  C23: the forward chain drops a packet exactly when its flow was made by a retired mapping
  (its protocol, connection mark and original destination port), was translated and crosses
  the public interface in either direction; the counting rules before give no verdict.
\<close>

theorem forward_chain_drops_retired:
  assumes "documented_nft ev" "pk_ct p CtSTATUS = native32 le st"
  shows "eval_chain ev (renderForwardRules le iface rules @ retirement_rules le iface rets) p =
    (if bit st 5 \<and> crosses iface p \<and> (\<exists>r\<in>set rets. retired_flow le iface r p) then DropV else AcceptV)"
  by (rule forward_chain_verdict[OF assms])

lemma forward_chain_drops_retired_witness:
  "eval_chain model_ev (renderForwardRules True ''eth0'' [] @ retirement_rules True ''eth0'' [example_retirement]) example_packet = DropV"
proof -
  have ct: "pk_ct example_packet CtSTATUS = native32 True 0x20" by (simp add: example_packet_def)
  show ?thesis
    unfolding forward_chain_drops_retired[OF model_ev_documented ct]
    by (simp add: crosses_def retired_flow_def example_packet_def example_retirement_def proto_byte_def protoTCP_def ProtoUDP_def)
qed

text \<open>
  Under quarantine every translated flow that crosses the public interface is dropped, in
  both directions, and nothing else is.
\<close>

theorem quarantine_drops_translated:
  assumes "documented_nft ev" "pk_ct p CtSTATUS = native32 le st"
  shows "eval_chain ev (map (quarantineDropExprs le iface) both_directions) p =
    (if bit st 5 \<and> crosses iface p then DropV else AcceptV)"
  by (auto simp: both_directions_def eval_quarantine_drop[OF assms] crosses_def)

lemma quarantine_drops_translated_witness:
  "eval_chain model_ev (map (quarantineDropExprs True ''eth0'') both_directions) example_packet = DropV"
proof -
  have ct: "pk_ct example_packet CtSTATUS = native32 True 0x20" by (simp add: example_packet_def)
  show ?thesis
    unfolding quarantine_drops_translated[OF model_ev_documented ct]
    by (simp add: crosses_def example_packet_def)
qed

end
