(* ===== verification/Nft_Control.thy ===== *)
theory Nft_Control
  imports Nft_Semantics
begin

text \<open>
  \<open>internal/nftctl\<close>, the part that talks to the kernel.

  The netlink library and the kernel are the record \<open>nft\<close> of parameters over a world \<open>'w\<close>:
  opening a connection, flushing a batch, and the read calls. A call of \<open>conn.AddTable\<close>,
  \<open>AddChain\<close>, \<open>AddObj\<close>, \<open>AddSet\<close> or \<open>AddRule\<close> appends to the batch and \<open>Flush\<close> sends
  it as one unit, so an apply is the list of operations it queues and one flush. \<open>AddSet\<close>
  may fail before anything is sent. Read calls do not change the world.

  \<open>kernel_commits\<close> is the documented behaviour of a successful flush that the agent relies
  on when it reads its own table back: the rules come back in order, as the kernel reports
  them (\<open>echoes\<close>), which is not always as they were queued. \<open>run_batch\<close> is a reference for
  what a batch does to the tables of the host.
\<close>

datatype chain_type = ChainNAT | ChainFilter | OtherChainType string
datatype chain_hook = HookPrerouting | HookForward | OtherHook nat
datatype chain_priority = PriorityNATDest | PriorityFilter | OtherPriority int
datatype chain_policy = PolicyAccept | PolicyOther nat
datatype set_key = KeyIPAddr | OtherKey string

type_synonym table = "family \<times> string"

definition TableName :: string where "TableName = ''pickle_relay_dnat''"
definition chainName :: string where "chainName = ''prerouting''"
definition fwdChainName :: string where "fwdChainName = ''forward''"

definition own_table :: table where
  "own_table = (FamilyIPv4, TableName)"

record chain =
  ch_Name :: string
  ch_Table :: "table option"
  ch_Type :: chain_type
  ch_Hook :: "chain_hook option"
  ch_Priority :: "chain_priority option"
  ch_Policy :: "chain_policy option"

record nl_rule =
  nr_Table :: table
  nr_Chain :: string
  nr_Exprs :: "expr list"
  nr_UserData :: string

record nl_set =
  ns_Name :: string
  ns_KeyType :: set_key
  ns_Dynamic :: bool
  ns_HasTimeout :: bool
  ns_Timeout :: int
  ns_Size :: nat

datatype nl_obj = CounterObj string u64 u64 | OtherObj string

datatype nl_op =
    AddTable table
  | DelTable table
  | AddChain chain
  | AddObj table nl_obj
  | AddSet table nl_set
  | AddRule nl_rule

record 'w nft =
  nf_New :: "'w \<Rightarrow> string option"
  nf_AddSet :: "nl_set \<Rightarrow> string option"
  nf_Flush :: "nl_op list \<Rightarrow> 'w \<Rightarrow> string option \<times> 'w"
  nf_ListTables :: "'w \<Rightarrow> (string, string list) result"
  nf_ListChains :: "'w \<Rightarrow> (string, chain list) result"
  nf_GetRules :: "string \<Rightarrow> 'w \<Rightarrow> (string, nl_rule list) result"
  nf_GetSets :: "'w \<Rightarrow> (string, nl_set list) result"
  nf_GetObjects :: "'w \<Rightarrow> (string, nl_obj list) result"
  nf_little :: bool
  nf_key :: "meta_key \<Rightarrow> int"

datatype nft_error =
    OpenNetlink string
  | AddSetFailed string string
  | FlushFailed string
  | ReadFailedNft string
  | ChainCount nat
  | ChainDiffers
  | RuleCountDiffers
  | NatRuleDiffers nat
  | FwdRuleDiffers nat
  | SetCountDiffers
  | SetDiffers string
  | ActiveMissing int
  | RetirementMissing string
  | UnexpectedRule
  | QuarantineCount
  | QuarantineDiffers

subsection \<open>Batches\<close>

definition perSourceSet :: "int \<Rightarrow> nl_set" where
  "perSourceSet i = \<lparr>ns_Name = setName i, ns_KeyType = KeyIPAddr, ns_Dynamic = True, ns_HasTimeout = True,
     ns_Timeout = perSourceTimeout, ns_Size = perSourceSetSize\<rparr>"

definition nat_chain :: chain where
  "nat_chain = \<lparr>ch_Name = chainName, ch_Table = Some own_table, ch_Type = ChainNAT, ch_Hook = Some HookPrerouting,
     ch_Priority = Some PriorityNATDest, ch_Policy = Some PolicyAccept\<rparr>"

definition fwd_chain :: chain where
  "fwd_chain = \<lparr>ch_Name = fwdChainName, ch_Table = Some own_table, ch_Type = ChainFilter, ch_Hook = Some HookForward,
     ch_Priority = Some PriorityFilter, ch_Policy = Some PolicyAccept\<rparr>"

definition table_prologue :: "nl_op list" where
  "table_prologue = [AddTable own_table, DelTable own_table, AddTable own_table, AddChain nat_chain, AddChain fwd_chain]"

definition object_ops :: "'w nft \<Rightarrow> guards \<Rightarrow> nl_op list \<Rightarrow> rule \<Rightarrow> (nft_error, nl_op list) result" where
  "object_ops nf g ops r =
     (let ops = ops @ map (\<lambda>sfx. AddObj own_table (CounterObj (counterName (ru_MappingID r) sfx) 0 0)) counterSuffixes
      in if g_PerSourceRate (effectiveGuards r g) > 0
         then (case nf_AddSet nf (perSourceSet (ru_MappingID r)) of
                 Some e \<Rightarrow> Inl (AddSetFailed (setName (ru_MappingID r)) e)
               | None \<Rightarrow> Inr (ops @ [AddSet own_table (perSourceSet (ru_MappingID r))]))
         else Inr ops)"

text \<open>The loop that adds the nat rules; the second argument is \<open>activeIndex\<close>.\<close>

fun tag_nat_rules :: "rule list \<Rightarrow> nat \<Rightarrow> expr list list \<Rightarrow> nl_rule list" where
  "tag_nat_rules rules idx [] = []"
| "tag_nat_rules rules idx (exprs # rest) =
     (if is_nat (last exprs)
      then \<lparr>nr_Table = own_table, nr_Chain = chainName, nr_Exprs = exprs, nr_UserData = activeTag (rules ! idx)\<rparr>
           # tag_nat_rules rules (Suc idx) rest
      else \<lparr>nr_Table = own_table, nr_Chain = chainName, nr_Exprs = exprs, nr_UserData = []\<rparr>
           # tag_nat_rules rules idx rest)"

definition fwd_rule :: "expr list \<Rightarrow> string \<Rightarrow> nl_rule" where
  "fwd_rule exprs tag = \<lparr>nr_Table = own_table, nr_Chain = fwdChainName, nr_Exprs = exprs, nr_UserData = tag\<rparr>"

definition fwd_rules :: "'w nft \<Rightarrow> string \<Rightarrow> rule list \<Rightarrow> retirement list \<Rightarrow> nl_rule list" where
  "fwd_rules nf iface rules rets =
     map (\<lambda>x. fwd_rule x []) (renderForwardRules (nf_little nf) iface rules)
     @ concat (map (\<lambda>r. map (\<lambda>d. fwd_rule (retirementDropExprs (nf_little nf) iface r d) (retirementTag (nf_key nf) r d))
                 both_directions) rets)"

definition managed_batch :: "'w nft \<Rightarrow> string \<Rightarrow> rule list \<Rightarrow> retirement list \<Rightarrow> guards \<Rightarrow> (nft_error, nl_op list) result" where
  "managed_batch nf iface rules rets g =
     rbind (scan (object_ops nf g) table_prologue rules) (\<lambda>ops. Inr (ops
       @ map AddRule (tag_nat_rules rules 0 (renderRules (nf_little nf) iface rules g))
       @ map AddRule (fwd_rules nf iface rules rets)))"

definition flush_batch :: "'w nft \<Rightarrow> nl_op list \<Rightarrow> 'w \<Rightarrow> (nft_error, unit) result \<times> 'w" where
  "flush_batch nf ops w = (case nf_Flush nf ops w of (Some e, w') \<Rightarrow> (Inl (FlushFailed e), w') | (None, w') \<Rightarrow> (Inr (), w'))"

definition ApplyManaged ::
  "'w nft \<Rightarrow> string \<Rightarrow> rule list \<Rightarrow> retirement list \<Rightarrow> guards \<Rightarrow> 'w \<Rightarrow> (nft_error, unit) result \<times> 'w" where
  "ApplyManaged nf iface rules rets g w =
     (case nf_New nf w of Some e \<Rightarrow> (Inl (OpenNetlink e), w)
      | None \<Rightarrow> (case managed_batch nf iface rules rets g of Inl e \<Rightarrow> (Inl e, w) | Inr ops \<Rightarrow> flush_batch nf ops w))"

definition nft_Apply :: "'w nft \<Rightarrow> string \<Rightarrow> rule list \<Rightarrow> guards \<Rightarrow> 'w \<Rightarrow> (nft_error, unit) result \<times> 'w" where
  "nft_Apply nf iface rules g w = ApplyManaged nf iface rules [] g w"

subsection \<open>Comparing expressions\<close>

primrec expr_matches :: "expr \<Rightarrow> expr \<Rightarrow> bool" where
  "expr_matches (Meta k r s) g = (case g of Meta k' r' s' \<Rightarrow> k' = k \<and> r' = r \<and> s' = s | _ \<Rightarrow> False)"
| "expr_matches (Cmp op r d) g = (case g of Cmp op' r' d' \<Rightarrow> op' = op \<and> r' = r \<and> d' = d | _ \<Rightarrow> False)"
| "expr_matches (Payload ot dr sr b off len ct co cf) g =
     (case g of Payload ot' dr' sr' b' off' len' ct' co' cf' \<Rightarrow>
        ot' = ot \<and> dr' = dr \<and> sr' = sr \<and> b' = b \<and> off' = off \<and> len' = len \<and> ct' = ct \<and> co' = co \<and> cf' = cf
      | _ \<Rightarrow> False)"
| "expr_matches (Ct r s k d opt) g =
     (case g of Ct r' s' k' d' opt' \<Rightarrow> r' = r \<and> s' = s \<and> k' = k \<and> d' = d \<and> opt' = opt | _ \<Rightarrow> False)"
| "expr_matches (Immediate r d) g = (case g of Immediate r' d' \<Rightarrow> r' = r \<and> d' = d | _ \<Rightarrow> False)"
| "expr_matches (Objref t n) g = (case g of Objref t' n' \<Rightarrow> t' = t \<and> n' = n | _ \<Rightarrow> False)"
| "expr_matches (NAT t f a amax q qmax rnd frnd pers pfx) g =
     (case g of NAT t' f' a' amax' q' qmax' rnd' frnd' pers' pfx' \<Rightarrow>
        t' = t \<and> f' = f \<and> a' = a \<and> (amax' = amax \<or> amax = 0 \<and> amax' = a) \<and> q' = q \<and> (qmax' = qmax \<or> qmax = 0 \<and> qmax' = q)
        \<and> rnd' = rnd \<and> frnd' = frnd \<and> pers' = pers \<and> pfx' = pfx
      | _ \<Rightarrow> False)"
| "expr_matches (Bitwise s d len m x) g =
     (case g of Bitwise s' d' len' m' x' \<Rightarrow> s' = s \<and> d' = d \<and> len' = len \<and> m' = m \<and> x' = x | _ \<Rightarrow> False)"
| "expr_matches (Verdict k) g = (case g of Verdict k' \<Rightarrow> k' = k | _ \<Rightarrow> False)"
| "expr_matches (Counter b n) g = (case g of Counter _ _ \<Rightarrow> True | _ \<Rightarrow> False)"
| "expr_matches (Limit t r ov u b) g =
     (case g of Limit t' r' ov' u' b' \<Rightarrow> t' = t \<and> r' = r \<and> ov' = ov \<and> u' = u \<and> b' = b | _ \<Rightarrow> False)"
| "expr_matches (Connlimit c f) g = (case g of Connlimit c' f' \<Rightarrow> c' = c \<and> f' = f | _ \<Rightarrow> False)"
| "expr_matches (Dynset k d n op t i es) g =
     (case g of Dynset k' d' n' op' t' i' es' \<Rightarrow>
        k' = k \<and> d' = d \<and> n' = n \<and> op' = op \<and> t' = t \<and> i' = i \<and> list_all2 (\<lambda>f x. f x) (map expr_matches es) es'
      | _ \<Rightarrow> False)"
| "expr_matches (OtherExpr s) g = False"

definition managedExprsEqual :: "expr list \<Rightarrow> expr list \<Rightarrow> bool" where
  "managedExprsEqual got want = list_all2 expr_matches want got"

subsection \<open>Reading back\<close>

definition own_chain :: "chain \<Rightarrow> bool" where
  "own_chain c = (ch_Table c = Some own_table)"

definition chain_as :: "string \<Rightarrow> chain_type \<Rightarrow> chain_hook \<Rightarrow> chain_priority \<Rightarrow> chain \<Rightarrow> bool" where
  "chain_as name typ hook prio c = (ch_Name c = name \<and> ch_Type c = typ \<and> ch_Hook c = Some hook \<and> ch_Priority c = Some prio
     \<and> ch_Policy c = Some PolicyAccept)"

definition validateOwnedChains :: "chain list \<Rightarrow> (nft_error, unit) result" where
  "validateOwnedChains chs =
     (let owned = filter own_chain chs
      in if length owned \<noteq> 2 then Inl (ChainCount (length owned))
         else if \<not> list_ex (chain_as chainName ChainNAT HookPrerouting PriorityNATDest) owned
              \<or> \<not> list_ex (chain_as fwdChainName ChainFilter HookForward PriorityFilter) owned
         then Inl ChainDiffers
         else Inr ())"

definition expectedNatTags :: "rule list \<Rightarrow> guards \<Rightarrow> string list" where
  "expectedNatTags rules g = concat (map (\<lambda>r.
     let eff = effectiveGuards r g
     in (if ru_SourcePolicy r \<noteq> None then [[]] else [])
        @ (if g_PerSourceRate eff > 0 then [[]] else [])
        @ (if g_NewConnRate eff > 0 then [[]] else [])
        @ (if g_MaxConn eff > 0 then [[]] else [])
        @ [activeTag r]) rules)"

text \<open>The loop that compares the rules of a chain position by position.\<close>

definition rule_matches :: "nl_rule \<Rightarrow> string \<Rightarrow> expr list \<Rightarrow> bool" where
  "rule_matches got tag want = (nr_UserData got = tag \<and> managedExprsEqual (nr_Exprs got) want)"

fun compare_rules :: "(nat \<Rightarrow> nft_error) \<Rightarrow> nat \<Rightarrow> nl_rule list \<Rightarrow> string list \<Rightarrow> expr list list \<Rightarrow> (nft_error, unit) result" where
  "compare_rules err i (got # gots) (tag # tags) (want # wants) =
     (if rule_matches got tag want then compare_rules err (Suc i) gots tags wants else Inl (err i))"
| "compare_rules err i _ _ _ = Inr ()"

definition expected_sets :: "rule list \<Rightarrow> guards \<Rightarrow> (string \<times> nl_set) list" where
  "expected_sets rules g = fold (\<lambda>r m. if g_PerSourceRate (effectiveGuards r g) > 0
     then AList.update (setName (ru_MappingID r)) (perSourceSet (ru_MappingID r)) m else m) rules []"

definition set_matches :: "nl_set \<Rightarrow> nl_set \<Rightarrow> bool" where
  "set_matches got want = (ns_KeyType got = ns_KeyType want \<and> ns_Dynamic got = ns_Dynamic want
     \<and> ns_HasTimeout got = ns_HasTimeout want \<and> ns_Timeout got = ns_Timeout want \<and> ns_Size got = ns_Size want)"

definition compare_set :: "(string \<times> nl_set) list \<Rightarrow> unit \<Rightarrow> nl_set \<Rightarrow> (nft_error, unit) result" where
  "compare_set expected u got =
     (case map_of expected (ns_Name got) of
        None \<Rightarrow> Inl (SetDiffers (ns_Name got))
      | Some want \<Rightarrow> if set_matches got want then Inr () else Inl (SetDiffers (ns_Name got)))"

definition validateManagedReadback ::
  "'w nft \<Rightarrow> string \<Rightarrow> rule list \<Rightarrow> retirement list \<Rightarrow> guards \<Rightarrow> chain list \<Rightarrow> nl_rule list \<Rightarrow> nl_rule list \<Rightarrow> nl_set list
    \<Rightarrow> (nft_error, unit) result" where
  "validateManagedReadback nf iface rules rets g chs natRules fwdRules sets =
     rbind (validateOwnedChains chs) (\<lambda>_.
       let expectedNat = renderRules (nf_little nf) iface rules g;
           expectedFwd = renderForwardRules (nf_little nf) iface rules @ retirement_rules (nf_little nf) iface rets
       in if length natRules \<noteq> length expectedNat \<or> length fwdRules \<noteq> length expectedFwd then Inl RuleCountDiffers
          else
            let natTags = expectedNatTags rules g;
                fwdTags = replicate (2 * length rules) []
                  @ concat (map (\<lambda>r. [retirementTag (nf_key nf) r MetaIIFNAME, retirementTag (nf_key nf) r MetaOIFNAME]) rets)
            in rbind (compare_rules NatRuleDiffers 0 natRules natTags expectedNat) (\<lambda>_.
               rbind (compare_rules FwdRuleDiffers 0 fwdRules fwdTags expectedFwd) (\<lambda>_.
                 let expected = expected_sets rules g
                 in if length sets \<noteq> length expected then Inl SetCountDiffers
                    else scan (compare_set expected) () sets)))"

definition read_nft :: "(string, 'a) result \<Rightarrow> (nft_error, 'a) result" where
  "read_nft r = (case r of Inl e \<Rightarrow> Inl (ReadFailedNft e) | Inr x \<Rightarrow> Inr x)"

definition tags_of :: "nl_rule list \<Rightarrow> string set" where
  "tags_of rules = {t \<in> nr_UserData ` set rules. t \<noteq> []}"

definition managed_tag :: "string \<Rightarrow> bool" where
  "managed_tag t = (has_prefix ''pickle-active:'' t \<or> has_prefix ''pickle-retired:'' t)"

definition check_tags :: "'w nft \<Rightarrow> rule list \<Rightarrow> retirement list \<Rightarrow> string set \<Rightarrow> (nft_error, unit) result" where
  "check_tags nf rules rets actual =
     rbind (scan (\<lambda>_ r. if activeTag r \<in> actual then Inr () else Inl (ActiveMissing (ru_MappingID r))) () rules) (\<lambda>_.
     rbind (scan (\<lambda>_ r. if \<forall>d\<in>set both_directions. retirementTag (nf_key nf) r d \<in> actual then Inr ()
                        else Inl (RetirementMissing (r_RetirementID r))) () rets) (\<lambda>_.
       if \<exists>t\<in>actual. managed_tag t \<and> t \<notin> activeTag ` set rules
            \<and> t \<notin> (\<Union>r\<in>set rets. retirementTag (nf_key nf) r ` set both_directions)
       then Inl UnexpectedRule else Inr ()))"

definition VerifyManaged ::
  "'w nft \<Rightarrow> string \<Rightarrow> rule list \<Rightarrow> retirement list \<Rightarrow> guards \<Rightarrow> 'w \<Rightarrow> (nft_error, unit) result" where
  "VerifyManaged nf iface rules rets g w =
     (case nf_New nf w of Some e \<Rightarrow> Inl (OpenNetlink e)
      | None \<Rightarrow>
          rbind (read_nft (nf_ListChains nf w)) (\<lambda>chs.
          rbind (read_nft (nf_GetRules nf chainName w)) (\<lambda>natRules.
          rbind (read_nft (nf_GetRules nf fwdChainName w)) (\<lambda>fwdRules.
          rbind (read_nft (nf_GetSets nf w)) (\<lambda>sets.
          rbind (validateManagedReadback nf iface rules rets g chs natRules fwdRules sets) (\<lambda>_.
            check_tags nf rules rets (tags_of (natRules @ fwdRules))))))))"

subsection \<open>Quarantine\<close>

definition quarantine_rules :: "'w nft \<Rightarrow> string \<Rightarrow> nl_rule list" where
  "quarantine_rules nf iface = map (\<lambda>d. fwd_rule (quarantineDropExprs (nf_little nf) iface d) (quarantineTag (nf_key nf) d)) both_directions"

definition quarantine_batch :: "'w nft \<Rightarrow> string \<Rightarrow> nl_op list" where
  "quarantine_batch nf iface = table_prologue @ map AddRule (quarantine_rules nf iface)"

definition VerifyQuarantine :: "'w nft \<Rightarrow> string \<Rightarrow> 'w \<Rightarrow> (nft_error, unit) result" where
  "VerifyQuarantine nf iface w =
     (case nf_New nf w of Some e \<Rightarrow> Inl (OpenNetlink e)
      | None \<Rightarrow>
          rbind (read_nft (nf_ListChains nf w)) (\<lambda>chs.
          rbind (read_nft (nf_GetRules nf chainName w)) (\<lambda>natRules.
          rbind (read_nft (nf_GetRules nf fwdChainName w)) (\<lambda>fwdRules.
          rbind (read_nft (nf_GetSets nf w)) (\<lambda>sets.
            if length natRules \<noteq> 0 \<or> length fwdRules \<noteq> 2 \<or> length sets \<noteq> 0 then Inl QuarantineCount
            else rbind (validateOwnedChains chs) (\<lambda>_.
                   if list_all2 (\<lambda>got d. rule_matches got (quarantineTag (nf_key nf) d) (quarantineDropExprs (nf_little nf) iface d))
                        fwdRules both_directions
                   then Inr () else Inl QuarantineDiffers))))))"

definition ApplyQuarantine :: "'w nft \<Rightarrow> string \<Rightarrow> 'w \<Rightarrow> (nft_error, unit) result \<times> 'w" where
  "ApplyQuarantine nf iface w =
     (case nf_New nf w of Some e \<Rightarrow> (Inl (OpenNetlink e), w)
      | None \<Rightarrow> (case flush_batch nf (quarantine_batch nf iface) w of
                   (Inl e, w') \<Rightarrow> (Inl e, w')
                 | (Inr _, w') \<Rightarrow> (VerifyQuarantine nf iface w', w')))"

subsection \<open>Presence and counters\<close>

definition Present :: "'w nft \<Rightarrow> 'w \<Rightarrow> (nft_error, bool) result" where
  "Present nf w =
     (case nf_New nf w of Some e \<Rightarrow> Inl (OpenNetlink e)
      | None \<Rightarrow> rbind (read_nft (nf_ListTables nf w)) (\<lambda>names. Inr (TableName \<in> set names)))"

definition agent_tag :: "string \<Rightarrow> bool" where
  "agent_tag t = (has_prefix ''pickle-active:'' t \<or> has_prefix ''pickle-retired:'' t \<or> has_prefix ''pickle-quarantine:'' t)"

definition HasManagedState :: "'w nft \<Rightarrow> 'w \<Rightarrow> (nft_error, bool) result" where
  "HasManagedState nf w =
     rbind (Present nf w) (\<lambda>present.
       if \<not> present then Inr False
       else case nf_New nf w of Some e \<Rightarrow> Inl (OpenNetlink e)
            | None \<Rightarrow>
                rbind (read_nft (nf_GetRules nf chainName w)) (\<lambda>natRules.
                  if list_ex (\<lambda>r. agent_tag (nr_UserData r)) natRules then Inr True
                  else rbind (read_nft (nf_GetRules nf fwdChainName w)) (\<lambda>fwdRules.
                         Inr (list_ex (\<lambda>r. agent_tag (nr_UserData r)) fwdRules))))"

record kcounters =
  k_NewConns :: u64
  k_InPackets :: u64
  k_InBytes :: u64
  k_OutPackets :: u64
  k_OutBytes :: u64
  k_RateDropped :: u64
  k_ConnDropped :: u64
  k_PerSourceDropped :: u64

definition kcounters_zero :: kcounters where
  "kcounters_zero = \<lparr>k_NewConns = 0, k_InPackets = 0, k_InBytes = 0, k_OutPackets = 0, k_OutBytes = 0,
     k_RateDropped = 0, k_ConnDropped = 0, k_PerSourceDropped = 0\<rparr>"

definition set_counter :: "string \<Rightarrow> u64 \<Rightarrow> u64 \<Rightarrow> kcounters \<Rightarrow> kcounters" where
  "set_counter suffix byts packets e =
     (if suffix = ''new'' then e\<lparr>k_NewConns := packets\<rparr>
      else if suffix = ''in'' then e\<lparr>k_InPackets := packets, k_InBytes := byts\<rparr>
      else if suffix = ''out'' then e\<lparr>k_OutPackets := packets, k_OutBytes := byts\<rparr>
      else if suffix = ''rd'' then e\<lparr>k_RateDropped := packets\<rparr>
      else if suffix = ''cd'' then e\<lparr>k_ConnDropped := packets\<rparr>
      else if suffix = ''pd'' then e\<lparr>k_PerSourceDropped := packets\<rparr>
      else e)"

text \<open>A Go map is an association list with one entry per key.\<close>

definition read_object :: "nl_obj \<Rightarrow> (int \<times> kcounters) list \<Rightarrow> (int \<times> kcounters) list" where
  "read_object obj out =
     (case obj of OtherObj _ \<Rightarrow> out
      | CounterObj name byts packets \<Rightarrow>
          (case parseCounterName name of None \<Rightarrow> out
           | Some (i, suffix) \<Rightarrow>
               AList.update i (set_counter suffix byts packets (case map_of out i of None \<Rightarrow> kcounters_zero | Some e \<Rightarrow> e)) out))"

definition ReadCounters :: "'w nft \<Rightarrow> 'w \<Rightarrow> (nft_error, (int \<times> kcounters) list) result" where
  "ReadCounters nf w =
     (case nf_New nf w of Some e \<Rightarrow> Inl (OpenNetlink e)
      | None \<Rightarrow> rbind (read_nft (nf_GetObjects nf w)) (\<lambda>objs. Inr (fold read_object objs [])))"

subsection \<open>Tags\<close>

lemma tag_nat_rules_guards:
  "\<forall>x\<in>set xs. \<not> is_nat (last x) \<Longrightarrow>
   tag_nat_rules rules i (xs @ ys) =
     map (\<lambda>x. \<lparr>nr_Table = own_table, nr_Chain = chainName, nr_Exprs = x, nr_UserData = []\<rparr>) xs @ tag_nat_rules rules i ys"
  by (induction xs) auto

lemma map_const_replicate: "map (\<lambda>_. c) xs = replicate (length xs) c"
  by (induction xs) auto

lemma guard_rules_count:
  "map (\<lambda>_. []) (guard_rules iface g r) @ [activeTag r] =
     (let eff = effectiveGuards r g
     in (if ru_SourcePolicy r \<noteq> None then [[]] else [])
        @ (if g_PerSourceRate eff > 0 then [[]] else [])
        @ (if g_NewConnRate eff > 0 then [[]] else [])
        @ (if g_MaxConn eff > 0 then [[]] else [])
        @ [activeTag r])"
  by (auto simp: guard_rules_def render_rule_def Let_def butlast_append sourceDropExprs_def split: option.splits)

lemma expectedNatTags_Cons:
  "expectedNatTags (r # rs) g = map (\<lambda>_. []) (guard_rules iface g r) @ [activeTag r] @ expectedNatTags rs g"
  using guard_rules_count[of iface g r] by (simp add: expectedNatTags_def Let_def)

lemma renderRules_Cons:
  "renderRules le iface (r # rs) g = guard_rules iface g r @ [dnatExprs le iface r] @ renderRules le iface rs g"
  by (simp add: renderRules_def render_rule_split)

lemma tag_nat_rules_render:
  "map nr_UserData (tag_nat_rules (pre @ rs) (length pre) (renderRules le iface rs g)) = expectedNatTags rs g
   \<and> map nr_Exprs (tag_nat_rules (pre @ rs) (length pre) (renderRules le iface rs g)) = renderRules le iface rs g
   \<and> (\<forall>x\<in>set (tag_nat_rules (pre @ rs) (length pre) (renderRules le iface rs g)). nr_Table x = own_table \<and> nr_Chain x = chainName)"
proof (induction rs arbitrary: pre)
  case Nil
  then show ?case by (simp add: renderRules_def expectedNatTags_def)
next
  case (Cons r rs)
  have "tag_nat_rules (pre @ r # rs) (length pre) (renderRules le iface (r # rs) g) =
      map (\<lambda>x. \<lparr>nr_Table = own_table, nr_Chain = chainName, nr_Exprs = x, nr_UserData = []\<rparr>) (guard_rules iface g r)
      @ \<lparr>nr_Table = own_table, nr_Chain = chainName, nr_Exprs = dnatExprs le iface r, nr_UserData = activeTag r\<rparr>
      # tag_nat_rules ((pre @ [r]) @ rs) (length (pre @ [r])) (renderRules le iface rs g)"
    unfolding renderRules_Cons by (simp add: tag_nat_rules_guards guard_rules_not_nat)
  with Cons.IH[of "pre @ [r]"] show ?case
    by (auto simp: expectedNatTags_Cons[of _ _ _ iface] renderRules_Cons o_def map_const_replicate)
qed

lemmas tag_nat_rules_all = tag_nat_rules_render[of "[]", simplified]

lemma length_expectedNatTags: "length (expectedNatTags rs g) = length (renderRules le iface rs g)"
  using tag_nat_rules_all[of rs le iface g] by (metis length_map)

subsection \<open>Matching expressions mean the same\<close>

definition emitted :: "expr \<Rightarrow> bool" where
  "emitted e = (case e of
     OtherExpr _ \<Rightarrow> False
   | NAT t f a amax q qmax rnd frnd pers pfx \<Rightarrow> t = DestNAT \<and> f = FamilyIPv4 \<and> amax = 0 \<and> qmax = 0 \<and> \<not> rnd \<and> \<not> frnd \<and> \<not> pers \<and> \<not> pfx
   | Dynset _ _ _ _ _ _ es \<Rightarrow> (\<exists>t r ov u b. es = [Limit t r ov u b])
   | _ \<Rightarrow> True)"

lemma emitted_match: "emitted w \<Longrightarrow> expr_matches w w"
  by (cases w) (auto simp: emitted_def)

lemma expr_matches_limit: "expr_matches (Limit t r ov u b) g \<longleftrightarrow> g = Limit t r ov u b"
  by (cases g) auto

lemma documented_range:
  assumes "documented_nft ev" "a' \<in> {0, a}" "q' \<in> {0, q}"
  shows "ev (NAT DestNAT FamilyIPv4 a a' q q' False False False False) p R = Translate (R (Reg a)) (R (Reg q))"
proof -
  have "\<forall>a a' q q' p R. a' \<in> {0, a} \<longrightarrow> q' \<in> {0, q} \<longrightarrow>
      ev (NAT DestNAT FamilyIPv4 a a' q q' False False False False) p R = Translate (R (Reg a)) (R (Reg q))"
    using assms(1) unfolding documented_nft_def by (elim conjE)
  with assms(2,3) show ?thesis by blast
qed

lemma emitted_sem:
  assumes "documented_nft ev" "emitted w" "expr_matches w g"
  shows "ev g p R = ev w p R"
proof (cases w)
  case (NAT t f a amax q qmax rnd frnd pers pfx)
  with assms(2) have w: "w = NAT DestNAT FamilyIPv4 a 0 q 0 False False False False" by (simp add: emitted_def)
  with assms(3) obtain a' q' where g: "g = NAT DestNAT FamilyIPv4 a a' q q' False False False False" "a' \<in> {0, a}" "q' \<in> {0, q}"
    by (cases g) auto
  then have "ev g p R = Translate (R (Reg a)) (R (Reg q))" using documented_range[OF assms(1)] by blast
  with w show ?thesis by (simp add: documentedD[OF assms(1)])
next
  case (Counter b n)
  with assms(3) obtain b' n' where "g = Counter b' n'" by (cases g) auto
  with Counter show ?thesis by (simp add: documentedD[OF assms(1)])
next
  case (Dynset k d n op t i es)
  with assms(2) obtain t' r ov u b where es: "es = [Limit t' r ov u b]" by (auto simp: emitted_def)
  with assms(3) Dynset have "g = w"
    by (cases g) (auto simp: list_all2_Cons1 simp del: expr_matches.simps(11) simp add: expr_matches_limit)
  then show ?thesis by simp
qed (use assms in \<open>cases g; auto simp: emitted_def\<close>)+

lemma eval_rule_match:
  assumes "documented_nft ev" "\<forall>e\<in>set want. emitted e" "managedExprsEqual got want"
  shows "eval_rule ev got p R = eval_rule ev want p R"
proof -
  from assms(3) have "list_all2 expr_matches want got" by (simp add: managedExprsEqual_def)
  then show ?thesis using assms(2)
  proof (induction arbitrary: R rule: list_all2_induct)
    case (Cons w ws g gs)
    then have "ev g p R = ev w p R" using emitted_sem[OF assms(1)] by simp
    with Cons show ?case by (auto split: outcome.split)
  qed simp
qed

lemma eval_chain_match:
  assumes "documented_nft ev" "\<forall>x\<in>set wants. \<forall>e\<in>set x. emitted e" "list_all2 managedExprsEqual gots wants"
  shows "eval_chain ev gots p = eval_chain ev wants p"
  using assms(3,2)
proof (induction rule: list_all2_induct)
  case (Cons g gs w ws)
  then have "eval_rule ev g p (\<lambda>_. []) = eval_rule ev w p (\<lambda>_. [])" using eval_rule_match[OF assms(1)] by simp
  with Cons show ?case by (auto split: option.split)
qed simp

lemma emitted_match_exprs: "e \<in> set (matchExprs iface r) \<Longrightarrow> emitted e"
  by (auto simp: matchExprs_def emitted_def)

lemma emitted_prefix_drop: "e \<in> set (prefix_drop q) \<Longrightarrow> emitted e"
  by (auto simp: prefix_drop_def emitted_def split: addr.splits)

lemma emitted_renderRules: "x \<in> set (renderRules le iface rules g) \<Longrightarrow> e \<in> set x \<Longrightarrow> emitted e"
  by (auto simp: renderRules_def render_rule_def Let_def sourceDropExprs_def perSourceExprs_def guardExprs_def dnatExprs_def
      objrefCounter_def dest!: emitted_match_exprs emitted_prefix_drop split: option.splits if_splits)
    (auto simp: emitted_def)

lemma emitted_forward:
  "x \<in> set (renderForwardRules le iface rules @ retirement_rules le iface rets) \<Longrightarrow> e \<in> set x \<Longrightarrow> emitted e"
  by (auto simp: renderForwardRules_def retirement_rules_def forwardCountExprs_def retirementDropExprs_def dnatMask_def
      objrefCounter_def emitted_def)

lemma emitted_quarantine: "e \<in> set (quarantineDropExprs le iface d) \<Longrightarrow> emitted e"
  by (auto simp: quarantineDropExprs_def dnatMask_def emitted_def)

subsection \<open>Verified tables behave as rendered\<close>

lemma compare_rules_ok:
  assumes "compare_rules err i gots tags wants = Inr ()" "length gots = length wants" "length tags = length wants"
  shows "list_all2 managedExprsEqual (map nr_Exprs gots) wants \<and> map nr_UserData gots = tags"
  using assms
  by (induction err i gots tags wants rule: compare_rules.induct) (auto simp: rule_matches_def split: if_splits)

lemma compare_rules_refl:
  assumes "list_all2 managedExprsEqual (map nr_Exprs gots) wants" "map nr_UserData gots = tags"
  shows "compare_rules err i gots tags wants = Inr ()"
  using assms
proof (induction gots arbitrary: i tags wants)
  case (Cons x gots)
  then show ?case by (cases wants) (auto simp: rule_matches_def)
qed simp

definition fwd_tags :: "'w nft \<Rightarrow> rule list \<Rightarrow> retirement list \<Rightarrow> string list" where
  "fwd_tags nf rules rets = replicate (2 * length rules) []
     @ concat (map (\<lambda>r. [retirementTag (nf_key nf) r MetaIIFNAME, retirementTag (nf_key nf) r MetaOIFNAME]) rets)"

lemma length_fwd_tags:
  "length (fwd_tags nf rules rets) = length (renderForwardRules le iface rules @ retirement_rules le iface rets)"
proof -
  have "length (renderForwardRules le iface rules) = 2 * length rules"
    by (induction rules) (auto simp: renderForwardRules_def)
  moreover have "length (retirement_rules le iface rets) = 2 * length rets"
    by (induction rets) (auto simp: retirement_rules_def both_directions_def)
  moreover have "length (concat (map (\<lambda>r. [retirementTag (nf_key nf) r MetaIIFNAME, retirementTag (nf_key nf) r MetaOIFNAME]) rets))
      = 2 * length rets"
    by (induction rets) auto
  ultimately show ?thesis by (simp add: fwd_tags_def)
qed

text \<open>What a successful comparison of a readback says about it.\<close>

lemma validate_readback_ok:
  assumes "validateManagedReadback nf iface rules rets g chs natRules fwdRules sets = Inr ()"
  shows "list_all2 managedExprsEqual (map nr_Exprs natRules) (renderRules (nf_little nf) iface rules g)"
    "map nr_UserData natRules = expectedNatTags rules g"
    "list_all2 managedExprsEqual (map nr_Exprs fwdRules)
       (renderForwardRules (nf_little nf) iface rules @ retirement_rules (nf_little nf) iface rets)"
    "map nr_UserData fwdRules = fwd_tags nf rules rets"
    "validateOwnedChains chs = Inr ()"
proof -
  let ?nat = "renderRules (nf_little nf) iface rules g"
  let ?fwd = "renderForwardRules (nf_little nf) iface rules @ retirement_rules (nf_little nf) iface rets"
  from assms have len: "length natRules = length ?nat" "length fwdRules = length ?fwd"
    and cmp: "compare_rules NatRuleDiffers 0 natRules (expectedNatTags rules g) ?nat = Inr ()"
      "compare_rules FwdRuleDiffers 0 fwdRules (fwd_tags nf rules rets) ?fwd = Inr ()"
    and "validateOwnedChains chs = Inr ()"
    by (auto simp: validateManagedReadback_def rbind_Inr_iff Let_def fwd_tags_def split: if_splits)
  with compare_rules_ok[OF cmp(1) len(1) length_expectedNatTags] compare_rules_ok[OF cmp(2) len(2) length_fwd_tags]
  show "list_all2 managedExprsEqual (map nr_Exprs natRules) ?nat" "map nr_UserData natRules = expectedNatTags rules g"
    "list_all2 managedExprsEqual (map nr_Exprs fwdRules) ?fwd" "map nr_UserData fwdRules = fwd_tags nf rules rets"
    "validateOwnedChains chs = Inr ()" by auto
qed

lemma read_nft_Inr [simp]: "read_nft r = Inr x \<longleftrightarrow> r = Inr x"
  by (auto simp: read_nft_def split: sum.splits)

lemma VerifyManaged_ok:
  assumes "VerifyManaged nf iface rules rets g w = Inr ()"
  shows "\<exists>chs natRules fwdRules sets. nf_ListChains nf w = Inr chs \<and> nf_GetRules nf chainName w = Inr natRules
    \<and> nf_GetRules nf fwdChainName w = Inr fwdRules \<and> nf_GetSets nf w = Inr sets
    \<and> validateManagedReadback nf iface rules rets g chs natRules fwdRules sets = Inr ()
    \<and> check_tags nf rules rets (tags_of (natRules @ fwdRules)) = Inr ()"
  using assms by (auto simp: VerifyManaged_def rbind_Inr_iff split: option.splits)

lemma verified_chains:
  assumes "VerifyManaged nf iface rules rets g w = Inr ()" "documented_nft ev"
  shows "\<exists>natRules fwdRules. nf_GetRules nf chainName w = Inr natRules \<and> nf_GetRules nf fwdChainName w = Inr fwdRules
    \<and> (\<forall>p. eval_chain ev (map nr_Exprs natRules) p = eval_chain ev (renderRules (nf_little nf) iface rules g) p)
    \<and> (\<forall>p. eval_chain ev (map nr_Exprs fwdRules) p
         = eval_chain ev (renderForwardRules (nf_little nf) iface rules @ retirement_rules (nf_little nf) iface rets) p)
    \<and> activeTag ` set rules \<subseteq> nr_UserData ` set natRules"
proof -
  from VerifyManaged_ok[OF assms(1)] obtain chs natRules fwdRules sets where
    get: "nf_GetRules nf chainName w = Inr natRules" "nf_GetRules nf fwdChainName w = Inr fwdRules"
    and ok: "validateManagedReadback nf iface rules rets g chs natRules fwdRules sets = Inr ()" by blast
  note v = validate_readback_ok[OF ok]
  have "activeTag ` set rules \<subseteq> set (expectedNatTags rules g)" by (auto simp: expectedNatTags_def Let_def)
  also have "\<dots> = nr_UserData ` set natRules" using arg_cong[OF v(2), of set] by simp
  finally have tags: "activeTag ` set rules \<subseteq> nr_UserData ` set natRules" .
  have "eval_chain ev (map nr_Exprs natRules) p = eval_chain ev (renderRules (nf_little nf) iface rules g) p" for p
    by (rule eval_chain_match[OF assms(2) _ v(1)]) (use emitted_renderRules in blast)
  moreover have "eval_chain ev (map nr_Exprs fwdRules) p
         = eval_chain ev (renderForwardRules (nf_little nf) iface rules @ retirement_rules (nf_little nf) iface rets) p" for p
    by (rule eval_chain_match[OF assms(2) _ v(3)]) (use emitted_forward in blast)
  ultimately show ?thesis using get tags by blast
qed

text \<open>
  C14: when verification accepts the kernel's table, the two chains it read evaluate every
  packet exactly as the rules rendered for the desired mappings and outstanding retirements
  do, on a kernel that evaluates expressions as documented; and every mapping's tag is on a
  rule of the nat chain.
\<close>

theorem verified_table_behaves:
  assumes "VerifyManaged nf iface rules rets g w = Inr ()" "documented_nft ev"
  shows "\<exists>natRules fwdRules. nf_GetRules nf chainName w = Inr natRules \<and> nf_GetRules nf fwdChainName w = Inr fwdRules
    \<and> (\<forall>p. eval_chain ev (map nr_Exprs natRules) p = eval_chain ev (renderRules (nf_little nf) iface rules g) p)
    \<and> (\<forall>p. eval_chain ev (map nr_Exprs fwdRules) p
         = eval_chain ev (renderForwardRules (nf_little nf) iface rules @ retirement_rules (nf_little nf) iface rets) p)
    \<and> activeTag ` set rules \<subseteq> nr_UserData ` set natRules"
  by (rule verified_chains[OF assms])

subsection \<open>A committed batch verifies\<close>

fun op_table :: "nl_op \<Rightarrow> table option" where
  "op_table (AddTable t) = Some t"
| "op_table (DelTable t) = Some t"
| "op_table (AddChain c) = ch_Table c"
| "op_table (AddObj t x) = Some t"
| "op_table (AddSet t x) = Some t"
| "op_table (AddRule r) = Some (nr_Table r)"

fun op_rule :: "nl_op \<Rightarrow> nl_rule option" where
  "op_rule (AddRule r) = Some r"
| "op_rule _ = None"

fun op_set :: "nl_op \<Rightarrow> nl_set option" where
  "op_set (AddSet t s) = Some s"
| "op_set _ = None"

fun op_chain :: "nl_op \<Rightarrow> chain option" where
  "op_chain (AddChain c) = Some c"
| "op_chain _ = None"

text \<open>Operations that add to the agent's table, the only ones queued after the prologue.\<close>

fun op_adds :: "nl_op \<Rightarrow> bool" where
  "op_adds (AddObj t x) = (t = own_table)"
| "op_adds (AddSet t x) = (t = own_table)"
| "op_adds (AddRule r) = (nr_Table r = own_table)"
| "op_adds _ = False"

lemma op_adds_table: "op_adds x \<Longrightarrow> op_table x = Some own_table" "op_adds x \<Longrightarrow> op_chain x = None"
  by (cases x; simp)+

definition batch_rules :: "string \<Rightarrow> nl_op list \<Rightarrow> nl_rule list" where
  "batch_rules c ops = filter (\<lambda>r. nr_Chain r = c) (List.map_filter op_rule ops)"

definition batch_sets :: "nl_op list \<Rightarrow> nl_set list" where
  "batch_sets ops = List.map_filter op_set ops"

text \<open>
  What the kernel reports for a queued expression. It is not the expression itself in three
  cases: a translation without upper registers may be reported with the lower ones in their
  place, a counter is reported with its current values, and a packet limit queued with the
  burst 0 is reported with the burst of 5 packets the kernel puts in, also inside the
  expression of a set update.
\<close>

definition kernel_burst :: "u32 \<Rightarrow> u32" where
  "kernel_burst b = (if b = 0 then 5 else b)"

primrec echoes :: "expr \<Rightarrow> expr \<Rightarrow> bool" where
  "echoes (Meta k r s) x = (x = Meta k r s)"
| "echoes (Cmp op r d) x = (x = Cmp op r d)"
| "echoes (Payload ot dr sr b off len ct co cf) x = (x = Payload ot dr sr b off len ct co cf)"
| "echoes (Ct r s k d opt) x = (x = Ct r s k d opt)"
| "echoes (Immediate r d) x = (x = Immediate r d)"
| "echoes (Objref t n) x = (x = Objref t n)"
| "echoes (NAT t f a amax q qmax rnd frnd pers pfx) x =
     (\<exists>amax'\<in>{amax, if amax = 0 then a else amax}. \<exists>qmax'\<in>{qmax, if qmax = 0 then q else qmax}.
        x = NAT t f a amax' q qmax' rnd frnd pers pfx)"
| "echoes (Bitwise s d len m y) x = (x = Bitwise s d len m y)"
| "echoes (Verdict k) x = (x = Verdict k)"
| "echoes (Counter b n) x = (case x of Counter _ _ \<Rightarrow> True | _ \<Rightarrow> False)"
| "echoes (Limit t r ov u b) x = (x = Limit t r ov u (if t = LimitPkts then kernel_burst b else b))"
| "echoes (Connlimit c f) x = (x = Connlimit c f)"
| "echoes (Dynset k d n op t i es) x =
     (case x of Dynset k' d' n' op' t' i' es' \<Rightarrow>
        k' = k \<and> d' = d \<and> n' = n \<and> op' = op \<and> t' = t \<and> i' = i \<and> list_all2 (\<lambda>f y. f y) (map echoes es) es'
      | _ \<Rightarrow> False)"
| "echoes (OtherExpr s) x = (x = OtherExpr s)"

definition rule_echo :: "nl_rule \<Rightarrow> nl_rule \<Rightarrow> bool" where
  "rule_echo queued got \<longleftrightarrow> nr_Table got = nr_Table queued \<and> nr_Chain got = nr_Chain queued
     \<and> nr_UserData got = nr_UserData queued \<and> list_all2 echoes (nr_Exprs queued) (nr_Exprs got)"

text \<open>
  The kernel after a successful flush of a batch that replaces the table: the table can be
  read, it has the two chains, each chain has the rules the batch added to it, in order and as
  the kernel reports them, and the table has the sets the batch added.
\<close>

definition kernel_commits :: "'w nft \<Rightarrow> bool" where
  "kernel_commits nf \<longleftrightarrow> (\<forall>ops w w'. (\<forall>x\<in>set ops. op_adds x) \<longrightarrow> distinct (batch_sets ops) \<longrightarrow>
     nf_Flush nf (table_prologue @ ops) w = (None, w') \<longrightarrow>
     nf_New nf w' = None
     \<and> (\<exists>chs. nf_ListChains nf w' = Inr chs \<and> length (filter own_chain chs) = 2 \<and> {nat_chain, fwd_chain} \<subseteq> set (filter own_chain chs))
     \<and> (\<forall>c\<in>{chainName, fwdChainName}. \<exists>rs. nf_GetRules nf c w' = Inr rs \<and> list_all2 rule_echo (batch_rules c ops) rs)
     \<and> (\<exists>sets. nf_GetSets nf w' = Inr sets \<and> distinct sets \<and> set sets = set (batch_sets ops)))"

lemma map_filter_append [simp]: "List.map_filter f (xs @ ys) = List.map_filter f xs @ List.map_filter f ys"
  by (simp add: List.map_filter_def)

lemma map_filter_None: "(\<And>x. x \<in> set xs \<Longrightarrow> f x = None) \<Longrightarrow> List.map_filter f xs = []"
  by (induction xs) (auto simp: map_filter_simps)

lemma map_filter_Some: "(\<And>x. f (g x) = Some x) \<Longrightarrow> List.map_filter f (map g xs) = xs"
  by (induction xs) (auto simp: map_filter_simps)

definition guarded_sets :: "rule list \<Rightarrow> guards \<Rightarrow> nl_set list" where
  "guarded_sets rules g = map (\<lambda>r. perSourceSet (ru_MappingID r)) (filter (\<lambda>r. g_PerSourceRate (effectiveGuards r g) > 0) rules)"

text \<open>What the object loop queues.\<close>

lemma object_ops_scan:
  assumes "scan (object_ops nf g) ops rules = Inr ops'"
  shows "\<exists>new. ops' = ops @ new \<and> List.map_filter op_rule new = []
    \<and> batch_sets new = guarded_sets rules g \<and> (\<forall>x\<in>set new. op_adds x)"
  using assms
proof (induction rules arbitrary: ops)
  case Nil
  then show ?case by (intro exI[of _ "[]"]) (auto simp: batch_sets_def guarded_sets_def map_filter_simps)
next
  case (Cons r rules)
  let ?objs = "map (\<lambda>sfx. AddObj own_table (CounterObj (counterName (ru_MappingID r) sfx) 0 0)) counterSuffixes"
  let ?set = "if g_PerSourceRate (effectiveGuards r g) > 0 then [AddSet own_table (perSourceSet (ru_MappingID r))] else []"
  from Cons.prems have step: "scan (object_ops nf g) (ops @ ?objs @ ?set) rules = Inr ops'"
    by (auto simp: object_ops_def[of nf g ops r] Let_def split: if_splits option.splits)
  from Cons.IH[OF step] obtain new where new: "ops' = (ops @ ?objs @ ?set) @ new"
    "List.map_filter op_rule new = []"
    "batch_sets new = guarded_sets rules g" "\<forall>x\<in>set new. op_adds x" by blast
  have "List.map_filter op_rule ?objs = []" "List.map_filter op_set ?objs = []"
    by (auto intro!: map_filter_None)
  with new show ?case
    by (intro exI[of _ "?objs @ ?set @ new"]) (auto simp: batch_sets_def guarded_sets_def map_filter_simps)
qed

lemma managed_batch_ok:
  assumes "managed_batch nf iface rules rets g = Inr ops"
  shows "\<exists>rest. ops = table_prologue @ rest \<and> batch_sets rest = guarded_sets rules g
    \<and> batch_rules chainName rest = tag_nat_rules rules 0 (renderRules (nf_little nf) iface rules g)
    \<and> batch_rules fwdChainName rest = fwd_rules nf iface rules rets
    \<and> (\<forall>x\<in>set rest. op_adds x)"
proof -
  let ?nat = "tag_nat_rules rules 0 (renderRules (nf_little nf) iface rules g)"
  let ?fwd = "fwd_rules nf iface rules rets"
  from assms obtain objs where objs: "scan (object_ops nf g) table_prologue rules = Inr objs"
    and ops: "ops = objs @ map AddRule ?nat @ map AddRule ?fwd"
    by (auto simp: managed_batch_def rbind_Inr_iff)
  from object_ops_scan[OF objs] obtain new where new: "objs = table_prologue @ new" "List.map_filter op_rule new = []"
    "batch_sets new = guarded_sets rules g" "\<forall>x\<in>set new. op_adds x" by blast
  have fwd: "nr_Table x = own_table \<and> nr_Chain x = fwdChainName" if "x \<in> set ?fwd" for x
    using that by (auto simp: fwd_rules_def fwd_rule_def)
  note nat = tag_nat_rules_all[of rules "nf_little nf" iface g]
  have names: "chainName \<noteq> fwdChainName" by (simp add: chainName_def fwdChainName_def)
  have rules_of: "List.map_filter op_rule (map AddRule xs) = xs" "List.map_filter op_set (map AddRule xs) = []" for xs
    by (auto intro!: map_filter_Some map_filter_None)
  have "filter (\<lambda>r. nr_Chain r = chainName) ?nat = ?nat" "filter (\<lambda>r. nr_Chain r = fwdChainName) ?nat = []"
    using nat names by (auto simp: filter_id_conv filter_empty_conv)
  moreover have "filter (\<lambda>r. nr_Chain r = fwdChainName) ?fwd = ?fwd" "filter (\<lambda>r. nr_Chain r = chainName) ?fwd = []"
    using fwd names by (auto simp: filter_id_conv filter_empty_conv)
  ultimately show ?thesis
    using new ops rules_of nat fwd
    by (intro exI[of _ "new @ map AddRule ?nat @ map AddRule ?fwd"]) (auto simp: batch_sets_def batch_rules_def)
qed

lemma setName_inj [simp]: "setName i = setName j \<longleftrightarrow> i = j"
  by (simp add: setName_def)

lemma expected_sets_fold:
  assumes "distinct (map ru_MappingID rules)" "\<forall>r\<in>set rules. setName (ru_MappingID r) \<notin> fst ` set m"
  shows "fold (\<lambda>r m. if g_PerSourceRate (effectiveGuards r g) > 0
       then AList.update (setName (ru_MappingID r)) (perSourceSet (ru_MappingID r)) m else m) rules m
    = m @ map (\<lambda>s. (ns_Name s, s)) (guarded_sets rules g)"
  using assms
proof (induction rules arbitrary: m)
  case (Cons r rules)
  have new: "AList.update k v m = m @ [(k, v)]" if "k \<notin> fst ` set m" for k and v :: nl_set and m
    using that by (induction m) auto
  show ?case
  proof (cases "g_PerSourceRate (effectiveGuards r g) > 0")
    case True
    let ?m = "m @ [(setName (ru_MappingID r), perSourceSet (ru_MappingID r))]"
    have "\<forall>x\<in>set rules. setName (ru_MappingID x) \<notin> fst ` set ?m"
      using Cons.prems by (auto simp: image_iff)
    with Cons True new[of "setName (ru_MappingID r)" m] show ?thesis
      by (simp add: guarded_sets_def perSourceSet_def)
  qed (use Cons in \<open>simp add: guarded_sets_def\<close>)
qed (simp add: guarded_sets_def)

lemma expected_sets_eq:
  "distinct (map ru_MappingID rules) \<Longrightarrow> expected_sets rules g = map (\<lambda>s. (ns_Name s, s)) (guarded_sets rules g)"
  using expected_sets_fold[of rules "[]" g] by (simp add: expected_sets_def)

lemma scan_unit: "\<forall>x\<in>set xs. f () x = Inr () \<Longrightarrow> scan f () xs = Inr ()"
  by (induction xs) auto

lemma guarded_names_distinct: "distinct (map ru_MappingID rules) \<Longrightarrow> distinct (map ns_Name (guarded_sets rules g))"
  by (auto simp: guarded_sets_def perSourceSet_def distinct_map inj_on_def)

lemma guarded_distinct: "distinct (map ru_MappingID rules) \<Longrightarrow> distinct (guarded_sets rules g)"
  using guarded_names_distinct by (auto simp: distinct_map)

lemma compare_sets_refl:
  assumes "distinct (map ru_MappingID rules)" "set sets = set (guarded_sets rules g)"
  shows "scan (compare_set (expected_sets rules g)) () sets = Inr ()"
proof -
  have "distinct (map ns_Name (guarded_sets rules g))" by (rule guarded_names_distinct[OF assms(1)])
  then have "map_of (map (\<lambda>s. (ns_Name s, s)) (guarded_sets rules g)) (ns_Name s) = Some s" if "s \<in> set (guarded_sets rules g)" for s
    using that by (intro map_of_is_SomeI) (auto simp: o_def)
  then have "\<forall>s\<in>set sets. compare_set (expected_sets rules g) () s = Inr ()"
    using assms by (simp add: compare_set_def expected_sets_eq set_matches_def)
  then show ?thesis by (rule scan_unit)
qed

lemma managedExprsEqual_refl: "\<forall>e\<in>set x. emitted e \<Longrightarrow> managedExprsEqual x x"
  by (auto simp: managedExprsEqual_def list_all2_same emitted_match)

subsection \<open>What the kernel reports, and what verification accepts of it\<close>

text \<open>The expression with the bursts the kernel works with.\<close>

primrec burst_fixed :: "expr \<Rightarrow> expr" where
  "burst_fixed (Meta k r s) = Meta k r s"
| "burst_fixed (Cmp op r d) = Cmp op r d"
| "burst_fixed (Payload ot dr sr b off len ct co cf) = Payload ot dr sr b off len ct co cf"
| "burst_fixed (Ct r s k d opt) = Ct r s k d opt"
| "burst_fixed (Immediate r d) = Immediate r d"
| "burst_fixed (Objref t n) = Objref t n"
| "burst_fixed (NAT t f a amax q qmax rnd frnd pers pfx) = NAT t f a amax q qmax rnd frnd pers pfx"
| "burst_fixed (Bitwise s d len m y) = Bitwise s d len m y"
| "burst_fixed (Verdict k) = Verdict k"
| "burst_fixed (Counter b n) = Counter b n"
| "burst_fixed (Limit t r ov u b) = Limit t r ov u (if t = LimitPkts then kernel_burst b else b)"
| "burst_fixed (Connlimit c f) = Connlimit c f"
| "burst_fixed (Dynset k d n op t i es) = Dynset k d n op t i (map burst_fixed es)"
| "burst_fixed (OtherExpr s) = OtherExpr s"

lemma emitted_burst_fixed: "emitted e \<Longrightarrow> emitted (burst_fixed e)"
  by (cases e) (auto simp: emitted_def)

lemma echo_matches_fixed:
  assumes "emitted e" "echoes e x"
  shows "expr_matches (burst_fixed e) x"
proof (cases e)
  case (Dynset k d n op t i es)
  then show ?thesis using assms by (cases x) (auto simp: emitted_def list_all2_Cons1)
qed (use assms in \<open>auto simp: emitted_def split: if_splits\<close>)

lemma echo_accepted:
  assumes "emitted e" "echoes e x"
  shows "expr_matches e x \<longleftrightarrow> burst_fixed e = e"
proof (cases e)
  case (Dynset k d n op t i es)
  then show ?thesis using assms by (cases x) (auto simp: emitted_def list_all2_Cons1)
next
  case (Counter b n)
  then show ?thesis using assms by (cases x) auto
qed (use assms in \<open>auto simp: emitted_def split: if_splits\<close>)

lemma echo_rule_matches_fixed:
  assumes "\<forall>e\<in>set q. emitted e" "list_all2 echoes q x"
  shows "managedExprsEqual x (map burst_fixed q)"
  using assms(2,1) unfolding managedExprsEqual_def by (induction rule: list_all2_induct) (auto intro: echo_matches_fixed)

lemma echo_rule_accepted:
  assumes "\<forall>e\<in>set q. emitted e" "list_all2 echoes q x"
  shows "managedExprsEqual x q \<longleftrightarrow> map burst_fixed q = q"
  using assms(2,1) unfolding managedExprsEqual_def by (induction rule: list_all2_induct) (auto simp: echo_accepted)

lemma echo_chain:
  assumes "list_all2 (list_all2 echoes) wants gots" "\<forall>x\<in>set wants. \<forall>e\<in>set x. emitted e"
  shows "list_all2 managedExprsEqual gots (map (map burst_fixed) wants)"
    "list_all2 managedExprsEqual gots wants \<longleftrightarrow> (\<forall>x\<in>set wants. map burst_fixed x = x)"
  using assms
  by (induction rule: list_all2_induct) (auto simp: echo_rule_matches_fixed echo_rule_accepted)

lemma rule_echoes:
  assumes "list_all2 rule_echo queued gots"
  shows "map nr_UserData gots = map nr_UserData queued" "list_all2 (list_all2 echoes) (map nr_Exprs queued) (map nr_Exprs gots)"
  using assms by (induction rule: list_all2_induct) (auto simp: rule_echo_def)

text \<open>The rules a mapping is rendered to with the bursts the kernel works with.\<close>

definition corrected :: "guards \<Rightarrow> rule \<Rightarrow> rule" where
  "corrected g r = r\<lparr>ru_NewConnBurst := Some (kernel_burst (g_NewConnBurst (effectiveGuards r g))),
     ru_PerSourceBurst := Some (kernel_burst (g_PerSourceBurst (effectiveGuards r g)))\<rparr>"

lemma burst_only_corrected: "burst_only (corrected g)"
  unfolding burst_only_def corrected_def by blast

lemma burst_fixed_plain:
  "map burst_fixed (matchExprs iface r) = matchExprs iface r"
  "map burst_fixed (concat (map prefix_drop ps)) = concat (map prefix_drop ps)"
  "burst_fixed (objrefCounter i s) = objrefCounter i s"
proof -
  show "map burst_fixed (matchExprs iface r) = matchExprs iface r" by (simp add: matchExprs_def)
  have "map burst_fixed (prefix_drop q) = prefix_drop q" for q by (simp add: prefix_drop_def split: addr.split)
  then show "map burst_fixed (concat (map prefix_drop ps)) = concat (map prefix_drop ps)" by (induction ps) simp_all
  show "burst_fixed (objrefCounter i s) = objrefCounter i s" by (simp add: objrefCounter_def)
qed

lemma corrected_same:
  "matchExprs iface (corrected g r) = matchExprs iface r" "sourceDropExprs iface (corrected g r) = sourceDropExprs iface r"
  "dnatExprs le iface (corrected g r) = dnatExprs le iface r" "ru_MappingID (corrected g r) = ru_MappingID r"
proof -
  have f: "ru_SourcePolicy (corrected g r) = ru_SourcePolicy r" "ru_FlowMark (corrected g r) = ru_FlowMark r"
    "ru_Target (corrected g r) = ru_Target r" "ru_TargetPort (corrected g r) = ru_TargetPort r"
    "ru_MappingID (corrected g r) = ru_MappingID r" by (simp_all add: corrected_def)
  have m: "matchExprs iface (corrected g r) = matchExprs iface r" by (simp add: corrected_def matchExprs_def)
  show "matchExprs iface (corrected g r) = matchExprs iface r" "sourceDropExprs iface (corrected g r) = sourceDropExprs iface r"
    "dnatExprs le iface (corrected g r) = dnatExprs le iface r" "ru_MappingID (corrected g r) = ru_MappingID r"
    unfolding sourceDropExprs_def dnatExprs_def f m by (rule refl)+
qed

lemma effective_corrected:
  "effectiveGuards (corrected g r) g = (effectiveGuards r g)\<lparr>g_NewConnBurst := kernel_burst (g_NewConnBurst (effectiveGuards r g)),
     g_PerSourceBurst := kernel_burst (g_PerSourceBurst (effectiveGuards r g))\<rparr>"
  by (simp add: corrected_def effectiveGuards_def override_def)

text \<open>The rules of one mapping, each with the bursts the kernel works with.\<close>

lemma burst_fixed_rules:
  "sourceDropExprs iface r = Some acl \<Longrightarrow> map burst_fixed acl = acl"
  "map burst_fixed (perSourceExprs iface r rate b) = perSourceExprs iface r rate (kernel_burst b)"
  "map burst_fixed (guardExprs iface r (Limit LimitPkts q True LimitSecond b) sfx)
     = guardExprs iface r (Limit LimitPkts q True LimitSecond (kernel_burst b)) sfx"
  "map burst_fixed (guardExprs iface r (Connlimit c f) sfx) = guardExprs iface r (Connlimit c f) sfx"
  "map burst_fixed (dnatExprs le iface r) = dnatExprs le iface r"
  by (auto simp: sourceDropExprs_def perSourceExprs_def guardExprs_def dnatExprs_def burst_fixed_plain
      simp del: map_concat split: option.splits)

lemma selector_only:
  "perSourceExprs iface (corrected g r) rate b = perSourceExprs iface r rate b"
  "guardExprs iface (corrected g r) e sfx = guardExprs iface r e sfx"
  by (simp_all add: perSourceExprs_def guardExprs_def corrected_same)

lemma render_corrected: "render_rule le iface g (corrected g r) = map (map burst_fixed) (render_rule le iface g r)"
  by (simp add: render_rule_def Let_def corrected_same selector_only effective_corrected burst_fixed_rules split: option.split)

lemma renderRules_corrected:
  "renderRules le iface (map (corrected g) rules) g = map (map burst_fixed) (renderRules le iface rules g)"
  by (induction rules) (simp_all add: renderRules_def render_corrected)

text \<open>No guard in effect for the mapping has the burst 0.\<close>

definition burst_kept :: "guards \<Rightarrow> rule \<Rightarrow> bool" where
  "burst_kept g r \<longleftrightarrow> (let eff = effectiveGuards r g in (g_NewConnRate eff > 0 \<longrightarrow> g_NewConnBurst eff \<noteq> 0)
     \<and> (g_PerSourceRate eff > 0 \<longrightarrow> g_PerSourceBurst eff \<noteq> 0))"

lemma kernel_burst_kept: "kernel_burst b = b \<longleftrightarrow> b \<noteq> 0"
  by (simp add: kernel_burst_def)

lemma render_rule_kept: "(\<forall>x\<in>set (render_rule le iface g r). map burst_fixed x = x) \<longleftrightarrow> burst_kept g r"
proof -
  have "perSourceExprs iface r rate (kernel_burst b) = perSourceExprs iface r rate b \<longleftrightarrow> b \<noteq> 0" for rate b
    by (simp add: perSourceExprs_def kernel_burst_kept)
  moreover have "guardExprs iface r (Limit LimitPkts q True LimitSecond (kernel_burst b)) sfx
      = guardExprs iface r (Limit LimitPkts q True LimitSecond b) sfx \<longleftrightarrow> b \<noteq> 0" for q b sfx
    by (simp add: guardExprs_def kernel_burst_kept)
  ultimately show ?thesis
    by (auto simp: render_rule_def Let_def ball_Un burst_fixed_rules burst_kept_def split: option.splits if_splits)
qed

lemma renderRules_kept: "(\<forall>x\<in>set (renderRules le iface rules g). map burst_fixed x = x) \<longleftrightarrow> list_all (burst_kept g) rules"
  using render_rule_kept[of le iface g] by (induction rules) (simp_all add: renderRules_def ball_Un)

lemma forward_kept:
  "x \<in> set (renderForwardRules le iface rules @ retirement_rules le iface rets) \<Longrightarrow> map burst_fixed x = x"
  by (auto simp: renderForwardRules_def retirement_rules_def forwardCountExprs_def retirementDropExprs_def dnatMask_def
      objrefCounter_def)

lemma fwd_rules_parts:
  "map nr_Exprs (fwd_rules nf iface rules rets)
     = renderForwardRules (nf_little nf) iface rules @ retirement_rules (nf_little nf) iface rets"
  "map nr_UserData (fwd_rules nf iface rules rets) = fwd_tags nf rules rets"
proof -
  have "length (renderForwardRules (nf_little nf) iface rules) = 2 * length rules"
    by (induction rules) (auto simp: renderForwardRules_def)
  then show "map nr_UserData (fwd_rules nf iface rules rets) = fwd_tags nf rules rets"
    by (simp add: fwd_rules_def fwd_tags_def fwd_rule_def o_def map_const_replicate map_concat both_directions_def)
  show "map nr_Exprs (fwd_rules nf iface rules rets)
     = renderForwardRules (nf_little nf) iface rules @ retirement_rules (nf_little nf) iface rets"
    by (simp add: fwd_rules_def fwd_rule_def retirement_rules_def o_def map_concat)
qed

text \<open>
  A table that reads back as the kernel reports the rules of an apply passes the comparison,
  unless the kernel has put in a burst.
\<close>

lemma validate_readback_echo:
  assumes "distinct (map ru_MappingID rules)" "validateOwnedChains chs = Inr ()"
    and nat: "list_all2 rule_echo (tag_nat_rules rules 0 (renderRules (nf_little nf) iface rules g)) natRules"
    and fwd: "list_all2 rule_echo (fwd_rules nf iface rules rets) fwdRules"
    and sets: "distinct sets" "set sets = set (guarded_sets rules g)"
  shows "validateManagedReadback nf iface rules rets g chs natRules fwdRules sets = Inr () \<longleftrightarrow> list_all (burst_kept g) rules"
proof -
  let ?nat = "renderRules (nf_little nf) iface rules g"
  let ?fwd = "renderForwardRules (nf_little nf) iface rules @ retirement_rules (nf_little nf) iface rets"
  note natq = tag_nat_rules_all[of rules "nf_little nf" iface g] and fwdq = fwd_rules_parts[of nf iface rules rets]
  note n = rule_echoes[OF nat] and f = rule_echoes[OF fwd]
  have kept: "list_all2 managedExprsEqual (map nr_Exprs natRules) ?nat \<longleftrightarrow> list_all (burst_kept g) rules"
    using echo_chain(2)[of ?nat "map nr_Exprs natRules"] n(2) natq emitted_renderRules[of _ "nf_little nf" iface rules g]
    by (simp add: renderRules_kept)
  have fwdm: "list_all2 managedExprsEqual (map nr_Exprs fwdRules) ?fwd"
    using echo_chain(2)[of ?fwd "map nr_Exprs fwdRules"] f(2) fwdq(1) emitted_forward[of _ "nf_little nf" iface rules rets]
      forward_kept[of _ "nf_little nf" iface rules rets] by simp
  show ?thesis
  proof
    assume "validateManagedReadback nf iface rules rets g chs natRules fwdRules sets = Inr ()"
    from validate_readback_ok(1)[OF this] show "list_all (burst_kept g) rules" by (simp only: kept)
  next
    assume "list_all (burst_kept g) rules"
    with kept have natm: "list_all2 managedExprsEqual (map nr_Exprs natRules) ?nat" by blast
    have "compare_rules NatRuleDiffers 0 natRules (expectedNatTags rules g) ?nat = Inr ()"
      using natm n(1) natq by (intro compare_rules_refl) simp_all
    moreover have "compare_rules FwdRuleDiffers 0 fwdRules (fwd_tags nf rules rets) ?fwd = Inr ()"
      using fwdm f(1) fwdq(2) by (intro compare_rules_refl) simp_all
    moreover have "length natRules = length ?nat" "length fwdRules = length ?fwd"
      using list_all2_lengthD[OF natm] list_all2_lengthD[OF fwdm] by simp_all
    moreover have "length sets = length (expected_sets rules g)"
      using expected_sets_eq[OF assms(1)] sets guarded_distinct[OF assms(1), of g]
      by (metis distinct_card length_map)
    ultimately show "validateManagedReadback nf iface rules rets g chs natRules fwdRules sets = Inr ()"
      using assms(2) compare_sets_refl[OF assms(1) sets(2)] by (simp add: validateManagedReadback_def Let_def fwd_tags_def)
  qed
qed

lemma check_tags_echo:
  assumes "map nr_UserData natRules = expectedNatTags rules g" "map nr_UserData fwdRules = fwd_tags nf rules rets"
  shows "check_tags nf rules rets (tags_of (natRules @ fwdRules)) = Inr ()"
proof -
  let ?all = "natRules @ fwdRules"
  have tags: "set (map nr_UserData ?all) = set (expectedNatTags rules g) \<union> set (fwd_tags nf rules rets)"
    using assms by simp
  have nonempty: "activeTag r \<noteq> []" "retirementTag k x d \<noteq> []" for r k x d
    by (simp_all add: activeTag_def retirementTag_def)
  have nat: "set (expectedNatTags rules g) - {[]} = activeTag ` set rules"
    using nonempty by (auto simp: expectedNatTags_def Let_def split: if_splits)
  have fwd: "set (fwd_tags nf rules rets) - {[]} = (\<Union>r\<in>set rets. retirementTag (nf_key nf) r ` set both_directions)"
    using nonempty by (auto simp: fwd_tags_def both_directions_def)
  have "tags_of ?all = (set (expectedNatTags rules g) \<union> set (fwd_tags nf rules rets)) - {[]}"
    using tags by (auto simp: tags_of_def)
  then have eq: "tags_of ?all = activeTag ` set rules \<union> (\<Union>r\<in>set rets. retirementTag (nf_key nf) r ` set both_directions)"
    using nat fwd by (simp add: Un_Diff)
  have "scan (\<lambda>_ r. if activeTag r \<in> tags_of ?all then Inr () else Inl (ActiveMissing (ru_MappingID r))) () rules = Inr ()"
    by (rule scan_unit) (simp add: eq)
  moreover have "scan (\<lambda>_ r. if \<forall>d\<in>set both_directions. retirementTag (nf_key nf) r d \<in> tags_of ?all then Inr ()
                        else Inl (RetirementMissing (r_RetirementID r))) () rets = Inr ()"
    by (rule scan_unit) (auto simp: eq)
  ultimately show ?thesis unfolding check_tags_def by (auto simp: eq)
qed

lemma flush_batch_ok: "flush_batch nf ops w = (Inr (), w') \<Longrightarrow> nf_Flush nf ops w = (None, w')"
  by (auto simp: flush_batch_def split: prod.splits option.splits)

lemma ApplyManaged_ok:
  assumes "ApplyManaged nf iface rules rets g w = (Inr (), w')"
  shows "\<exists>ops. managed_batch nf iface rules rets g = Inr ops \<and> nf_Flush nf ops w = (None, w')"
  using assms flush_batch_ok[of nf _ w w'] by (auto simp: ApplyManaged_def split: option.splits sum.splits)

text \<open>
  A kernel that holds the last batch, for witnesses. It reports translations with their upper
  registers and limits with the burst it works with.
\<close>

definition stored_expr :: "expr \<Rightarrow> expr" where
  "stored_expr e = (case burst_fixed e of
     NAT t f a amax q qmax rnd frnd pers pfx \<Rightarrow> NAT t f a (if amax = 0 then a else amax) q (if qmax = 0 then q else qmax) rnd frnd pers pfx
   | x \<Rightarrow> x)"

definition stored_rule :: "nl_rule \<Rightarrow> nl_rule" where
  "stored_rule r = r\<lparr>nr_Exprs := map stored_expr (nr_Exprs r)\<rparr>"

lemma echoes_burst_fixed: "echoes e (burst_fixed e)"
proof (induction e)
  case (Dynset k d n op t i es)
  then show ?case by (simp add: list_all2_map1 list_all2_map2 list_all2_same)
qed auto

lemma echoes_stored: "echoes e (stored_expr e)"
  using echoes_burst_fixed[of e] by (cases e) (auto simp: stored_expr_def)

lemma echoes_stored_rule: "rule_echo r (stored_rule r)"
  by (simp add: rule_echo_def stored_rule_def list_all2_map2 list_all2_same echoes_stored)

definition model_nft :: "nl_op list nft" where
  "model_nft = \<lparr>nf_New = (\<lambda>_. None), nf_AddSet = (\<lambda>_. None), nf_Flush = (\<lambda>ops w. (None, ops)),
     nf_ListTables = (\<lambda>w. Inr (if w = [] then [] else [TableName])),
     nf_ListChains = (\<lambda>w. Inr (List.map_filter op_chain w)),
     nf_GetRules = (\<lambda>c w. Inr (map stored_rule (batch_rules c w))),
     nf_GetSets = (\<lambda>w. Inr (batch_sets w)), nf_GetObjects = (\<lambda>w. Inr []),
     nf_little = True, nf_key = (\<lambda>k. case k of MetaIIFNAME \<Rightarrow> 6 | MetaOIFNAME \<Rightarrow> 7 | MetaL4PROTO \<Rightarrow> 16 | MetaOther n \<Rightarrow> int n)\<rparr>"

definition quiet_guards :: guards where
  "quiet_guards = \<lparr>g_MaxConn = 0, g_NewConnRate = 0, g_NewConnBurst = 0, g_PerSourceRate = 0, g_PerSourceBurst = 0\<rparr>"

text \<open>What can be read after an apply.\<close>

lemma ApplyManaged_reads:
  assumes "kernel_commits nf" "distinct (map ru_MappingID rules)" "ApplyManaged nf iface rules rets g w = (Inr (), w')"
  shows "\<exists>chs natRules fwdRules sets. nf_New nf w' = None \<and> nf_ListChains nf w' = Inr chs \<and> validateOwnedChains chs = Inr ()
    \<and> nf_GetRules nf chainName w' = Inr natRules \<and> nf_GetRules nf fwdChainName w' = Inr fwdRules \<and> nf_GetSets nf w' = Inr sets
    \<and> list_all2 rule_echo (tag_nat_rules rules 0 (renderRules (nf_little nf) iface rules g)) natRules
    \<and> list_all2 rule_echo (fwd_rules nf iface rules rets) fwdRules
    \<and> distinct sets \<and> set sets = set (guarded_sets rules g)"
proof -
  from ApplyManaged_ok[OF assms(3)] obtain ops where batch: "managed_batch nf iface rules rets g = Inr ops"
    and flush: "nf_Flush nf ops w = (None, w')" by blast
  from managed_batch_ok[OF batch] obtain rest where rest: "ops = table_prologue @ rest" "\<forall>x\<in>set rest. op_adds x"
    "batch_sets rest = guarded_sets rules g"
    "batch_rules chainName rest = tag_nat_rules rules 0 (renderRules (nf_little nf) iface rules g)"
    "batch_rules fwdChainName rest = fwd_rules nf iface rules rets" by blast
  have "distinct (batch_sets rest)" unfolding rest(3) by (rule guarded_distinct[OF assms(2)])
  with assms(1) flush rest(1,2) obtain chs natRules fwdRules sets where kernel: "nf_New nf w' = None" "nf_ListChains nf w' = Inr chs"
    "length (filter own_chain chs) = 2" "{nat_chain, fwd_chain} \<subseteq> set (filter own_chain chs)"
    "nf_GetRules nf chainName w' = Inr natRules" "list_all2 rule_echo (batch_rules chainName rest) natRules"
    "nf_GetRules nf fwdChainName w' = Inr fwdRules" "list_all2 rule_echo (batch_rules fwdChainName rest) fwdRules"
    "nf_GetSets nf w' = Inr sets" "distinct sets" "set sets = set (batch_sets rest)"
    unfolding kernel_commits_def by (metis insertCI)
  have "chain_as chainName ChainNAT HookPrerouting PriorityNATDest nat_chain"
    "chain_as fwdChainName ChainFilter HookForward PriorityFilter fwd_chain"
    by (simp_all add: chain_as_def nat_chain_def fwd_chain_def)
  then have "validateOwnedChains chs = Inr ()"
    using kernel(3,4) unfolding validateOwnedChains_def Let_def list_ex_iff by auto
  then show ?thesis using kernel rest(3-5) by auto
qed

lemma ApplyManaged_verifies:
  assumes "kernel_commits nf" "distinct (map ru_MappingID rules)" "ApplyManaged nf iface rules rets g w = (Inr (), w')"
  shows "VerifyManaged nf iface rules rets g w' = Inr () \<longleftrightarrow> list_all (burst_kept g) rules"
proof -
  from ApplyManaged_reads[OF assms] obtain chs natRules fwdRules sets where
    k: "nf_New nf w' = None" "nf_ListChains nf w' = Inr chs" "nf_GetRules nf chainName w' = Inr natRules"
      "nf_GetRules nf fwdChainName w' = Inr fwdRules" "nf_GetSets nf w' = Inr sets"
    and v: "validateOwnedChains chs = Inr ()"
      "list_all2 rule_echo (tag_nat_rules rules 0 (renderRules (nf_little nf) iface rules g)) natRules"
      "list_all2 rule_echo (fwd_rules nf iface rules rets) fwdRules" "distinct sets" "set sets = set (guarded_sets rules g)" by blast
  have "check_tags nf rules rets (tags_of (natRules @ fwdRules)) = Inr ()"
    using rule_echoes(1)[OF v(2)] rule_echoes(1)[OF v(3)] tag_nat_rules_all[of rules "nf_little nf" iface g]
      fwd_rules_parts(2)[of nf iface rules rets] by (intro check_tags_echo) simp_all
  then show ?thesis
    using k validate_readback_echo[OF assms(2) v] by (simp add: VerifyManaged_def rbind_Inr_iff)
qed

text \<open>The chains after an apply evaluate packets as the rules with the kernel's bursts do.\<close>

lemma ApplyManaged_chains:
  assumes "kernel_commits nf" "distinct (map ru_MappingID rules)" "ApplyManaged nf iface rules rets g w = (Inr (), w')"
    and "documented_nft ev"
  shows "\<exists>natRules fwdRules. nf_GetRules nf chainName w' = Inr natRules \<and> nf_GetRules nf fwdChainName w' = Inr fwdRules
    \<and> (\<forall>p. eval_chain ev (map nr_Exprs natRules) p = eval_chain ev (renderRules (nf_little nf) iface (map (corrected g) rules) g) p)
    \<and> (\<forall>p. eval_chain ev (map nr_Exprs fwdRules) p
         = eval_chain ev (renderForwardRules (nf_little nf) iface rules @ retirement_rules (nf_little nf) iface rets) p)"
proof -
  let ?nat = "renderRules (nf_little nf) iface rules g"
  let ?fwd = "renderForwardRules (nf_little nf) iface rules @ retirement_rules (nf_little nf) iface rets"
  from ApplyManaged_reads[OF assms(1-3)] obtain natRules fwdRules where
    k: "nf_GetRules nf chainName w' = Inr natRules" "nf_GetRules nf fwdChainName w' = Inr fwdRules"
    and v: "list_all2 rule_echo (tag_nat_rules rules 0 ?nat) natRules" "list_all2 rule_echo (fwd_rules nf iface rules rets) fwdRules"
    by blast
  have n: "list_all2 (list_all2 echoes) ?nat (map nr_Exprs natRules)"
    using rule_echoes(2)[OF v(1)] tag_nat_rules_all[of rules "nf_little nf" iface g] by simp
  have f: "list_all2 (list_all2 echoes) ?fwd (map nr_Exprs fwdRules)"
    using rule_echoes(2)[OF v(2)] fwd_rules_parts(1)[of nf iface rules rets] by simp
  have "eval_chain ev (map nr_Exprs natRules) p = eval_chain ev (map (map burst_fixed) ?nat) p" for p
    by (rule eval_chain_match[OF assms(4) _ echo_chain(1)[OF n]]) (use emitted_renderRules emitted_burst_fixed in auto)
  moreover have "eval_chain ev (map nr_Exprs fwdRules) p = eval_chain ev ?fwd p" for p
    by (rule eval_chain_match[OF assms(4)])
      (use emitted_forward forward_kept echo_chain(2)[OF f] in blast)+
  ultimately show ?thesis using k by (auto simp: renderRules_corrected)
qed

text \<open>
  C24: on a kernel that commits batches and reports them as documented, verification after a
  successful apply of the same mappings and retirements succeeds exactly when no guard in
  effect has the burst 0: the rules, tags, chains and sets that verification expects are those
  the kernel reports for the apply, the registers the kernel fills in included, but a burst
  the kernel puts in for 0 is not accepted.
\<close>

theorem apply_then_verify:
  assumes "kernel_commits nf" "distinct (map ru_MappingID rules)" "ApplyManaged nf iface rules rets g w = (Inr (), w')"
  shows "VerifyManaged nf iface rules rets g w' = Inr () \<longleftrightarrow> list_all (burst_kept g) rules"
  by (rule ApplyManaged_verifies[OF assms])

lemma model_kernel_commits: "kernel_commits model_nft"
proof -
  have pro: "List.map_filter op_chain table_prologue = [nat_chain, fwd_chain]" "List.map_filter op_rule table_prologue = []"
    "List.map_filter op_set table_prologue = []"
    by (simp_all add: table_prologue_def map_filter_simps)
  have own: "own_chain nat_chain" "own_chain fwd_chain" by (simp_all add: own_chain_def nat_chain_def fwd_chain_def)
  have "List.map_filter op_chain ops = []" if "\<forall>x\<in>set ops. op_adds x" for ops
    using that op_adds_table(2) by (intro map_filter_None) blast
  moreover have "list_all2 rule_echo qs (map stored_rule qs)" for qs
    by (simp add: list_all2_map2 list_all2_same echoes_stored_rule)
  ultimately show ?thesis using pro own by (auto simp: kernel_commits_def model_nft_def batch_rules_def batch_sets_def)
qed

lemma model_batch: "\<exists>ops. managed_batch model_nft iface rules rets g = Inr ops"
proof -
  have "\<exists>ops. object_ops model_nft g acc r = Inr ops" for acc r
    by (simp add: object_ops_def model_nft_def Let_def split: option.split)
  then have "\<exists>ops. scan (object_ops model_nft g) acc rules = Inr ops" for acc
    by (induction rules arbitrary: acc) (auto simp: rbind_def, metis sum.simps(6))
  then obtain ops where "scan (object_ops model_nft g) table_prologue rules = Inr ops" by blast
  then show ?thesis by (simp add: managed_batch_def rbind_def)
qed

lemma model_apply: "\<exists>w'. ApplyManaged model_nft iface rules rets g w = (Inr (), w')"
  using model_batch[of iface rules rets g] by (auto simp: ApplyManaged_def flush_batch_def model_nft_def)

definition example_rule :: rule where
  "example_rule = \<lparr>ru_MappingID = 101, ru_Proto = ''tcp'', ru_PublicPort = 12345, ru_Target = 0x0a640003, ru_TargetPort = 8080,
     ru_SourcePolicy = None, ru_FlowMark = 7, ru_CtMax = None, ru_NewConnRate = Some 100, ru_NewConnBurst = Some 200,
     ru_PerSourceRate = Some 50, ru_PerSourceBurst = None\<rparr>"

lemma example_rule_kept: "burst_kept quiet_guards (example_rule\<lparr>ru_PerSourceBurst := Some 10\<rparr>)" "\<not> burst_kept quiet_guards example_rule"
  by (simp_all add: burst_kept_def example_rule_def effectiveGuards_def override_def quiet_guards_def)

lemma apply_then_verify_witness:
  "\<exists>w' w''. VerifyManaged model_nft ''eth0'' [example_rule\<lparr>ru_PerSourceBurst := Some 10\<rparr>] [example_retirement] quiet_guards w' = Inr ()
     \<and> VerifyManaged model_nft ''eth0'' [example_rule] [example_retirement] quiet_guards w'' \<noteq> Inr ()"
proof -
  obtain w' w'' where run:
    "ApplyManaged model_nft ''eth0'' [example_rule\<lparr>ru_PerSourceBurst := Some 10\<rparr>] [example_retirement] quiet_guards [] = (Inr (), w')"
    "ApplyManaged model_nft ''eth0'' [example_rule] [example_retirement] quiet_guards [] = (Inr (), w'')"
    using model_apply by metis
  from apply_then_verify[OF model_kernel_commits _ run(1)] apply_then_verify[OF model_kernel_commits _ run(2)] example_rule_kept
  show ?thesis by auto
qed

lemma verified_table_behaves_witness:
  "\<exists>w fwdRules. nf_GetRules model_nft fwdChainName w = Inr fwdRules
     \<and> eval_chain model_ev (map nr_Exprs fwdRules) example_packet = DropV"
proof -
  obtain w' where w': "ApplyManaged model_nft ''eth0'' [] [example_retirement] quiet_guards [] = (Inr (), w')"
    using model_apply by blast
  have ok: "VerifyManaged model_nft ''eth0'' [] [example_retirement] quiet_guards w' = Inr ()"
    using ApplyManaged_verifies[OF model_kernel_commits _ w'] by simp
  have le: "nf_little model_nft" by (simp add: model_nft_def)
  have ct: "pk_ct example_packet CtSTATUS = native32 True 0x20" by (simp add: example_packet_def)
  have "eval_rule model_ev (retirementDropExprs True ''eth0'' example_retirement MetaIIFNAME) example_packet R = Some DropV" for R
    unfolding eval_retirement_drop[OF model_ev_documented ct]
    by (simp add: retired_flow_def example_packet_def example_retirement_def proto_byte_def protoTCP_def ProtoUDP_def)
  then have "eval_chain model_ev (retirement_rules True ''eth0'' [example_retirement]) example_packet = DropV"
    by (simp add: retirement_rules_def both_directions_def)
  with verified_table_behaves[OF ok model_ev_documented] le show ?thesis
    by (intro exI[of _ w']) (auto simp: renderForwardRules_def)
qed

subsection \<open>What a batch does to the tables of the host\<close>

text \<open>
  A reference for the transaction: the tables of the host, each with what was added to it in
  order. Adding a table that is there changes nothing, deleting one that is not there fails, as
  does adding to a table or a rule to a chain that is not there; a failure gives up the batch.
\<close>

type_synonym tables = "table \<rightharpoonup> nl_op list"

definition add_to :: "table option \<Rightarrow> nl_op \<Rightarrow> tables \<Rightarrow> tables option" where
  "add_to t x ts = (case t of None \<Rightarrow> None | Some t \<Rightarrow> (case ts t of None \<Rightarrow> None | Some xs \<Rightarrow> Some (ts(t \<mapsto> xs @ [x]))))"

definition has_chain :: "table \<Rightarrow> string \<Rightarrow> tables \<Rightarrow> bool" where
  "has_chain t c ts = (case ts t of None \<Rightarrow> False | Some xs \<Rightarrow> list_ex (\<lambda>x. case x of AddChain y \<Rightarrow> ch_Name y = c | _ \<Rightarrow> False) xs)"

fun run_op :: "nl_op \<Rightarrow> tables \<Rightarrow> tables option" where
  "run_op (AddTable t) ts = (case ts t of None \<Rightarrow> Some (ts(t \<mapsto> [])) | Some _ \<Rightarrow> Some ts)"
| "run_op (DelTable t) ts = (case ts t of None \<Rightarrow> None | Some _ \<Rightarrow> Some (ts(t := None)))"
| "run_op (AddRule r) ts = (if has_chain (nr_Table r) (nr_Chain r) ts then add_to (Some (nr_Table r)) (AddRule r) ts else None)"
| "run_op x ts = add_to (op_table x) x ts"

fun run_batch :: "nl_op list \<Rightarrow> tables \<Rightarrow> tables option" where
  "run_batch [] ts = Some ts"
| "run_batch (x # xs) ts = (case run_op x ts of None \<Rightarrow> None | Some ts' \<Rightarrow> run_batch xs ts')"

lemma run_batch_append: "run_batch (xs @ ys) ts = (case run_batch xs ts of None \<Rightarrow> None | Some ts' \<Rightarrow> run_batch ys ts')"
  by (induction xs arbitrary: ts) (auto split: option.split)

lemma run_prologue: "run_batch table_prologue ts = Some (ts(own_table \<mapsto> [AddChain nat_chain, AddChain fwd_chain]))"
  by (cases "ts own_table") (simp_all add: table_prologue_def add_to_def nat_chain_def fwd_chain_def)

text \<open>Operations that only add to the two chains of the table add to it in order.\<close>

definition op_lands :: "nl_op \<Rightarrow> bool" where
  "op_lands x \<longleftrightarrow> op_adds x \<and> (\<forall>r. x = AddRule r \<longrightarrow> nr_Chain r \<in> {chainName, fwdChainName})"

lemma run_adds:
  assumes "\<forall>x\<in>set ops. op_lands x" "ts own_table = Some ([AddChain nat_chain, AddChain fwd_chain] @ xs)"
  shows "run_batch ops ts = Some (ts(own_table \<mapsto> [AddChain nat_chain, AddChain fwd_chain] @ xs @ ops))"
  using assms
proof (induction ops arbitrary: ts xs)
  case Nil
  then show ?case by auto
next
  case (Cons x ops)
  let ?ts = "ts(own_table \<mapsto> [AddChain nat_chain, AddChain fwd_chain] @ xs @ [x])"
  have "run_op x ts = Some ?ts"
    using Cons.prems by (cases x) (auto simp: op_lands_def has_chain_def add_to_def nat_chain_def fwd_chain_def)
  moreover have "run_batch ops ?ts = Some (?ts(own_table \<mapsto> [AddChain nat_chain, AddChain fwd_chain] @ (xs @ [x]) @ ops))"
    using Cons.prems(1) by (intro Cons.IH) simp_all
  ultimately show ?case by (simp only: run_batch.simps option.case fun_upd_upd append_assoc append.simps)
qed

lemma run_replacement:
  assumes "\<forall>x\<in>set ops. op_lands x"
  shows "run_batch (table_prologue @ ops) ts = Some (ts(own_table \<mapsto> [AddChain nat_chain, AddChain fwd_chain] @ ops))"
  using run_adds[OF assms, of "ts(own_table \<mapsto> [AddChain nat_chain, AddChain fwd_chain])" "[]"]
  by (simp add: run_batch_append run_prologue)

text \<open>The objects of a mapping: its six counters, and the set of its per-source guard.\<close>

definition mapping_objects :: "guards \<Rightarrow> rule \<Rightarrow> nl_op list" where
  "mapping_objects g r = map (\<lambda>sfx. AddObj own_table (CounterObj (counterName (ru_MappingID r) sfx) 0 0)) counterSuffixes
     @ (if g_PerSourceRate (effectiveGuards r g) > 0 then [AddSet own_table (perSourceSet (ru_MappingID r))] else [])"

lemma object_ops_objects:
  "scan (object_ops nf g) ops rules = Inr ops' \<Longrightarrow> ops' = ops @ concat (map (mapping_objects g) rules)"
proof (induction rules arbitrary: ops)
  case (Cons r rules)
  from Cons.prems have "scan (object_ops nf g) (ops @ mapping_objects g r) rules = Inr ops'"
    by (auto simp: object_ops_def[of nf g ops r] mapping_objects_def Let_def split: if_splits option.splits)
  from Cons.IH[OF this] show ?case by simp
qed simp

text \<open>
  C25: an apply and a quarantine replace the agent's own table as a whole and touch no other
  table. Whatever tables the host has, and whatever the agent's table held, the batch goes
  through and leaves the table with its two chains and exactly what is rendered for the
  mappings and retirements (or the two quarantine rules), in order. An apply that succeeds
  flushed that batch, and one that fails before the flush leaves the kernel as it is.
\<close>

theorem only_own_table:
  "(\<forall>ops ts. managed_batch nf iface rules rets g = Inr ops \<longrightarrow> run_batch ops ts = Some (ts(own_table \<mapsto>
       [AddChain nat_chain, AddChain fwd_chain] @ concat (map (mapping_objects g) rules)
       @ map AddRule (tag_nat_rules rules 0 (renderRules (nf_little nf) iface rules g))
       @ map AddRule (fwd_rules nf iface rules rets))))
   \<and> (\<forall>ts. run_batch (quarantine_batch nf iface) ts = Some (ts(own_table \<mapsto>
       [AddChain nat_chain, AddChain fwd_chain] @ map AddRule (quarantine_rules nf iface))))
   \<and> (\<forall>w'. ApplyManaged nf iface rules rets g w = (Inr (), w') \<longrightarrow>
       (\<exists>ops. managed_batch nf iface rules rets g = Inr ops \<and> nf_Flush nf ops w = (None, w')))
   \<and> (\<forall>e. managed_batch nf iface rules rets g = Inl e \<longrightarrow> snd (ApplyManaged nf iface rules rets g w) = w)"
proof (intro conjI allI impI)
  let ?rules = "map AddRule (tag_nat_rules rules 0 (renderRules (nf_little nf) iface rules g)) @ map AddRule (fwd_rules nf iface rules rets)"
  fix ops ts assume "managed_batch nf iface rules rets g = Inr ops"
  then have ops: "ops = table_prologue @ concat (map (mapping_objects g) rules) @ ?rules"
    using object_ops_objects[of nf g table_prologue rules] by (auto simp: managed_batch_def rbind_Inr_iff)
  have "\<forall>x\<in>set (concat (map (mapping_objects g) rules) @ ?rules). op_lands x"
    using tag_nat_rules_all[of rules "nf_little nf" iface g]
    by (auto simp: op_lands_def mapping_objects_def fwd_rules_def fwd_rule_def split: if_splits)
  from run_replacement[OF this] show "run_batch ops ts = Some (ts(own_table \<mapsto>
       [AddChain nat_chain, AddChain fwd_chain] @ concat (map (mapping_objects g) rules) @ ?rules))" by (simp add: ops)
next
  fix ts
  have "\<forall>x\<in>set (map AddRule (quarantine_rules nf iface)). op_lands x"
    by (auto simp: op_lands_def quarantine_rules_def fwd_rule_def)
  from run_replacement[OF this] show "run_batch (quarantine_batch nf iface) ts = Some (ts(own_table \<mapsto>
       [AddChain nat_chain, AddChain fwd_chain] @ map AddRule (quarantine_rules nf iface)))" by (simp add: quarantine_batch_def)
qed (use ApplyManaged_ok in \<open>auto simp: ApplyManaged_def split: option.split\<close>)

lemma only_own_table_witness:
  "\<exists>ops. managed_batch model_nft ''eth0'' [] [] quiet_guards = Inr ops
     \<and> run_batch ops [(FamilyIPv4, ''other'') \<mapsto> [], own_table \<mapsto> [AddChain fwd_chain]]
       = Some [(FamilyIPv4, ''other'') \<mapsto> [], own_table \<mapsto> [AddChain nat_chain, AddChain fwd_chain]]"
proof -
  obtain ops where ops: "managed_batch model_nft ''eth0'' [] [] quiet_guards = Inr ops" using model_batch by blast
  with only_own_table[of model_nft "''eth0''" "[]" "[]" quiet_guards "[]"] show ?thesis
    by (auto simp: renderRules_def fwd_rules_def renderForwardRules_def)
qed

lemma VerifyQuarantine_ok:
  assumes "VerifyQuarantine nf iface w = Inr ()"
  shows "nf_GetRules nf chainName w = Inr [] \<and> (\<exists>fwdRules. nf_GetRules nf fwdChainName w = Inr fwdRules
    \<and> list_all2 managedExprsEqual (map nr_Exprs fwdRules) (map (quarantineDropExprs (nf_little nf) iface) both_directions))"
  using assms
  by (auto simp: VerifyQuarantine_def rbind_Inr_iff list_all2_map1 list_all2_map2 rule_matches_def
      elim!: list_all2_mono split: option.splits if_splits)

text \<open>
  C26: when a quarantine reports success, the kernel translates no new connection and drops
  every already translated flow on the public interface; other traffic passes.
\<close>

theorem quarantine_effect:
  assumes "ApplyQuarantine nf iface w = (Inr (), w')" "documented_nft ev" "pk_ct p CtSTATUS = native32 (nf_little nf) st"
  shows "\<exists>natRules fwdRules. nf_GetRules nf chainName w' = Inr natRules \<and> nf_GetRules nf fwdChainName w' = Inr fwdRules
    \<and> eval_chain ev (map nr_Exprs natRules) p = AcceptV
    \<and> eval_chain ev (map nr_Exprs fwdRules) p = (if bit st 5 \<and> crosses iface p then DropV else AcceptV)"
proof -
  have "VerifyQuarantine nf iface w' = Inr ()"
    using assms(1) by (auto simp: ApplyQuarantine_def split: option.splits prod.splits sum.splits)
  from VerifyQuarantine_ok[OF this] obtain fwdRules where nat: "nf_GetRules nf chainName w' = Inr []"
    and fwd: "nf_GetRules nf fwdChainName w' = Inr fwdRules"
      "list_all2 managedExprsEqual (map nr_Exprs fwdRules) (map (quarantineDropExprs (nf_little nf) iface) both_directions)" by blast
  have "eval_chain ev (map nr_Exprs fwdRules) p = eval_chain ev (map (quarantineDropExprs (nf_little nf) iface) both_directions) p"
    by (rule eval_chain_match[OF assms(2) _ fwd(2)]) (auto dest: emitted_quarantine)
  also have "\<dots> = (if bit st 5 \<and> crosses iface p then DropV else AcceptV)"
    by (auto simp: both_directions_def eval_quarantine_drop[OF assms(2,3)] crosses_def)
  finally show ?thesis using nat fwd(1) by auto
qed

lemma quarantine_effect_witness:
  "\<exists>w' fwdRules. ApplyQuarantine model_nft ''eth0'' [] = (Inr (), w') \<and> nf_GetRules model_nft fwdChainName w' = Inr fwdRules
     \<and> eval_chain model_ev (map nr_Exprs fwdRules) example_packet = DropV"
proof -
  have same: "map stored_expr (quarantineDropExprs le iface d) = quarantineDropExprs le iface d" for le iface d
    by (simp add: quarantineDropExprs_def dnatMask_def stored_expr_def)
  have run: "ApplyQuarantine model_nft ''eth0'' [] = (Inr (), quarantine_batch model_nft ''eth0'')"
    by (simp add: ApplyQuarantine_def model_nft_def flush_batch_def VerifyQuarantine_def read_nft_def quarantine_batch_def
        quarantine_rules_def table_prologue_def map_filter_simps batch_rules_def batch_sets_def both_directions_def
        fwd_rule_def chainName_def fwdChainName_def validateOwnedChains_def own_chain_def nat_chain_def fwd_chain_def
        chain_as_def rule_matches_def managedExprsEqual_refl emitted_quarantine stored_rule_def same)
  have ct: "pk_ct example_packet CtSTATUS = native32 (nf_little model_nft) 0x20" by (simp add: example_packet_def model_nft_def)
  have "crosses ''eth0'' example_packet" by (simp add: crosses_def example_packet_def)
  with quarantine_effect[OF run model_ev_documented ct] run show ?thesis by auto
qed

subsection \<open>Reading counters\<close>

definition packets_of :: "string \<Rightarrow> kcounters \<Rightarrow> u64" where
  "packets_of sfx c =
     (if sfx = ''new'' then k_NewConns c else if sfx = ''in'' then k_InPackets c else if sfx = ''out'' then k_OutPackets c
      else if sfx = ''rd'' then k_RateDropped c else if sfx = ''cd'' then k_ConnDropped c else k_PerSourceDropped c)"

definition bytes_of :: "string \<Rightarrow> kcounters \<Rightarrow> u64" where
  "bytes_of sfx c = (if sfx = ''in'' then k_InBytes c else k_OutBytes c)"

lemma set_counter_same:
  "sfx \<in> set counterSuffixes \<Longrightarrow> packets_of sfx (set_counter sfx b p c) = p"
  "sfx \<in> {''in'', ''out''} \<Longrightarrow> bytes_of sfx (set_counter sfx b p c) = b"
  by (auto simp: counterSuffixes_def packets_of_def bytes_of_def set_counter_def)

lemma set_counter_other:
  "sfx \<in> set counterSuffixes \<Longrightarrow> s \<in> set counterSuffixes \<Longrightarrow> s \<noteq> sfx \<Longrightarrow> packets_of sfx (set_counter s b p c) = packets_of sfx c"
  "sfx \<in> {''in'', ''out''} \<Longrightarrow> s \<noteq> sfx \<Longrightarrow> bytes_of sfx (set_counter s b p c) = bytes_of sfx c"
  by (auto simp: counterSuffixes_def packets_of_def bytes_of_def set_counter_def)

definition reads_as :: "int \<Rightarrow> string \<Rightarrow> u64 \<Rightarrow> u64 \<Rightarrow> (int \<times> kcounters) list \<Rightarrow> bool" where
  "reads_as i sfx b p out \<longleftrightarrow> (\<exists>c. map_of out i = Some c \<and> packets_of sfx c = p \<and> (sfx \<in> {''in'', ''out''} \<longrightarrow> bytes_of sfx c = b))"

fun canonical_object :: "nl_obj \<Rightarrow> bool" where
  "canonical_object (CounterObj n b p) = (\<forall>i s. parseCounterName n = Some (i, s) \<longrightarrow> n = counterName i s)"
| "canonical_object (OtherObj n) = True"

fun object_name :: "nl_obj \<Rightarrow> string" where
  "object_name (CounterObj n b p) = n"
| "object_name (OtherObj n) = n"

lemma parseCounterName_suffix: "parseCounterName n = Some (i, s) \<Longrightarrow> s \<in> set counterSuffixes"
  by (auto simp: parseCounterName_def split: option.splits prod.splits if_splits)

lemma read_object_keeps:
  assumes "reads_as i sfx b p out" "canonical_object obj" "object_name obj \<noteq> counterName i sfx" "sfx \<in> set counterSuffixes"
  shows "reads_as i sfx b p (read_object obj out)"
proof (cases obj)
  case (CounterObj n b' p')
  show ?thesis
  proof (cases "parseCounterName n")
    case (Some js)
    obtain j s where js: "js = (j, s)" by (cases js)
    with Some assms(2,3) CounterObj have "(j, s) \<noteq> (i, sfx)" by auto
    moreover have "s \<in> set counterSuffixes" using parseCounterName_suffix Some js by blast
    ultimately show ?thesis
      using assms(1,4) CounterObj Some js
      by (cases "j = i") (auto simp: reads_as_def read_object_def update_conv' set_counter_other)
  qed (use assms(1) CounterObj in \<open>simp add: read_object_def\<close>)
qed (use assms(1) in \<open>simp add: read_object_def\<close>)

lemma fold_read_object_keeps:
  assumes "reads_as i sfx b p out" "\<forall>x\<in>set objs. canonical_object x \<and> object_name x \<noteq> counterName i sfx" "sfx \<in> set counterSuffixes"
  shows "reads_as i sfx b p (fold read_object objs out)"
  using assms(1,2)
proof (induction objs arbitrary: out)
  case (Cons x objs)
  then have "reads_as i sfx b p (read_object x out)" using read_object_keeps[OF _ _ _ assms(3)] by simp
  with Cons show ?case by simp
qed simp

text \<open>
  C27: reading the counters returns, for every counter object of the table, the packets (and
  for the two volume counters the bytes) under its mapping id, whatever other objects the
  table holds. The names are distinct and written as the agent writes them.
\<close>

theorem read_counters_exact:
  assumes "nf_New nf w = None" "nf_GetObjects nf w = Inr objs" "distinct (map object_name objs)" "\<forall>x\<in>set objs. canonical_object x"
    and "CounterObj (counterName i sfx) b p \<in> set objs" "0 \<le> i" "i < 2 ^ 63" "sfx \<in> set counterSuffixes"
  shows "\<exists>out c. ReadCounters nf w = Inr out \<and> map_of out i = Some c \<and> packets_of sfx c = p
    \<and> (sfx \<in> {''in'', ''out''} \<longrightarrow> bytes_of sfx c = b)"
proof -
  from assms(5) obtain xs ys where split: "objs = xs @ CounterObj (counterName i sfx) b p # ys" by (meson split_list)
  let ?out = "fold read_object xs []"
  have "reads_as i sfx b p (read_object (CounterObj (counterName i sfx) b p) ?out)"
    using parseCounterName_counterName[OF assms(6-8)] assms(8)
    by (auto simp: reads_as_def read_object_def update_conv' set_counter_same)
  moreover have "counterName i sfx \<notin> object_name ` set ys" using assms(3) split by simp
  then have "\<forall>x\<in>set ys. canonical_object x \<and> object_name x \<noteq> counterName i sfx"
    using assms(4) split by (metis Un_iff image_eqI list.set_intros(2) set_append)
  ultimately have "reads_as i sfx b p (fold read_object objs [])"
    using fold_read_object_keeps[OF _ _ assms(8)] split by simp
  then show ?thesis using assms(1,2) by (auto simp: ReadCounters_def read_nft_def reads_as_def)
qed

lemma read_counters_exact_witness:
  "\<exists>out c. ReadCounters (model_nft\<lparr>nf_GetObjects := (\<lambda>w. Inr [CounterObj (counterName 101 ''in'') 1500 3])\<rparr>) [] = Inr out
     \<and> map_of out 101 = Some c \<and> packets_of ''in'' c = 3 \<and> (''in'' \<in> {''in'', ''out''} \<longrightarrow> bytes_of ''in'' c = 1500)"
proof (rule read_counters_exact[where objs = "[CounterObj (counterName 101 ''in'') 1500 3]"])
  have "parseCounterName (counterName 101 ''in'') = Some (101, ''in'')"
    by (rule parseCounterName_counterName) (simp_all add: counterSuffixes_def)
  then show "\<forall>x\<in>set [CounterObj (counterName 101 ''in'') 1500 3]. canonical_object x" by simp
qed (simp_all add: model_nft_def counterSuffixes_def)

end
