(* ===== verification/Utf8.thy ===== *)
theory Utf8
  imports Go_Strings
begin

text \<open>
  UTF-8 as Go's \<open>unicode/utf8\<close> and \<open>range\<close> over a string read and write it: decoding takes
  the shortest well-formed sequence at the front, or one byte as the replacement rune.

  Shown: what encoding writes is decoded again as the same bytes, text made of encoded runes
  is valid, and cutting a valid text loses at most three further bytes to reach a boundary.
\<close>

definition cont_byte :: "char \<Rightarrow> bool" where
  "cont_byte c = (128 \<le> byte_of c \<and> byte_of c \<le> 191)"

text \<open>The range of the second byte of a longer sequence depends on the first.\<close>

definition second_ok :: "nat \<Rightarrow> char \<Rightarrow> bool" where
  "second_ok b0 c = (let b = byte_of c
     in (if b0 = 224 then 160 else if b0 = 240 then 144 else 128) \<le> b
        \<and> b \<le> (if b0 = 237 then 159 else if b0 = 244 then 143 else 191))"

text \<open>The length of the well-formed sequence at the front, 0 when there is none.\<close>

fun utf8_width :: "string \<Rightarrow> nat" where
  "utf8_width [] = 0"
| "utf8_width (c0 # s) =
     (let b0 = byte_of c0
      in if b0 < 128 then 1
         else if 194 \<le> b0 \<and> b0 \<le> 223 then
           (case s of c1 # _ \<Rightarrow> if cont_byte c1 then 2 else 0 | _ \<Rightarrow> 0)
         else if 224 \<le> b0 \<and> b0 \<le> 239 then
           (case s of c1 # c2 # _ \<Rightarrow> if second_ok b0 c1 \<and> cont_byte c2 then 3 else 0 | _ \<Rightarrow> 0)
         else if 240 \<le> b0 \<and> b0 \<le> 244 then
           (case s of c1 # c2 # c3 # _ \<Rightarrow> if second_ok b0 c1 \<and> cont_byte c2 \<and> cont_byte c3 then 4 else 0 | _ \<Rightarrow> 0)
         else 0)"

definition rune_error :: nat where "rune_error = 0xFFFD"

definition rune_value :: "nat \<Rightarrow> string \<Rightarrow> nat" where
  "rune_value n s =
     (let b = (\<lambda>i. byte_of (s ! i))
      in if n = 1 then b 0
         else if n = 2 then (b 0 - 192) * 64 + (b 1 - 128)
         else if n = 3 then ((b 0 - 224) * 64 + (b 1 - 128)) * 64 + (b 2 - 128)
         else (((b 0 - 240) * 64 + (b 1 - 128)) * 64 + (b 2 - 128)) * 64 + (b 3 - 128))"

definition decode_rune :: "string \<Rightarrow> nat \<times> nat" where
  "decode_rune s = (if utf8_width s = 0 then (rune_error, 1) else (rune_value (utf8_width s) s, utf8_width s))"

definition valid_rune :: "nat \<Rightarrow> bool" where
  "valid_rune r = (r < 0xD800 \<or> 0xE000 \<le> r \<and> r \<le> 0x10FFFF)"

definition encode_valid :: "nat \<Rightarrow> string" where
  "encode_valid r =
     bytes (if r < 0x80 then [r]
      else if r < 0x800 then [192 + r div 64, 128 + r mod 64]
      else if r < 0x10000 then [224 + r div 4096, 128 + r div 64 mod 64, 128 + r mod 64]
      else [240 + r div 262144, 128 + r div 4096 mod 64, 128 + r div 64 mod 64, 128 + r mod 64])"

definition encode_rune :: "nat \<Rightarrow> string" where
  "encode_rune r = encode_valid (if valid_rune r then r else rune_error)"

lemma decode_rune_width: "s \<noteq> [] \<Longrightarrow> 0 < snd (decode_rune s)"
  by (simp add: decode_rune_def)

lemma utf8_width_bounds: "utf8_width s \<le> 4 \<and> utf8_width s \<le> length s"
  by (cases s) (auto simp: Let_def split: list.split)

text \<open>\<open>for _, r := range s\<close>.\<close>

function runes :: "string \<Rightarrow> nat list" where
  "runes [] = []"
| "runes (c # s) = fst (decode_rune (c # s)) # runes (drop (snd (decode_rune (c # s))) (c # s))"
  by pat_completeness auto
termination
  by (relation "measure length") (use decode_rune_width in \<open>auto simp del: utf8_width.simps\<close>)

function valid_utf8 :: "string \<Rightarrow> bool" where
  "valid_utf8 [] = True"
| "valid_utf8 (c # s) = (if utf8_width (c # s) = 0 then False else valid_utf8 (drop (utf8_width (c # s)) (c # s)))"
  by pat_completeness auto
termination
  by (relation "measure length") (auto simp del: utf8_width.simps)

declare utf8_width.simps [simp del] runes.simps(2) [simp del] valid_utf8.simps(2) [simp del]

subsection \<open>Encoding\<close>

lemma byte_of_char_of [simp]: "n < 256 \<Longrightarrow> byte_of (char_of n) = n"
  by (simp add: byte_of_def of_char_of)

lemma char_of_byte_of [simp]: "char_of (byte_of c) = c"
  by (simp add: byte_of_def)

text \<open>Runes as numbers to the base 64, the payload of a continuation byte.\<close>

definition base64 :: "nat \<Rightarrow> nat \<Rightarrow> nat \<Rightarrow> nat \<Rightarrow> nat" where
  "base64 a b c d = 262144 * a + 4096 * b + 64 * c + d"

lemma base64_digits:
  assumes "b < 64" "c < 64" "d < 64"
  shows "base64 a b c d mod 64 = d" "base64 a b c d div 64 mod 64 = c" "base64 a b c d div 4096 mod 64 = b"
    "base64 a b c d div 262144 = a" "base64 a b c d div 4096 = a * 64 + b" "base64 a b c d div 64 = (a * 64 + b) * 64 + c"
proof -
  have v: "base64 a b c d = ((a * 64 + b) * 64 + c) * 64 + d" by (simp add: base64_def)
  show d: "base64 a b c d mod 64 = d" and c: "base64 a b c d div 64 = (a * 64 + b) * 64 + c"
    using assms(3) div_mult_self3[of 64 "(a * 64 + b) * 64 + c" d] mod_mult_self3[of "(a * 64 + b) * 64 + c" 64 d] unfolding v by simp_all
  have "base64 a b c d div 4096 = base64 a b c d div 64 div 64" by (simp add: div_mult2_eq[symmetric])
  then show b: "base64 a b c d div 4096 = a * 64 + b" using assms(2) c by simp
  have "base64 a b c d div 262144 = base64 a b c d div 4096 div 64" by (simp add: div_mult2_eq[symmetric])
  then show "base64 a b c d div 262144 = a" using assms(1) b by simp
  show "base64 a b c d div 64 mod 64 = c" "base64 a b c d div 4096 mod 64 = b" using assms mod_mult_self3[of "a * 64 + b" 64 c] mod_mult_self3[of a 64 b] unfolding b c by simp_all
qed

lemma base64_cases:
  obtains a b c d where "r = base64 a b c d" "b < 64" "c < 64" "d < 64"
proof (rule that)
  show "r = base64 (r div 262144) (r div 4096 mod 64) (r div 64 mod 64) (r mod 64)"
  proof -
    have q: "r div 4096 = r div 64 div 64" "r div 262144 = r div 4096 div 64" by (simp_all add: div_mult2_eq[symmetric])
    have "64 * (r div 262144) + r div 4096 mod 64 = r div 4096" unfolding q(2) by (rule mult_div_mod_eq)
    moreover have "64 * (r div 4096) + r div 64 mod 64 = r div 64" unfolding q(1) by (rule mult_div_mod_eq)
    moreover have "64 * (r div 64) + r mod 64 = r" by (rule mult_div_mod_eq)
    ultimately show ?thesis unfolding base64_def by linarith
  qed
qed simp_all

lemma utf8_width_encode: 
  assumes "valid_rune r"
  shows "utf8_width (encode_valid r @ s) = length (encode_valid r) \<and> 0 < length (encode_valid r)"
proof -
  obtain a b c d where r: "r = base64 a b c d" and lt: "b < 64" "c < 64" "d < 64" by (rule base64_cases)
  note eq = base64_digits[OF lt, of a, folded r]
  note val = r[unfolded base64_def]
  consider "r < 0x80" | "0x80 \<le> r" "r < 0x800" | "0x800 \<le> r" "r < 0x10000" | "0x10000 \<le> r" by linarith
  then show ?thesis
  proof cases
    case 1
    then show ?thesis by (simp add: encode_valid_def bytes_def utf8_width.simps)
  next
    case 2
    have "a < 1" using 2 val by linarith
    moreover have "b < 1" using 2 val by linarith
    moreover have "c < 32" using 2 val by linarith
    moreover have "1 < c" using 2 val lt calculation by linarith
    ultimately show ?thesis
      using 2 lt by (simp add: encode_valid_def bytes_def utf8_width.simps cont_byte_def eq)
  next
    case 3
    have "a < 1" using 3 val by linarith
    with 3 have ab: "a = 0" "b < 16" "b = 0 \<Longrightarrow> 32 \<le> c" "b = 13 \<Longrightarrow> c < 32"
      using val lt assms by (auto simp: valid_rune_def)
    with 3 lt show ?thesis
      by (auto simp add: encode_valid_def bytes_def utf8_width.simps cont_byte_def second_ok_def Let_def eq)
  next
    case 4
    then have ab: "a < 5" "a = 0 \<Longrightarrow> 16 \<le> b" "a = 4 \<Longrightarrow> b < 16"
      using val lt assms by (auto simp: valid_rune_def)
    with 4 lt show ?thesis
      by (auto simp add: encode_valid_def bytes_def utf8_width.simps cont_byte_def second_ok_def Let_def eq)
  qed
qed

lemma encode_valid_high:
  assumes "valid_rune r" "0x80 \<le> r" "c \<in> set (encode_valid r)"
  shows "128 \<le> byte_of c"
proof -
  have high: "128 \<le> byte_of (char_of n)" if "128 \<le> n" "n < 256" for n :: nat using that by simp
  have m: "x mod 64 < 64" for x :: nat by simp
  consider "r < 0x800" | "0x800 \<le> r" "r < 0x10000" | "0x10000 \<le> r" "r < 0x140000"
    using assms(1) unfolding valid_rune_def by linarith
  then show ?thesis
  proof cases
    case 1
    then have "r div 64 < 32" using less_mult_imp_div_less[of r 32 64] by simp
    with 1 assms(2,3) m[of r] show ?thesis by (auto simp: encode_valid_def bytes_def simp del: byte_of_char_of intro!: high)
  next
    case 2
    then have "r div 4096 < 16" using less_mult_imp_div_less[of r 16 4096] by simp
    with 2 assms(2,3) m[of r] m[of "r div 64"] show ?thesis
      by (auto simp: encode_valid_def bytes_def simp del: byte_of_char_of mod_less_divisor intro!: high)
  next
    case 3
    then have "r div 262144 < 5" using less_mult_imp_div_less[of r 5 262144] by simp
    with 3 assms(2,3) m[of r] m[of "r div 64"] m[of "r div 4096"] show ?thesis
      by (auto simp: encode_valid_def bytes_def simp del: byte_of_char_of mod_less_divisor intro!: high)
  qed
qed

lemma valid_rune_error [simp]: "valid_rune rune_error"
  by (simp add: valid_rune_def rune_error_def)

lemma encode_rune_width: "utf8_width (encode_rune r @ s) = length (encode_rune r) \<and> 0 < length (encode_rune r)"
  using utf8_width_encode[of r s] utf8_width_encode[of rune_error s] by (simp add: encode_rune_def)

lemma rune_value_valid:
  assumes "utf8_width s \<noteq> 0"
  shows "valid_rune (rune_value (utf8_width s) s) \<and> encode_valid (rune_value (utf8_width s) s) = take (utf8_width s) s"
proof -
  obtain c0 t where s: "s = c0 # t" using assms by (cases s) (auto simp: utf8_width.simps)
  consider (one) "byte_of c0 < 128" | (two) c1 u where "t = c1 # u" "194 \<le> byte_of c0" "byte_of c0 \<le> 223" "cont_byte c1"
    | (three) c1 c2 u where "t = c1 # c2 # u" "224 \<le> byte_of c0" "byte_of c0 \<le> 239" "second_ok (byte_of c0) c1" "cont_byte c2"
    | (four) c1 c2 c3 u where "t = c1 # c2 # c3 # u" "240 \<le> byte_of c0" "byte_of c0 \<le> 244" "second_ok (byte_of c0) c1" "cont_byte c2" "cont_byte c3"
    using assms by (auto simp: s utf8_width.simps Let_def split: if_splits list.splits)
  then show ?thesis
  proof cases
    case one
    then show ?thesis by (simp add: s utf8_width.simps rune_value_def valid_rune_def encode_valid_def bytes_def)
  next
    case two
    define x y where "x = byte_of c0 - 192" and "y = byte_of c1 - 128"
    have xy: "byte_of c0 = 192 + x" "byte_of c1 = 128 + y" "2 \<le> x" "x < 32" "y < 64"
      using two by (auto simp: cont_byte_def x_def y_def)
    have w: "utf8_width s = 2" using two by (simp add: s utf8_width.simps)
    have v: "rune_value 2 s = base64 0 0 x y" using two xy(1,2) by (simp add: s rune_value_def base64_def)
    have r: "0x80 \<le> base64 0 0 x y" "base64 0 0 x y < 0x800" using xy(3-5) by (simp_all add: base64_def)
    then have "encode_valid (base64 0 0 x y) = bytes [byte_of c0, byte_of c1]"
      using xy base64_digits[of 0 x y 0] by (simp add: encode_valid_def)
    with r w v two show ?thesis by (simp add: s valid_rune_def bytes_def)
  next
    case three
    define x y z where "x = byte_of c0 - 224" and "y = byte_of c1 - 128" and "z = byte_of c2 - 128"
    have xy: "byte_of c0 = 224 + x" "byte_of c1 = 128 + y" "byte_of c2 = 128 + z" "x < 16" "y < 64" "z < 64"
      "x = 0 \<Longrightarrow> 32 \<le> y" "x = 13 \<Longrightarrow> y < 32"
      using three by (auto simp: cont_byte_def second_ok_def Let_def x_def y_def z_def split: if_splits)
    have w: "utf8_width s = 3" using three by (simp add: s utf8_width.simps)
    have v: "rune_value 3 s = base64 0 x y z" using three xy(1-3) by (simp add: s rune_value_def base64_def)
    have lo: "0x800 \<le> base64 0 x y z" using xy(7) by (cases "x = 0") (auto simp: base64_def)
    moreover have "base64 0 x y z < 0x10000" using xy(4-6) by (simp add: base64_def)
    ultimately have "encode_valid (base64 0 x y z) = bytes [byte_of c0, byte_of c1, byte_of c2]"
      using xy(1-6) base64_digits[of x y z 0] by (simp add: encode_valid_def)
    moreover have "valid_rune (base64 0 x y z)"
      using xy(4-6,8) by (cases "x = 13"; cases "x < 13") (auto simp: valid_rune_def base64_def)
    ultimately show ?thesis using w v three by (simp add: s bytes_def)
  next
    case four
    define x y z u where "x = byte_of c0 - 240" and "y = byte_of c1 - 128" and "z = byte_of c2 - 128" and "u = byte_of c3 - 128"
    have xy: "byte_of c0 = 240 + x" "byte_of c1 = 128 + y" "byte_of c2 = 128 + z" "byte_of c3 = 128 + u"
      "x < 5" "y < 64" "z < 64" "u < 64" "x = 0 \<Longrightarrow> 16 \<le> y" "x = 4 \<Longrightarrow> y < 16"
      using four by (auto simp: cont_byte_def second_ok_def Let_def x_def y_def z_def u_def split: if_splits)
    have w: "utf8_width s = 4" using four by (simp add: s utf8_width.simps)
    have v: "rune_value 4 s = base64 x y z u" using four xy(1-4) by (simp add: s rune_value_def base64_def numeral_3_eq_3)
    have lo: "0x10000 \<le> base64 x y z u" using xy(9) by (cases "x = 0") (auto simp: base64_def)
    then have "encode_valid (base64 x y z u) = bytes [byte_of c0, byte_of c1, byte_of c2, byte_of c3]"
      using xy(1-8) base64_digits[of y z u x] by (simp add: encode_valid_def)
    moreover have "valid_rune (base64 x y z u)"
      using xy(5-8,10) lo by (cases "x = 4") (auto simp: valid_rune_def base64_def)
    ultimately show ?thesis using w v four by (simp add: s bytes_def)
  qed
qed

subsection \<open>Valid text\<close>

lemma encode_decode:
  "utf8_width s \<noteq> 0 \<Longrightarrow> encode_rune (fst (decode_rune s)) = take (utf8_width s) s"
  using rune_value_valid[of s] by (simp add: encode_rune_def decode_rune_def)

lemma valid_utf8_prefix:
  "utf8_width s = length x \<Longrightarrow> x \<noteq> [] \<Longrightarrow> take (length x) s = x \<Longrightarrow> valid_utf8 s = valid_utf8 (drop (length x) s)"
  by (cases s) (auto simp: valid_utf8.simps)

lemma valid_encode: "valid_utf8 (encode_rune r @ s) = valid_utf8 s"
  using encode_rune_width[of r s] valid_utf8_prefix[of "encode_rune r @ s" "encode_rune r"] by simp

lemma valid_encodes: "valid_utf8 (concat (map encode_rune rs))"
  by (induction rs) (simp_all add: valid_encode)

lemma runes_encodes:
  assumes "valid_utf8 s"
  shows "concat (map encode_rune (runes s)) = s"
  using assms
proof (induction s rule: valid_utf8.induct)
  case 1
  then show ?case by simp
next
  case (2 c s)
  let ?w = "utf8_width (c # s)"
  have w: "?w \<noteq> 0" and v: "valid_utf8 (drop ?w (c # s))" using 2(2) by (auto simp: valid_utf8.simps(2) split: if_splits)
  have "snd (decode_rune (c # s)) = ?w" using w by (simp add: decode_rune_def)
  moreover have "encode_rune (fst (decode_rune (c # s))) = take ?w (c # s)" using w by (rule encode_decode)
  ultimately have "concat (map encode_rune (runes (c # s))) = take ?w (c # s) @ drop ?w (c # s)"
    using 2(1)[OF w v] by (simp only: runes.simps(2) list.map concat.simps)
  then show ?case by simp
qed

text \<open>A cut inside a rune is at most three bytes after its start.\<close>

lemma valid_cut:
  assumes "valid_utf8 s" "n \<le> length s"
  shows "\<exists>k\<le>3. k \<le> n \<and> valid_utf8 (take (n - k) s)"
  using assms
proof (induction s arbitrary: n rule: valid_utf8.induct)
  case 1
  then show ?case by (intro exI[of _ 0]) simp
next
  case (2 c s)
  let ?w = "utf8_width (c # s)"
  have w: "?w \<noteq> 0" and v: "valid_utf8 (drop ?w (c # s))" using 2(2) by (auto simp: valid_utf8.simps(2) split: if_splits)
  show ?case
  proof (cases "n < ?w")
    case True
    with utf8_width_bounds[of "c # s"] show ?thesis by (intro exI[of _ n]) auto
  next
    case False
    with 2(3) have "n - ?w \<le> length (drop ?w (c # s))" by simp
    from 2(1)[OF w v this] obtain k where k: "k \<le> 3" "k \<le> n - ?w" "valid_utf8 (take (n - ?w - k) (drop ?w (c # s)))" by blast
    have "take (n - k) (c # s) = take ?w (c # s) @ take (n - ?w - k) (drop ?w (c # s))"
      using k(2) False by (simp add: take_add[symmetric] del: take_Suc_Cons)
    moreover have "take ?w (c # s) = encode_rune (fst (decode_rune (c # s)))" using encode_decode[OF w] by simp
    ultimately have "valid_utf8 (take (n - k) (c # s))" using k(3) valid_encode by simp
    with k(1,2) show ?thesis by (intro exI[of _ k]) simp
  qed
qed

end
