(* ===== verification/Sync_Source.thy ===== *)
theory Sync_Source
  imports Ledger Utf8
begin

text \<open>
  \<open>internal/source\<close>: the report the agent sends, its JSON form, the file source and the HTTP
  source.

  The HTTP client is the record \<open>http\<close> of parameters over a world \<open>'w\<close>: building a request
  and doing the exchange. A response body is its number of bytes and its content as the JSON
  decoder sees it. A sync returns \<open>None\<close> for \<open>changed = false\<close> (whose body is nil) and
  \<open>Some body\<close> for \<open>changed = true\<close>.

  Shown: the bounds on reported errors, which report keys a server without the retirement
  capability sees, exactly when an exchange is unchanged, changed or an error, and that the
  strict probe passes on every snapshot the parser accepts.
\<close>

definition Capability :: string where "Capability = ''source-acl-v1''"
definition retirement_Capability :: string where "retirement_Capability = ''mapping-retirement-v1''"

subsection \<open>The report\<close>

record err_item =
  ei_MappingID :: "int option"
  ei_Message :: string

record mapping_counters =
  mc_MappingID :: int
  mc_NewConns :: u64
  mc_InPackets :: u64
  mc_InBytes :: u64
  mc_OutPackets :: u64
  mc_OutBytes :: u64
  mc_RateDropped :: u64
  mc_ConnDropped :: u64
  mc_PerSourceDropped :: u64

record receipt =
  rc_RetirementID :: string
  rc_Generation :: int
  rc_MappingID :: int
  rc_FlowMark :: u32
  rc_TupleHash :: string
  rc_State :: string

record report =
  rp_Capabilities :: "string list"
  rp_AppliedGeneration :: int
  rp_AgentVersion :: string
  rp_LastError :: "err_item list option"
  rp_Counters :: "mapping_counters list option"
  rp_RetirementLedgerID :: string
  rp_MappingIDHighWater :: int
  rp_FlowMarkHighWater :: u32
  rp_RetirementHighWater :: int
  rp_ManagedGenerationHighWater :: int
  rp_RetirementReceipts :: "receipt list option"

definition err_item_json :: "err_item \<Rightarrow> json" where
  "err_item_json e = JObj (opt_field ''mappingId'' enc_i64 (ei_MappingID e) @ [(''message'', JStr (ei_Message e))])"

definition mapping_counters_json :: "mapping_counters \<Rightarrow> json" where
  "mapping_counters_json c = JObj
     [(''mappingId'', enc_i64 (mc_MappingID c)), (''newConns'', enc_uint (mc_NewConns c)),
      (''inPackets'', enc_uint (mc_InPackets c)), (''inBytes'', enc_uint (mc_InBytes c)),
      (''outPackets'', enc_uint (mc_OutPackets c)), (''outBytes'', enc_uint (mc_OutBytes c)),
      (''rateDropped'', enc_uint (mc_RateDropped c)), (''connDropped'', enc_uint (mc_ConnDropped c)),
      (''perSourceDropped'', enc_uint (mc_PerSourceDropped c))]"

definition receipt_json :: "receipt \<Rightarrow> json" where
  "receipt_json r = JObj
     [(''retirementId'', JStr (rc_RetirementID r)), (''generation'', enc_i64 (rc_Generation r)),
      (''mappingId'', enc_i64 (rc_MappingID r)), (''flowMark'', enc_uint (rc_FlowMark r)),
      (''tupleHash'', JStr (rc_TupleHash r)), (''state'', JStr (rc_State r))]"

text \<open>\<open>omitempty\<close> on a slice leaves out nil and the empty slice alike.\<close>

definition omit_empty :: "string \<Rightarrow> ('a \<Rightarrow> json) \<Rightarrow> 'a list \<Rightarrow> (string \<times> json) list" where
  "omit_empty k f xs = (if xs = [] then [] else [(k, JArr (map f xs))])"

definition report_fields :: "report \<Rightarrow> (string \<times> json) list" where
  "report_fields r =
     omit_empty ''capabilities'' JStr (rp_Capabilities r)
     @ [(''appliedGeneration'', enc_i64 (rp_AppliedGeneration r)), (''agentVersion'', JStr (rp_AgentVersion r))]
     @ omit_empty ''lastError'' err_item_json (slice_of (rp_LastError r))
     @ omit_empty ''counters'' mapping_counters_json (slice_of (rp_Counters r))
     @ [(''retirementLedgerId'', JStr (rp_RetirementLedgerID r)),
        (''mappingIdHighWater'', enc_i64 (rp_MappingIDHighWater r)),
        (''flowMarkHighWater'', enc_uint (rp_FlowMarkHighWater r)),
        (''retirementHighWater'', enc_i64 (rp_RetirementHighWater r)),
        (''managedGenerationHighWater'', enc_i64 (rp_ManagedGenerationHighWater r)),
        (''retirementReceipts'', slice_json receipt_json (rp_RetirementReceipts r))]"

definition ledger_keys :: "string list" where
  "ledger_keys = [''retirementLedgerId'', ''mappingIdHighWater'', ''flowMarkHighWater'', ''retirementHighWater'',
     ''managedGenerationHighWater'', ''retirementReceipts'']"

text \<open>
  Without the capability the report is decoded into a map of raw members, the ledger's keys
  are deleted and the map is written back, keys in order.
\<close>

definition report_MarshalJSON :: "report \<Rightarrow> json option" where
  "report_MarshalJSON r =
     (let data = JObj (report_fields r)
      in if list_ex (\<lambda>c. c = ''mapping-retirement-v1'') (rp_Capabilities r) then Some data
         else case raw_map data of None \<Rightarrow> None
              | Some members \<Rightarrow> Some (JObj (sort_key fst (filter (\<lambda>(k, v). k \<notin> set ledger_keys) (AList.clearjunk members)))))"

subsection \<open>Bounds on reported errors\<close>

definition maxErrItems :: nat where "maxErrItems = 8"
definition maxErrMessageBytes :: nat where "maxErrMessageBytes = 1024"

definition control_rune :: "nat \<Rightarrow> bool" where
  "control_rune r = (r < 0x20 \<or> r = 0x7f)"

function trim_rune :: "string \<Rightarrow> string" where
  "trim_rune t = (if t \<noteq> [] \<and> \<not> valid_utf8 t then trim_rune (butlast t) else t)"
  by pat_completeness auto
termination
  by (relation "measure length") auto

declare trim_rune.simps [simp del]

definition stripped :: "string \<Rightarrow> string" where
  "stripped s = concat (map encode_rune (filter (\<lambda>r. \<not> control_rune r) (runes s)))"

definition sanitizeMessage :: "string \<Rightarrow> string" where
  "sanitizeMessage s =
     (let t = stripped s
      in if length t > maxErrMessageBytes then trim_rune (take maxErrMessageBytes t) else t)"

definition sanitizeErrItems :: "err_item list option \<Rightarrow> err_item list option" where
  "sanitizeErrItems items =
     (case items of None \<Rightarrow> None
      | Some xs \<Rightarrow>
          (let ys = (if length xs > maxErrItems then take maxErrItems xs else xs)
           in Some (map (\<lambda>it. it\<lparr>ei_Message := sanitizeMessage (ei_Message it)\<rparr>) ys)))"

subsection \<open>The HTTP source\<close>

definition requestTimeout :: int where "requestTimeout = 4 * 1000000000"
definition maxResponseBytes :: nat where "maxResponseBytes = 8 * 2 ^ 20"

record http_source =
  hs_url :: string
  hs_token :: string
  hs_Timeout :: int
  hs_Proxy :: "string option"
  hs_FollowRedirects :: bool

definition NewHTTP :: "string \<Rightarrow> string \<Rightarrow> http_source" where
  "NewHTTP u token = \<lparr>hs_url = u, hs_token = token, hs_Timeout = requestTimeout, hs_Proxy = None, hs_FollowRedirects = False\<rparr>"

record http_request =
  rq_Method :: string
  rq_URL :: string
  rq_Headers :: "(string \<times> string) list"
  rq_Body :: json

record http_response =
  rs_StatusCode :: int
  rs_Body :: "(string, nat \<times> jbody) result"

record 'w http =
  ht_New :: "string \<Rightarrow> string option"
  ht_Do :: "http_source \<Rightarrow> http_request \<Rightarrow> 'w \<Rightarrow> (string, http_response) result \<times> 'w"

datatype sync_error =
    MarshalReport
  | BuildRequest string
  | ExchangeFailed string
  | BadStatus int
  | ReadResponse string
  | ResponseTooLarge
  | BadEnvelope
  | TrailingResponse
  | UnconfirmedGeneration int int
  | SourceFileError io_error

record sync_envelope =
  env_Generation :: int
  env_Mappings :: "json option"
  env_Retirements :: "json option"
  env_Ack :: "json option"

definition envelope_zero :: sync_envelope where
  "envelope_zero = \<lparr>env_Generation = 0, env_Mappings = None, env_Retirements = None, env_Ack = None\<rparr>"

text \<open>A \<open>json.RawMessage\<close> keeps whatever value its key has, \<open>null\<close> included.\<close>

definition set_envelope_field :: "string \<Rightarrow> json \<Rightarrow> sync_envelope \<Rightarrow> sync_envelope option" where
  "set_envelope_field k v e =
     (if k = ''generation'' then map_option (\<lambda>x. e\<lparr>env_Generation := x\<rparr>) (dec_i64 v (env_Generation e))
      else if k = ''mappings'' then Some (e\<lparr>env_Mappings := Some v\<rparr>)
      else if k = ''retirements'' then Some (e\<lparr>env_Retirements := Some v\<rparr>)
      else if k = ''acknowledgedretirementhighwater'' then Some (e\<lparr>env_Ack := Some v\<rparr>)
      else None)"

definition sync_request :: "http_source \<Rightarrow> json \<Rightarrow> http_request" where
  "sync_request h body = \<lparr>rq_Method = ''POST'', rq_URL = hs_url h,
     rq_Headers = [(''Authorization'', ''Bearer '' @ hs_token h), (''Content-Type'', ''application/json''),
                   (''Accept'', ''application/json'')],
     rq_Body = body\<rparr>"

definition read_response :: "int \<Rightarrow> http_response \<Rightarrow> (sync_error, jbody option) result" where
  "read_response applied resp =
     (if rs_StatusCode resp \<noteq> 200 then Inl (BadStatus (rs_StatusCode resp))
      else case rs_Body resp of Inl e \<Rightarrow> Inl (ReadResponse e)
      | Inr (n, body) \<Rightarrow>
          if min n (maxResponseBytes + 1) > maxResponseBytes then Inl ResponseTooLarge
          else (case Option.bind (DecodeFirst body) (\<lambda>v. dec_struct set_envelope_field v envelope_zero) of
                  None \<Rightarrow> Inl BadEnvelope
                | Some env \<Rightarrow>
                    if More body then Inl TrailingResponse
                    else if env_Mappings env = None \<and> env_Retirements env = None
                    then (if env_Generation env \<noteq> applied then Inl (UnconfirmedGeneration (env_Generation env) applied)
                          else Inr None)
                    else Inr (Some body)))"

definition http_Sync :: "'w http \<Rightarrow> http_source \<Rightarrow> report \<Rightarrow> 'w \<Rightarrow> (sync_error, jbody option) result \<times> 'w" where
  "http_Sync ht h r0 w =
     (let r = r0\<lparr>rp_LastError := sanitizeErrItems (rp_LastError r0)\<rparr>
      in case report_MarshalJSON r of None \<Rightarrow> (Inl MarshalReport, w)
         | Some reqBody \<Rightarrow>
             (case ht_New ht (hs_url h) of Some e \<Rightarrow> (Inl (BuildRequest e), w)
              | None \<Rightarrow>
                  (case ht_Do ht h (sync_request h reqBody) w of
                     (Inl e, w') \<Rightarrow> (Inl (ExchangeFailed e), w')
                   | (Inr resp, w') \<Rightarrow> (read_response (rp_AppliedGeneration r) resp, w'))))"

subsection \<open>The file source\<close>

definition file_Sync :: "(string \<Rightarrow> 'w \<Rightarrow> (io_error, jbody) result) \<Rightarrow> string \<Rightarrow> report \<Rightarrow> 'w \<Rightarrow> (sync_error, jbody option) result \<times> 'w" where
  "file_Sync readFile path r w = (case readFile path w of Inl e \<Rightarrow> (Inl (SourceFileError e), w) | Inr b \<Rightarrow> (Inr (Some b), w))"

subsection \<open>Error items\<close>

lemma trim_rune_valid: "valid_utf8 (trim_rune t)"
  by (induction t rule: trim_rune.induct) (subst trim_rune.simps, auto)

lemma trim_rune_take:
  assumes "k \<le> length t" "valid_utf8 (take (length t - k) t)"
  shows "\<exists>j\<le>k. trim_rune t = take (length t - j) t"
  using assms
proof (induction k arbitrary: t)
  case 0
  then show ?case by (simp add: trim_rune.simps[of t])
next
  case (Suc k)
  show ?case
  proof (cases "t \<noteq> [] \<and> \<not> valid_utf8 t")
    case True
    have "take (length (butlast t) - k) (butlast t) = take (length t - Suc k) t" by (simp add: butlast_conv_take)
    with Suc.prems have "k \<le> length (butlast t)" "valid_utf8 (take (length (butlast t) - k) (butlast t))" by auto
    from Suc.IH[OF this] obtain j where "j \<le> k" "trim_rune (butlast t) = take (length (butlast t) - j) (butlast t)" by blast
    with True show ?thesis by (intro exI[of _ "Suc j"]) (simp add: trim_rune.simps[of t] butlast_conv_take)
  next
    case False
    then have "trim_rune t = t" by (subst trim_rune.simps) auto
    then show ?thesis by (intro exI[of _ 0]) simp
  qed
qed

lemma valid_stripped: "valid_utf8 (stripped s)"
  by (simp add: stripped_def valid_encodes)

text \<open>A message is cut to its first 1024 bytes, less what a split rune needs.\<close>

lemma sanitizeMessage_take:
  "\<exists>n. sanitizeMessage s = take n (stripped s) \<and> n \<le> maxErrMessageBytes \<and> (maxErrMessageBytes - 3 \<le> n \<or> length (stripped s) \<le> n)"
proof (cases "length (stripped s) > maxErrMessageBytes")
  case True
  let ?t = "take maxErrMessageBytes (stripped s)"
  have len: "length ?t = maxErrMessageBytes" using True by simp
  obtain k where k: "k \<le> 3" "k \<le> maxErrMessageBytes" "valid_utf8 (take (maxErrMessageBytes - k) (stripped s))"
    using valid_cut[OF valid_stripped, of maxErrMessageBytes s] True by auto
  then have "valid_utf8 (take (length ?t - k) ?t)" unfolding len by simp
  with k(2) len obtain j where j: "j \<le> k" "trim_rune ?t = take (length ?t - j) ?t" using trim_rune_take[of k ?t] by auto
  with True len have "sanitizeMessage s = take (maxErrMessageBytes - j) (stripped s)" by (simp add: sanitizeMessage_def)
  with j(1) k(1) show ?thesis by (intro exI[of _ "maxErrMessageBytes - j"]) auto
next
  case False
  then show ?thesis by (intro exI[of _ maxErrMessageBytes]) (simp add: sanitizeMessage_def)
qed

lemma sanitizeMessage_valid: "valid_utf8 (sanitizeMessage s)"
  by (simp add: sanitizeMessage_def Let_def trim_rune_valid valid_stripped)

definition control_byte :: "char \<Rightarrow> bool" where
  "control_byte c = (byte_of c < 0x20 \<or> byte_of c = 0x7f)"

lemma encode_no_control:
  assumes "\<not> control_rune r" "c \<in> set (encode_rune r)"
  shows "\<not> control_byte c"
proof -
  define q where "q = (if valid_rune r then r else rune_error)"
  have q: "valid_rune q" "\<not> control_rune q" using assms(1) by (auto simp: q_def control_rune_def rune_error_def valid_rune_def)
  have c: "c \<in> set (encode_valid q)" using assms(2) by (simp add: encode_rune_def q_def)
  show ?thesis
  proof (cases "q < 0x80")
    case True
    then show ?thesis using q(2) c by (simp add: encode_valid_def bytes_def control_rune_def control_byte_def)
  next
    case False
    then have "128 \<le> byte_of c"
      using c encode_valid_high[OF q(1)] by simp
    then show ?thesis by (simp add: control_byte_def)
  qed
qed

lemma stripped_no_control: "c \<in> set (stripped s) \<Longrightarrow> \<not> control_byte c"
  by (auto simp: stripped_def dest: encode_no_control)

text \<open>What \<open>sanitizeMessage\<close> promises of a message.\<close>

definition clean_message :: "string \<Rightarrow> bool" where
  "clean_message t \<longleftrightarrow> length t \<le> maxErrMessageBytes \<and> valid_utf8 t \<and> (\<forall>c\<in>set t. \<not> control_byte c)"

lemma sanitizeMessage_clean: "clean_message (sanitizeMessage s)"
proof -
  obtain n where n: "sanitizeMessage s = take n (stripped s)" "n \<le> maxErrMessageBytes"
    using sanitizeMessage_take by blast
  then have "length (sanitizeMessage s) \<le> maxErrMessageBytes" by simp
  moreover have "\<forall>c\<in>set (sanitizeMessage s). \<not> control_byte c"
    using stripped_no_control n(1) in_set_takeD by metis
  ultimately show ?thesis by (simp add: clean_message_def sanitizeMessage_valid)
qed

lemma control_rune_byte:
  assumes "valid_utf8 s" "\<forall>c\<in>set s. \<not> control_byte c" "r \<in> set (runes s)"
  shows "\<not> control_rune r"
proof
  assume c: "control_rune r"
  then have "encode_rune r = [char_of r]" by (auto simp: control_rune_def encode_rune_def encode_valid_def valid_rune_def bytes_def)
  moreover have "set (concat (map encode_rune (runes s))) = set s" by (simp only: runes_encodes[OF assms(1)])
  with assms(3) have "set (encode_rune r) \<subseteq> set s" by auto
  ultimately show False using c assms(2) by (auto simp: control_rune_def control_byte_def)
qed

lemma sanitizeMessage_id: "clean_message s \<Longrightarrow> sanitizeMessage s = s"
proof -
  assume "clean_message s"
  then have s: "length s \<le> maxErrMessageBytes" "valid_utf8 s" "\<forall>c\<in>set s. \<not> control_byte c" by (auto simp: clean_message_def)
  have "filter (\<lambda>r. \<not> control_rune r) (runes s) = runes s"
    using control_rune_byte[OF s(2,3)] by (simp add: filter_id_conv)
  then have "stripped s = s" using runes_encodes[OF s(2)] by (simp add: stripped_def)
  with s(1) show ?thesis by (simp add: sanitizeMessage_def)
qed

text \<open>
  C29: the error items of a report that is sent are at most eight, and each message is at
  most 1024 bytes of valid UTF-8 without control characters: the longest prefix of the
  stripped message that ends on a rune boundary within the cap. Sanitising again changes
  nothing, so a message that already meets the caps is sent as it is.
\<close>

theorem reported_errors_bounded:
  "length (slice_of (sanitizeErrItems items)) \<le> 8
   \<and> list_all (\<lambda>it. clean_message (ei_Message it)) (slice_of (sanitizeErrItems items))
   \<and> (\<exists>n. sanitizeMessage s = take n (stripped s) \<and> (1021 \<le> n \<and> n \<le> 1024 \<or> sanitizeMessage s = stripped s))
   \<and> sanitizeErrItems (sanitizeErrItems items) = sanitizeErrItems items"
proof (intro conjI)
  show "length (slice_of (sanitizeErrItems items)) \<le> 8"
    by (simp add: sanitizeErrItems_def maxErrItems_def slice_of_def Let_def split: option.split)
  show "list_all (\<lambda>it. clean_message (ei_Message it)) (slice_of (sanitizeErrItems items))"
    by (auto simp: sanitizeErrItems_def slice_of_def Let_def list_all_iff sanitizeMessage_clean split: option.split)
  obtain n where "sanitizeMessage s = take n (stripped s)" "n \<le> maxErrMessageBytes"
      "maxErrMessageBytes - 3 \<le> n \<or> length (stripped s) \<le> n" using sanitizeMessage_take by blast
  then show "\<exists>n. sanitizeMessage s = take n (stripped s) \<and> (1021 \<le> n \<and> n \<le> 1024 \<or> sanitizeMessage s = stripped s)"
    by (intro exI[of _ n]) (auto simp: maxErrMessageBytes_def)
  show "sanitizeErrItems (sanitizeErrItems items) = sanitizeErrItems items"
    by (cases items) (auto simp: sanitizeErrItems_def maxErrItems_def Let_def sanitizeMessage_id sanitizeMessage_clean)
qed

subsection \<open>The keys of a report\<close>

definition json_keys :: "json \<Rightarrow> string set" where
  "json_keys v = (case v of JObj kvs \<Rightarrow> fst ` set kvs | _ \<Rightarrow> {})"

lemma report_fields_distinct: "distinct (map fst (report_fields r))"
  by (simp add: report_fields_def omit_empty_def)

lemma clearjunk_rev_set: "distinct (map fst kvs) \<Longrightarrow> set (AList.clearjunk (rev kvs)) = set kvs"
  by (subst distinct_clearjunk_id) (simp_all add: rev_map[symmetric])

text \<open>
  A report is always marshalled. Without the retirement capability it carries none of
  the ledger's keys and every other member unchanged, keys in order; with it, all members.
\<close>

theorem report_keys:
  "\<exists>v. report_MarshalJSON r = Some (JObj v)
    \<and> (if retirement_Capability \<in> set (rp_Capabilities r)
       then v = report_fields r \<and> set ledger_keys \<subseteq> fst ` set v
       else sorted (map fst v) \<and> set v = {kv \<in> set (report_fields r). fst kv \<notin> set ledger_keys})"
proof (cases "retirement_Capability \<in> set (rp_Capabilities r)")
  case True
  then show ?thesis
    by (auto simp: report_MarshalJSON_def list_ex_iff retirement_Capability_def ledger_keys_def report_fields_def)
next
  case False
  then have "\<not> list_ex (\<lambda>c. c = ''mapping-retirement-v1'') (rp_Capabilities r)" by (auto simp: list_ex_iff retirement_Capability_def)
  with False show ?thesis
    by (auto simp: report_MarshalJSON_def raw_map_def clearjunk_rev_set[OF report_fields_distinct])
qed

subsection \<open>The exchange\<close>

definition decoded_envelope :: "jbody \<Rightarrow> sync_envelope option" where
  "decoded_envelope body = Option.bind (DecodeFirst body) (\<lambda>v. dec_struct set_envelope_field v envelope_zero)"

text \<open>
  What the strict probe sees in a response: the members of the object (a \<open>null\<close> has none),
  each of which must name one of the four fields, a generation being \<open>null\<close> or a 64-bit
  integer. The last integer generation counts, 0 without one.
\<close>

definition members_of :: "json \<Rightarrow> (string \<times> json) list option" where
  "members_of v = (case v of JNull \<Rightarrow> Some [] | JObj kvs \<Rightarrow> Some kvs | _ \<Rightarrow> None)"

definition has_member :: "string \<Rightarrow> (string \<times> json) list \<Rightarrow> bool" where
  "has_member name kvs = list_ex (\<lambda>(k, v). fold_name k = name) kvs"

definition member_integer :: "json \<Rightarrow> int option" where
  "member_integer v = (case v of JNum s \<Rightarrow> parse_int s | _ \<Rightarrow> None)"

definition known_member :: "string \<times> json \<Rightarrow> bool" where
  "known_member kv \<longleftrightarrow> fold_name (fst kv) \<in> {''mappings'', ''retirements'', ''acknowledgedretirementhighwater''}
     \<or> fold_name (fst kv) = ''generation'' \<and> (snd kv = JNull \<or> member_integer (snd kv) \<noteq> None)"

fun stated_generation :: "int \<Rightarrow> (string \<times> json) list \<Rightarrow> int" where
  "stated_generation g [] = g"
| "stated_generation g ((k, v) # kvs) =
     stated_generation (if fold_name k = ''generation'' then (case member_integer v of None \<Rightarrow> g | Some i \<Rightarrow> i) else g) kvs"

lemma dec_i64_member: "dec_i64 v g = (if v = JNull then Some g else member_integer v)"
  by (cases v) (simp_all add: dec_i64_def member_integer_def)

lemma set_envelope_known:
  "(\<exists>f. set_envelope_field (fold_name k) v e = Some f) \<longleftrightarrow> known_member (k, v)"
  "set_envelope_field (fold_name k) v e = Some f \<Longrightarrow>
     env_Generation f = stated_generation (env_Generation e) [(k, v)]
     \<and> (env_Mappings f = None \<longleftrightarrow> env_Mappings e = None \<and> fold_name k \<noteq> ''mappings'')
     \<and> (env_Retirements f = None \<longleftrightarrow> env_Retirements e = None \<and> fold_name k \<noteq> ''retirements'')"
  by (auto simp: set_envelope_field_def known_member_def dec_i64_member member_integer_def split: if_splits option.splits)

lemma dec_envelope_None: "dec_fields set_envelope_field kvs e = None \<longleftrightarrow> \<not> list_all known_member kvs"
proof (induction kvs arbitrary: e)
  case (Cons kv kvs)
  obtain k v where kv: "kv = (k, v)" by (cases kv)
  show ?case
    using Cons.IH set_envelope_known(1)[of k v e] by (cases "set_envelope_field (fold_name k) v e") (auto simp: kv)
qed simp

lemma dec_envelope_Some:
  "dec_fields set_envelope_field kvs e = Some e' \<Longrightarrow> env_Generation e' = stated_generation (env_Generation e) kvs
     \<and> (env_Mappings e' = None \<longleftrightarrow> env_Mappings e = None \<and> \<not> has_member ''mappings'' kvs)
     \<and> (env_Retirements e' = None \<longleftrightarrow> env_Retirements e = None \<and> \<not> has_member ''retirements'' kvs)"
proof (induction kvs arbitrary: e)
  case (Cons kv kvs)
  obtain k v where kv: "kv = (k, v)" by (cases kv)
  with Cons.prems obtain f where f: "set_envelope_field (fold_name k) v e = Some f" "dec_fields set_envelope_field kvs f = Some e'"
    by (auto split: option.splits)
  from Cons.IH[OF f(2)] set_envelope_known(2)[OF f(1)] show ?case by (auto simp: kv has_member_def)
qed (simp add: has_member_def)

lemma decoded_envelope_None:
  "decoded_envelope body = None \<longleftrightarrow> \<not> (\<exists>v rest kvs. body = JDoc v rest \<and> members_of v = Some kvs \<and> list_all known_member kvs)"
  by (auto simp: decoded_envelope_def DecodeFirst_def members_of_def dec_struct_def dec_envelope_None split: jbody.splits json.splits)

lemma decoded_envelope_Some:
  assumes "decoded_envelope body = Some env"
  shows "\<exists>v rest kvs. body = JDoc v rest \<and> members_of v = Some kvs \<and> list_all known_member kvs
    \<and> env_Generation env = stated_generation 0 kvs \<and> (env_Mappings env = None \<longleftrightarrow> \<not> has_member ''mappings'' kvs)
    \<and> (env_Retirements env = None \<longleftrightarrow> \<not> has_member ''retirements'' kvs)"
proof -
  from assms decoded_envelope_None[of body] obtain v rest kvs where
    b: "body = JDoc v rest" "members_of v = Some kvs" "list_all known_member kvs" by auto
  then have "dec_fields set_envelope_field kvs envelope_zero = Some env"
    using assms by (auto simp: decoded_envelope_def DecodeFirst_def members_of_def dec_struct_def split: json.splits)
  from dec_envelope_Some[OF this] b show ?thesis by (auto simp: envelope_zero_def)
qed

text \<open>
  The outcome an answer of the server stands for, \<open>applied\<close> being the generation reported:
  the response is within the cap, its first value passes the probe, and what follows the
  value is only space or begins with a closing bracket or brace. Every outcome is given by
  its condition.
\<close>

definition body_passes :: "http_response \<Rightarrow> jbody \<Rightarrow> (string \<times> json) list \<Rightarrow> bool" where
  "body_passes resp body kvs \<longleftrightarrow> rs_StatusCode resp = 200 \<and> (\<exists>n\<le>8388608. rs_Body resp = Inr (n, body))
     \<and> (\<exists>v rest. body = JDoc v rest \<and> members_of v = Some kvs) \<and> list_all known_member kvs"

definition outcome_as :: "int \<Rightarrow> http_response \<Rightarrow> (sync_error, jbody option) result \<Rightarrow> bool" where
  "outcome_as applied resp out \<longleftrightarrow>
     (out = Inr None \<longleftrightarrow> (\<exists>body kvs. body_passes resp body kvs \<and> \<not> More body
        \<and> \<not> has_member ''mappings'' kvs \<and> \<not> has_member ''retirements'' kvs \<and> stated_generation 0 kvs = applied))
     \<and> (\<forall>body. out = Inr (Some body) \<longleftrightarrow> (\<exists>kvs. body_passes resp body kvs \<and> \<not> More body
        \<and> (has_member ''mappings'' kvs \<or> has_member ''retirements'' kvs)))
     \<and> (\<forall>g a. out = Inl (UnconfirmedGeneration g a) \<longleftrightarrow> (\<exists>body kvs. body_passes resp body kvs \<and> \<not> More body
        \<and> \<not> has_member ''mappings'' kvs \<and> \<not> has_member ''retirements'' kvs \<and> stated_generation 0 kvs = g \<and> a = applied \<and> g \<noteq> a))
     \<and> (out = Inl TrailingResponse \<longleftrightarrow> (\<exists>body kvs. body_passes resp body kvs \<and> More body))
     \<and> (out = Inl BadEnvelope \<longleftrightarrow> rs_StatusCode resp = 200
        \<and> (\<exists>n\<le>8388608. \<exists>body. rs_Body resp = Inr (n, body) \<and> (\<forall>kvs. \<not> body_passes resp body kvs)))
     \<and> (out = Inl ResponseTooLarge \<longleftrightarrow> rs_StatusCode resp = 200 \<and> (\<exists>n>8388608. \<exists>body. rs_Body resp = Inr (n, body)))
     \<and> (\<forall>e. out = Inl (ReadResponse e) \<longleftrightarrow> rs_StatusCode resp = 200 \<and> rs_Body resp = Inl e)
     \<and> (\<forall>c. out = Inl (BadStatus c) \<longleftrightarrow> rs_StatusCode resp = c \<and> c \<noteq> 200)"

lemma body_passes_unique: "body_passes resp body kvs \<Longrightarrow> body_passes resp body' kvs' \<Longrightarrow> body' = body \<and> kvs' = kvs"
  by (auto simp: body_passes_def)

lemma read_response_outcome: "outcome_as applied resp (read_response applied resp)"
proof (cases "\<exists>body kvs. body_passes resp body kvs")
  case True
  then obtain body kvs where p: "body_passes resp body kvs" by blast
  then obtain n v rest where b: "rs_StatusCode resp = 200" "n \<le> 8388608" "rs_Body resp = Inr (n, body)" "body = JDoc v rest"
    "members_of v = Some kvs" "list_all known_member kvs" by (auto simp: body_passes_def)
  then obtain env where env: "decoded_envelope body = Some env" using decoded_envelope_None[of body] by fastforce
  have one: "body_passes resp body' kvs' \<longleftrightarrow> body' = body \<and> kvs' = kvs" for body' kvs' using p body_passes_unique by blast
  have "\<not> min n (maxResponseBytes + 1) > maxResponseBytes" using b(2) by (simp add: maxResponseBytes_def)
  then have out: "read_response applied resp =
      (if More body then Inl TrailingResponse
       else if \<not> has_member ''mappings'' kvs \<and> \<not> has_member ''retirements'' kvs
       then (if stated_generation 0 kvs \<noteq> applied then Inl (UnconfirmedGeneration (stated_generation 0 kvs) applied) else Inr None)
       else Inr (Some body))"
    using b env decoded_envelope_Some[OF env] unfolding read_response_def decoded_envelope_def[symmetric] by auto
  show ?thesis unfolding outcome_as_def one out using b(1-3) by auto
next
  case False
  then have none: "\<And>body kvs. \<not> body_passes resp body kvs" by blast
  have bad: "decoded_envelope body = None" if "rs_StatusCode resp = 200" "rs_Body resp = Inr (n, body)" "n \<le> 8388608" for n body
    using that none[of body] decoded_envelope_None[of body] by (auto simp: body_passes_def)
  have cap: "min n (maxResponseBytes + 1) > maxResponseBytes \<longleftrightarrow> n > 8388608" for n by (auto simp: maxResponseBytes_def)
  have out: "read_response applied resp =
      (if rs_StatusCode resp \<noteq> 200 then Inl (BadStatus (rs_StatusCode resp))
       else case rs_Body resp of Inl e \<Rightarrow> Inl (ReadResponse e) | Inr (n, _) \<Rightarrow> if n > 8388608 then Inl ResponseTooLarge else Inl BadEnvelope)"
    using bad unfolding read_response_def decoded_envelope_def[symmetric] cap by (auto split: sum.splits)
  show ?thesis unfolding outcome_as_def out using none by (auto split: sum.splits)
qed

lemma unique_map_of:
  assumes "(k, v) \<in> set xs" "\<And>v'. (k, v') \<in> set xs \<Longrightarrow> v' = v"
  shows "map_of xs k = Some v"
proof -
  obtain v' where "map_of xs k = Some v'" using weak_map_of_SomeI[OF assms(1)] by blast
  with assms(2) show ?thesis by (auto dest: map_of_SomeD)
qed

text \<open>The members of a report on the wire.\<close>

lemma report_wire:
  "\<exists>members. report_MarshalJSON r = Some (JObj members) \<and> map_of members ''appliedGeneration'' = Some (enc_i64 (rp_AppliedGeneration r))
    \<and> fst ` set members \<inter> set ledger_keys = (if retirement_Capability \<in> set (rp_Capabilities r) then set ledger_keys else {})"
proof -
  have field: "(''appliedGeneration'', enc_i64 (rp_AppliedGeneration r)) \<in> set (report_fields r)" by (simp add: report_fields_def)
  have keys: "set ledger_keys \<subseteq> fst ` set (report_fields r)" by (simp add: ledger_keys_def report_fields_def image_Un)
  show ?thesis
  proof (cases "retirement_Capability \<in> set (rp_Capabilities r)")
    case True
    then have "report_MarshalJSON r = Some (JObj (report_fields r))"
      by (simp add: report_MarshalJSON_def list_ex_iff retirement_Capability_def)
    then show ?thesis using True field keys report_fields_distinct by (auto intro: map_of_is_SomeI)
  next
    case False
    let ?kept = "filter (\<lambda>(k, v). k \<notin> set ledger_keys) (AList.clearjunk (rev (report_fields r)))"
    have m: "report_MarshalJSON r = Some (JObj (sort_key fst ?kept))"
      using False by (simp add: report_MarshalJSON_def list_ex_iff retirement_Capability_def raw_map_def)
    have s: "set ?kept = {kv \<in> set (report_fields r). fst kv \<notin> set ledger_keys}"
      using clearjunk_rev_set[OF report_fields_distinct] by auto
    have "v = enc_i64 (rp_AppliedGeneration r)" if "(''appliedGeneration'', v) \<in> set (report_fields r)" for v
      using map_of_is_SomeI[OF report_fields_distinct that] map_of_is_SomeI[OF report_fields_distinct field] by simp
    moreover have "(''appliedGeneration'', v) \<in> set (sort_key fst ?kept) \<longleftrightarrow> (''appliedGeneration'', v) \<in> set (report_fields r)" for v
      unfolding set_sort s by (simp add: ledger_keys_def)
    ultimately have "map_of (sort_key fst ?kept) ''appliedGeneration'' = Some (enc_i64 (rp_AppliedGeneration r))"
      using field by (intro unique_map_of) blast+
    then show ?thesis using m s False by auto
  qed
qed

text \<open>
  C30: one exchange, on every branch. The report that goes out has its error items bounded and
  the applied generation, and has the ledger's fields exactly if it announces the capability;
  it is one POST to the configured URL with the bearer token. A request that cannot be built
  is not sent, and a failed exchange is an error. Otherwise the outcome is the one the
  response stands for: \<open>unchanged\<close> exactly if it has neither mappings nor retirements and
  states the applied generation, \<open>changed\<close> with the body as received exactly if it has one of
  the two, and each error exactly in its case. What follows the first value is not looked at
  if it begins with a closing bracket or brace.
\<close>

theorem sync_outcome_exact:
  "\<exists>members. report_MarshalJSON (r\<lparr>rp_LastError := sanitizeErrItems (rp_LastError r)\<rparr>) = Some (JObj members)
    \<and> map_of members ''appliedGeneration'' = Some (enc_i64 (rp_AppliedGeneration r))
    \<and> fst ` set members \<inter> set ledger_keys = (if retirement_Capability \<in> set (rp_Capabilities r) then set ledger_keys else {})
    \<and> (case ht_New ht (hs_url h) of Some e \<Rightarrow> http_Sync ht h r w = (Inl (BuildRequest e), w)
       | None \<Rightarrow>
           (case ht_Do ht h \<lparr>rq_Method = ''POST'', rq_URL = hs_url h,
               rq_Headers = [(''Authorization'', ''Bearer '' @ hs_token h), (''Content-Type'', ''application/json''),
                             (''Accept'', ''application/json'')], rq_Body = JObj members\<rparr> w of
              (Inl e, w') \<Rightarrow> http_Sync ht h r w = (Inl (ExchangeFailed e), w')
            | (Inr resp, w') \<Rightarrow> (\<exists>out. http_Sync ht h r w = (out, w') \<and> outcome_as (rp_AppliedGeneration r) resp out)))"
proof -
  let ?r = "r\<lparr>rp_LastError := sanitizeErrItems (rp_LastError r)\<rparr>"
  from report_wire[of ?r] obtain members where m: "report_MarshalJSON ?r = Some (JObj members)"
    "map_of members ''appliedGeneration'' = Some (enc_i64 (rp_AppliedGeneration r))"
    "fst ` set members \<inter> set ledger_keys = (if retirement_Capability \<in> set (rp_Capabilities r) then set ledger_keys else {})"
    by auto
  show ?thesis
    using m read_response_outcome[of "rp_AppliedGeneration r"]
    by (intro exI[of _ members]) (simp add: http_Sync_def sync_request_def split: option.split sum.split prod.split)
qed

text \<open>The probe reads an object the parser accepts.\<close>

lemma probe_follows_decoder:
  assumes "dec_fields (set_snapshot_field pt) kvs s = Some s'" "\<forall>kv\<in>set kvs. fold_name (fst kv) \<noteq> ''persistedat''"
    "env_Generation e = s_Generation s" "env_Mappings e = None \<Longrightarrow> s_Mappings s = None"
  shows "\<exists>e'. dec_fields set_envelope_field kvs e = Some e' \<and> env_Generation e' = s_Generation s'
    \<and> (env_Mappings e' = None \<longrightarrow> s_Mappings s' = None)"
  using assms
proof (induction kvs arbitrary: s e)
  case Nil
  then show ?case by simp
next
  case (Cons kv kvs)
  obtain k v where kv: "kv = (k, v)" by (cases kv)
  from Cons.prems(1) obtain t where t: "set_snapshot_field pt (fold_name k) v s = Some t"
    and rest: "dec_fields (set_snapshot_field pt) kvs t = Some s'" by (auto simp: kv split: option.splits)
  have "fold_name k \<noteq> ''persistedat''" using Cons.prems(2) by (simp add: kv)
  then obtain f where f: "set_envelope_field (fold_name k) v e = Some f" "env_Generation f = s_Generation t"
      "env_Mappings f = None \<longrightarrow> s_Mappings t = None"
    using t Cons.prems(3,4) by (auto simp: set_snapshot_field_def set_envelope_field_def split: if_splits)
  from Cons.IH[OF rest _ f(2)] Cons.prems(2) f(1,3) show ?case by (auto simp: kv)
qed

text \<open>
  C31: the strict probe of the response never rejects a body that the snapshot parser
  accepts, unless the body carries \<open>persistedAt\<close>: it is passed on as a changed desired state.
\<close>

theorem probe_admits_snapshots:
  assumes "Parse pt (JDoc (JObj kvs) rest) lim = Inr s" "\<forall>kv\<in>set kvs. fold_name (fst kv) \<noteq> ''persistedat''"
    "rs_StatusCode resp = 200" "rs_Body resp = Inr (n, JDoc (JObj kvs) rest)" "n \<le> 8388608"
  shows "read_response applied resp = Inr (Some (JDoc (JObj kvs) rest))"
proof -
  let ?body = "JDoc (JObj kvs) rest"
  from Parse_InrD[OF assms(1)] obtain s0 where dec: "dec_fields (set_snapshot_field pt) kvs snapshot_zero = Some s0"
    and val: "Validate lim s0 = Inr s" by (auto simp: DecodeFirst_def dec_snapshot_def dec_struct_def)
  have "s_Mappings s0 \<noteq> None" using val by (auto simp: Validate_iff wf_snapshot_def)
  with probe_follows_decoder[OF dec assms(2), of envelope_zero] obtain env where
    "dec_fields set_envelope_field kvs envelope_zero = Some env" "env_Mappings env \<noteq> None"
    by (auto simp: envelope_zero_def snapshot_zero_def)
  moreover have "\<not> More ?body" using assms(1) by (auto simp: Parse_def Let_def split: if_splits option.splits)
  ultimately show ?thesis
    using assms(3-5) by (auto simp: read_response_def DecodeFirst_def dec_struct_def maxResponseBytes_def)
qed

lemma probe_admits_snapshots_witness:
  "read_response 7 \<lparr>rs_StatusCode = 200, rs_Body = Inr (29, JDoc (JObj [(''generation'', enc_i64 1), (''mappings'', JArr [])]) [])\<rparr>
     = Inr (Some (JDoc (JObj [(''generation'', enc_i64 1), (''mappings'', JArr [])]) []))"
proof (rule probe_admits_snapshots[where pt = parse_int and lim = example_limits and n = 29])
  let ?s = "snapshot_zero\<lparr>s_Generation := 1, s_Mappings := Some []\<rparr>"
  have "dec_snapshot parse_int (JObj [(''generation'', enc_i64 1), (''mappings'', JArr [])]) = Some ?s"
    by (simp add: dec_snapshot_def dec_struct_def set_snapshot_field_def snapshot_zero_def dec_slice_def int64_def)
  moreover have "Validate example_limits ?s = Inr ?s"
    by (simp add: Validate_iff wf_snapshot_def snapshot_zero_def with_targets_def)
  ultimately show "Parse parse_int (JDoc (JObj [(''generation'', enc_i64 1), (''mappings'', JArr [])]) []) example_limits = Inr ?s"
    by (simp add: Parse_def Unmarshal_def is_null_body_def raw_map_def flow_mark_null_def DecodeFirst_def More_def)
qed simp_all

end
