(* ===== verification/Counters.thy ===== *)
theory Counters
  imports Nft_Control Sync_Source "HOL-Library.Multiset"
begin

text \<open>
  \<open>internal/agent/counters.go\<close>: kernel counter readings folded into cumulative totals, and
  the rotating window of totals that a report carries. A Go map is an association list with
  one entry per key; totals are 64-bit words and wrap as Go's do.

  Shown: a total is the sum of the final readings of every stretch in which the kernel
  counter did not go back; the binary search agrees with a linear scan; reports are bounded,
  in order and exact; and every mapping is reported within \<open>n/2000\<close> consecutive reports.
\<close>

record mapping_counter =
  cn_cum :: kcounters
  cn_last :: kcounters

record counter_state =
  cs_m :: "(int \<times> mapping_counter) list"
  cs_cursor :: int

definition newCounterState :: counter_state where
  "newCounterState = \<lparr>cs_m = [], cs_cursor = 0\<rparr>"

definition mapping_counter_zero :: mapping_counter where
  "mapping_counter_zero = \<lparr>cn_cum = kcounters_zero, cn_last = kcounters_zero\<rparr>"

text \<open>The new total and the new baseline of one field.\<close>

definition foldField :: "u64 \<Rightarrow> u64 \<Rightarrow> u64 \<Rightarrow> u64 \<times> u64" where
  "foldField cum prev k = (if k \<ge> prev then (cum + (k - prev), k) else (cum + k, k))"

definition fold_fields :: "mapping_counter \<Rightarrow> kcounters \<Rightarrow> mapping_counter" where
  "fold_fields mc k =
     (let f = (\<lambda>sel. foldField (sel (cn_cum mc)) (sel (cn_last mc)) (sel k));
          build = (\<lambda>part. \<lparr>k_NewConns = part (f k_NewConns), k_InPackets = part (f k_InPackets), k_InBytes = part (f k_InBytes),
            k_OutPackets = part (f k_OutPackets), k_OutBytes = part (f k_OutBytes), k_RateDropped = part (f k_RateDropped),
            k_ConnDropped = part (f k_ConnDropped), k_PerSourceDropped = part (f k_PerSourceDropped)\<rparr>)
      in \<lparr>cn_cum = build fst, cn_last = build snd\<rparr>)"

definition fold_reading :: "int \<times> kcounters \<Rightarrow> counter_state \<Rightarrow> counter_state" where
  "fold_reading r cs =
     (case r of (i, k) \<Rightarrow>
      let mc = (case map_of (cs_m cs) i of None \<Rightarrow> mapping_counter_zero | Some c \<Rightarrow> c)
      in cs\<lparr>cs_m := AList.update i (fold_fields mc k) (cs_m cs)\<rparr>)"

definition Fold :: "(int \<times> kcounters) list \<Rightarrow> counter_state \<Rightarrow> counter_state" where
  "Fold rd cs = fold fold_reading rd cs"

definition MarkReset :: "counter_state \<Rightarrow> counter_state" where
  "MarkReset cs = cs\<lparr>cs_m := map (\<lambda>(i, mc). (i, mc\<lparr>cn_last := kcounters_zero\<rparr>)) (cs_m cs)\<rparr>"

definition Prune :: "int set \<Rightarrow> counter_state \<Rightarrow> counter_state" where
  "Prune keep cs = cs\<lparr>cs_m := filter (\<lambda>(i, mc). i \<in> keep) (cs_m cs)\<rparr>"

definition maxReportedCounters :: nat where "maxReportedCounters = 2000"

text \<open>\<open>sort.Search\<close> on the interval that is left.\<close>

function search_between :: "(nat \<Rightarrow> bool) \<Rightarrow> nat \<Rightarrow> nat \<Rightarrow> nat" where
  "search_between f i j =
     (if i < j then (let h = (i + j) div 2 in if \<not> f h then search_between f (h + 1) j else search_between f i h) else i)"
  by pat_completeness auto
termination
  by (relation "measure (\<lambda>(f, i, j). j - i)") auto

declare search_between.simps [simp del]

definition sort_Search :: "nat \<Rightarrow> (nat \<Rightarrow> bool) \<Rightarrow> nat" where
  "sort_Search n f = search_between f 0 n"

definition counter_row :: "counter_state \<Rightarrow> int \<Rightarrow> mapping_counters" where
  "counter_row cs i =
     (let cum = (case map_of (cs_m cs) i of None \<Rightarrow> kcounters_zero | Some mc \<Rightarrow> cn_cum mc)
      in \<lparr>mc_MappingID = i, mc_NewConns = k_NewConns cum, mc_InPackets = k_InPackets cum, mc_InBytes = k_InBytes cum,
          mc_OutPackets = k_OutPackets cum, mc_OutBytes = k_OutBytes cum, mc_RateDropped = k_RateDropped cum,
          mc_ConnDropped = k_ConnDropped cum, mc_PerSourceDropped = k_PerSourceDropped cum\<rparr>)"

text \<open>Where the window starts, how long it is, and the next cursor.\<close>

definition report_window :: "int list \<Rightarrow> int \<Rightarrow> nat \<times> nat \<times> int" where
  "report_window ids cursor =
     (let total = length ids
      in if total > maxReportedCounters
         then (let found = sort_Search total (\<lambda>i. ids ! i \<ge> cursor);
                   start = (if found = total then 0 else found)
               in (maxReportedCounters, start, ids ! ((start + maxReportedCounters) mod total)))
         else (total, 0, 0))"

definition counters_Snapshot :: "counter_state \<Rightarrow> mapping_counters list option \<times> counter_state" where
  "counters_Snapshot cs =
     (if cs_m cs = [] then (None, cs)
      else let ids = sort (map fst (cs_m cs));
               total = length ids
           in case report_window ids (cs_cursor cs) of (cnt, start, cursor) \<Rightarrow>
                (Some (sort_key mc_MappingID (map (\<lambda>i. counter_row cs (ids ! ((start + i) mod total))) [0..<cnt])),
                 cs\<lparr>cs_cursor := cursor\<rparr>))"

subsection \<open>Binary search\<close>

locale monotone_search =
  fixes n :: nat and f :: "nat \<Rightarrow> bool"
  assumes mono: "i \<le> j \<Longrightarrow> j < n \<Longrightarrow> f i \<Longrightarrow> f j"
begin

lemma search_between_first:
  assumes "i \<le> j" "j \<le> n" "\<forall>k<i. \<not> f k" "\<forall>k. j \<le> k \<and> k < n \<longrightarrow> f k"
  shows "search_between f i j \<le> n \<and> (\<forall>k<n. f k \<longleftrightarrow> search_between f i j \<le> k)"
  using assms
proof (induction "j - i" arbitrary: i j rule: less_induct)
  case less
  show ?case
  proof (cases "i < j")
    case False
    with less.prems have "i = j" by simp
    then have "search_between f i j = j" by (simp add: search_between.simps)
    then show ?thesis using less.prems \<open>i = j\<close> linorder_not_le by auto
  next
    case True
    let ?h = "(i + j) div 2"
    have h: "i \<le> ?h" "?h < j" using True by auto
    show ?thesis
    proof (cases "f ?h")
      case True
      have "\<forall>k. ?h \<le> k \<and> k < n \<longrightarrow> f k" using mono True by blast
      with less.hyps[of ?h i] less.prems h True \<open>i < j\<close> show ?thesis by (subst (1 2) search_between.simps) (simp add: Let_def)
    next
      case False
      have "\<not> f k" if "k < ?h + 1" for k using mono[of k ?h] False that h(2) less.prems(2) by auto
      with less.hyps[of j "?h + 1"] less.prems h False \<open>i < j\<close> show ?thesis
        by (subst (1 2) search_between.simps) (simp add: Let_def)
    qed
  qed
qed

lemma search_bound: "sort_Search n f \<le> n"
  and search_first: "k < n \<Longrightarrow> f k \<longleftrightarrow> sort_Search n f \<le> k"
proof -
  have "search_between f 0 n \<le> n \<and> (\<forall>k<n. f k \<longleftrightarrow> search_between f 0 n \<le> k)" by (rule search_between_first) auto
  then show "sort_Search n f \<le> n" "k < n \<Longrightarrow> f k \<longleftrightarrow> sort_Search n f \<le> k" by (simp_all add: sort_Search_def)
qed

text \<open>The linear scan the search replaces.\<close>

lemma search_linear: "sort_Search n f = length (takeWhile (\<lambda>k. \<not> f k) [0..<n])"
proof -
  have "takeWhile (\<lambda>k. \<not> f k) ([0..<sort_Search n f] @ [sort_Search n f..<n]) = [0..<sort_Search n f]"
  proof (subst takeWhile_append2)
    show "\<And>x. x \<in> set [0..<sort_Search n f] \<Longrightarrow> \<not> f x" using search_first search_bound by fastforce
    have "takeWhile (\<lambda>k. \<not> f k) [sort_Search n f..<n] = []"
      using search_first[of "sort_Search n f"] by (cases "sort_Search n f < n") (simp_all add: upt_rec)
    then show "[0..<sort_Search n f] @ takeWhile (\<lambda>k. \<not> f k) [sort_Search n f..<n] = [0..<sort_Search n f]" by simp
  qed
  then show ?thesis using search_bound upt_add_eq_append[of 0 "sort_Search n f" "n - sort_Search n f"] by simp
qed

end

interpretation id_search: monotone_search "length ids" "\<lambda>i. sort ids ! i \<ge> cursor" for ids :: "int list" and cursor
proof
  fix i j assume "i \<le> j" "j < length ids" "cursor \<le> sort ids ! i"
  moreover have "sort ids ! i \<le> sort ids ! j" using calculation by (intro sorted_nth_mono) simp_all
  ultimately show "cursor \<le> sort ids ! j" by simp
qed

subsection \<open>One entry per mapping\<close>

definition one_entry :: "counter_state \<Rightarrow> bool" where
  "one_entry cs = distinct (map fst (cs_m cs))"

definition live_ids :: "counter_state \<Rightarrow> int set" where
  "live_ids cs = set (map fst (cs_m cs))"

definition total_of :: "counter_state \<Rightarrow> int \<Rightarrow> mapping_counter" where
  "total_of cs i = (case map_of (cs_m cs) i of None \<Rightarrow> mapping_counter_zero | Some mc \<Rightarrow> mc)"

lemma fold_reading_simps [simp]:
  "live_ids (fold_reading (i, k) cs) = insert i (live_ids cs)"
  "cs_cursor (fold_reading (i, k) cs) = cs_cursor cs"
  "one_entry cs \<Longrightarrow> one_entry (fold_reading (i, k) cs)"
  "total_of (fold_reading (i, k) cs) j = (if j = i then fold_fields (total_of cs i) k else total_of cs j)"
  by (auto simp: fold_reading_def live_ids_def one_entry_def total_of_def Let_def update_conv' dom_update distinct_update)

lemma Fold_live: "live_ids (Fold rd cs) = live_ids cs \<union> fst ` set rd"
  by (induction rd arbitrary: cs) (auto simp: Fold_def)

lemma Fold_one_entry: "one_entry cs \<Longrightarrow> one_entry (Fold rd cs)"
proof (induction rd arbitrary: cs)
  case (Cons r rd)
  then show ?case by (cases r) (simp add: Fold_def)
qed (simp add: Fold_def)

lemma Fold_total:
  assumes "distinct (map fst rd)"
  shows "total_of (Fold rd cs) i = (case map_of rd i of None \<Rightarrow> total_of cs i | Some k \<Rightarrow> fold_fields (total_of cs i) k)"
  using assms
proof (induction rd arbitrary: cs)
  case (Cons r rd)
  then obtain j k where r: "r = (j, k)" by (cases r)
  have "map_of rd j = None" using Cons.prems r by (simp add: map_of_eq_None_iff)
  with Cons r show ?case by (auto simp: Fold_def split: option.splits)
qed (simp add: Fold_def)

lemma MarkReset_simps [simp]:
  "live_ids (MarkReset cs) = live_ids cs" "one_entry (MarkReset cs) = one_entry cs" "cs_cursor (MarkReset cs) = cs_cursor cs"
  "total_of (MarkReset cs) i = (total_of cs i)\<lparr>cn_last := kcounters_zero\<rparr>"
  unfolding MarkReset_def live_ids_def one_entry_def total_of_def
  by (simp_all add: map_of_map_snd mapping_counter_zero_def del: map_map set_map split: option.split)

lemma Prune_simps [simp]:
  "live_ids (Prune keep cs) = live_ids cs \<inter> keep" "one_entry cs \<Longrightarrow> one_entry (Prune keep cs)" "cs_cursor (Prune keep cs) = cs_cursor cs"
  "total_of (Prune keep cs) i = (if i \<in> keep then total_of cs i else mapping_counter_zero)"
  by (auto simp: Prune_def live_ids_def one_entry_def total_of_def map_of_filter_key filter_map_fst_distinct)

lemma Snapshot_state [simp]:
  "cs_m (snd (counters_Snapshot cs)) = cs_m cs"
  by (simp add: counters_Snapshot_def Let_def split: prod.split)

subsection \<open>Accounting\<close>

definition counter_fields :: "(kcounters \<Rightarrow> u64) list" where
  "counter_fields = [k_NewConns, k_InPackets, k_InBytes, k_OutPackets, k_OutBytes, k_RateDropped, k_ConnDropped, k_PerSourceDropped]"

lemma snd_foldField [simp]: "snd (foldField c p k) = k"
  by (simp add: foldField_def)

lemma fold_fields_sel:
  "sel \<in> set counter_fields \<Longrightarrow>
   sel (cn_cum (fold_fields mc k)) = fst (foldField (sel (cn_cum mc)) (sel (cn_last mc)) (sel k)) \<and> sel (cn_last (fold_fields mc k)) = sel k"
  unfolding counter_fields_def fold_fields_def Let_def list.set insert_iff empty_iff by (elim disjE) simp_all

lemma zero_sel: "sel \<in> set counter_fields \<Longrightarrow> sel kcounters_zero = 0"
  by (auto simp: counter_fields_def kcounters_zero_def)

text \<open>The operations of the agent on its counters, in any order.\<close>

datatype counter_op = OpFold "(int \<times> kcounters) list" | OpReset | OpPrune "int set" | OpReport

fun counter_step :: "counter_op \<Rightarrow> counter_state \<Rightarrow> counter_state" where
  "counter_step (OpFold rd) cs = Fold rd cs"
| "counter_step OpReset cs = MarkReset cs"
| "counter_step (OpPrune keep) cs = Prune keep cs"
| "counter_step OpReport cs = snd (counters_Snapshot cs)"

text \<open>
  The readings of one field of one mapping since it was last pruned, in stretches between
  table replacements (latest first, each stretch latest first).
\<close>

fun see :: "(kcounters \<Rightarrow> u64) \<Rightarrow> int \<Rightarrow> counter_op \<Rightarrow> u64 list list \<Rightarrow> u64 list list" where
  "see sel i (OpFold rd) (ep # eps) = (case map_of rd i of None \<Rightarrow> ep # eps | Some k \<Rightarrow> (sel k # ep) # eps)"
| "see sel i OpReset eps = [] # eps"
| "see sel i (OpPrune keep) eps = (if i \<in> keep then eps else [[]])"
| "see sel i _ eps = eps"

text \<open>The final reading of every run in which the counter did not go back.\<close>

fun run_ends :: "u64 list \<Rightarrow> u64 list" where
  "run_ends [] = []"
| "run_ends [k] = [k]"
| "run_ends (k' # k # ks) = (if k' < k then k' # run_ends (k # ks) else k' # tl (run_ends (k # ks)))"

definition counted :: "u64 list list \<Rightarrow> u64" where
  "counted eps = sum_list (map (sum_list \<circ> run_ends) eps)"

lemma run_ends_Cons: "\<exists>rest. run_ends (k # ks) = k # rest"
  by (cases ks) auto

lemma sum_run_ends:
  "sum_list (run_ends (k # ks)) = fst (foldField (sum_list (run_ends ks)) (case ks of [] \<Rightarrow> 0 | k0 # _ \<Rightarrow> k0) k)"
proof (cases ks)
  case Nil
  then show ?thesis by (simp add: foldField_def)
next
  case (Cons k0 rest)
  with run_ends_Cons[of k0 rest] show ?thesis by (auto simp: foldField_def)
qed

lemma accounting_invariant:
  assumes "\<forall>op\<in>set ops. \<forall>rd. op = OpFold rd \<longrightarrow> distinct (map fst rd)" "sel \<in> set counter_fields"
  shows "sel (cn_cum (total_of (fold counter_step ops newCounterState) i)) = counted (fold (see sel i) ops [[]])
    \<and> (\<exists>ep eps. fold (see sel i) ops [[]] = ep # eps
        \<and> sel (cn_last (total_of (fold counter_step ops newCounterState) i)) = (case ep of [] \<Rightarrow> 0 | k # _ \<Rightarrow> k))"
  using assms(1)
proof (induction ops rule: rev_induct)
  case Nil
  then show ?case by (simp add: newCounterState_def total_of_def mapping_counter_zero_def counted_def zero_sel[OF assms(2)])
next
  case (snoc op ops)
  let ?cs = "fold counter_step ops newCounterState"
  obtain ep eps where ih: "sel (cn_cum (total_of ?cs i)) = counted (ep # eps)" "fold (see sel i) ops [[]] = ep # eps"
    "sel (cn_last (total_of ?cs i)) = (case ep of [] \<Rightarrow> 0 | k # _ \<Rightarrow> k)" using snoc by auto
  show ?case
  proof (cases op)
    case (OpFold rd)
    then have "distinct (map fst rd)" using snoc.prems by simp
    then have t: "total_of (Fold rd ?cs) i = (case map_of rd i of None \<Rightarrow> total_of ?cs i | Some k \<Rightarrow> fold_fields (total_of ?cs i) k)"
      by (rule Fold_total)
    show ?thesis
    proof (cases "map_of rd i")
      case None
      then show ?thesis using ih t OpFold by simp
    next
      case (Some k)
      have "foldField (x + y) p q = (x + fst (foldField y p q), q)" for x y p q by (simp add: foldField_def add.assoc)
      moreover have c: "counted (e # eps) = counted eps + sum_list (run_ends e)" for e by (simp add: counted_def)
      ultimately have "fst (foldField (counted (ep # eps)) p (sel k)) = counted ((sel k # ep) # eps)"
        if "p = (case ep of [] \<Rightarrow> 0 | k # _ \<Rightarrow> k)" for p
        using sum_run_ends[of "sel k" ep] that by (simp only: c fst_conv)
      then show ?thesis using ih t Some OpFold fold_fields_sel[OF assms(2)] by simp
    qed
  next
    case OpReset
    then show ?thesis using ih by (simp add: counted_def zero_sel[OF assms(2)])
  next
    case (OpPrune keep)
    then show ?thesis using ih by (auto simp: counted_def mapping_counter_zero_def zero_sel[OF assms(2)])
  next
    case OpReport
    then show ?thesis using ih by (simp add: total_of_def)
  qed
qed

text \<open>
  C10: whatever the order of folds, table replacements, prunings and reports, the cumulative
  total of every field of every mapping is the sum of the final readings of the stretches in
  which the kernel's counter did not go back, since the mapping was last pruned (as a 64-bit
  number); a replacement always ends a stretch.
\<close>

theorem counter_accounting:
  assumes "\<forall>op\<in>set ops. \<forall>rd. op = OpFold rd \<longrightarrow> distinct (map fst rd)" "sel \<in> set counter_fields"
  shows "sel (cn_cum (total_of (fold counter_step ops newCounterState) i)) = counted (fold (see sel i) ops [[]])"
  using accounting_invariant[OF assms] by simp

lemma counter_accounting_witness:
  "k_InBytes (cn_cum (total_of (fold counter_step
     [OpFold [(7, kcounters_zero\<lparr>k_InBytes := 5\<rparr>)], OpFold [(7, kcounters_zero\<lparr>k_InBytes := 9\<rparr>)], OpReset,
      OpFold [(7, kcounters_zero\<lparr>k_InBytes := 20\<rparr>)], OpFold [(7, kcounters_zero\<lparr>k_InBytes := 4\<rparr>)]] newCounterState) 7)) = 33"
  by (subst counter_accounting) (simp_all add: counter_fields_def counted_def)

subsection \<open>Reports\<close>

definition sorted_ids :: "counter_state \<Rightarrow> int list" where
  "sorted_ids cs = sort (map fst (cs_m cs))"

definition window_start :: "counter_state \<Rightarrow> nat" where
  "window_start cs = fst (snd (report_window (sorted_ids cs) (cs_cursor cs)))"

definition window_size :: "counter_state \<Rightarrow> nat" where
  "window_size cs = min maxReportedCounters (length (cs_m cs))"

definition window_ids :: "counter_state \<Rightarrow> int list" where
  "window_ids cs = map (\<lambda>i. sorted_ids cs ! ((window_start cs + i) mod length (cs_m cs))) [0..<window_size cs]"

lemma sorted_ids_simps [simp]:
  "length (sorted_ids cs) = length (cs_m cs)" "set (sorted_ids cs) = live_ids cs" "one_entry cs \<Longrightarrow> distinct (sorted_ids cs)"
  by (simp_all add: sorted_ids_def live_ids_def one_entry_def)

lemma window_start_less: "cs_m cs \<noteq> [] \<Longrightarrow> window_start cs < length (cs_m cs)"
  using id_search.search_bound[of "map fst (cs_m cs)" "cs_cursor cs"]
  by (auto simp: window_start_def report_window_def sorted_ids_def Let_def)

lemma Snapshot_window:
  "cs_m cs \<noteq> [] \<Longrightarrow> fst (counters_Snapshot cs) = Some (sort_key mc_MappingID (map (counter_row cs) (window_ids cs)))"
  by (auto simp: counters_Snapshot_def window_ids_def window_size_def window_start_def sorted_ids_def report_window_def Let_def
      o_def)

lemma distinct_window: "one_entry cs \<Longrightarrow> distinct (window_ids cs)"
proof -
  assume one: "one_entry cs"
  let ?n = "length (cs_m cs)"
  have "i = j" if "i < window_size cs" "j < window_size cs" "sorted_ids cs ! ((window_start cs + i) mod ?n) = sorted_ids cs ! ((window_start cs + j) mod ?n)" for i j
  proof -
    have n: "i < ?n" "j < ?n" using that(1,2) by (auto simp: window_size_def)
    then have ne: "cs_m cs \<noteq> []" by auto
    with that(3) one have "(window_start cs + i) mod ?n = (window_start cs + j) mod ?n" by (subst (asm) nth_eq_iff_index_eq) simp_all
    with n window_start_less[OF ne] show ?thesis by (auto simp: mod_if split: if_splits)
  qed
  then show ?thesis by (auto simp: window_ids_def distinct_map inj_on_def)
qed

lemma counter_row_id [simp]: "mc_MappingID (counter_row cs i) = i"
  by (simp add: counter_row_def Let_def)

lemma window_ids_live: "cs_m cs \<noteq> [] \<Longrightarrow> set (window_ids cs) \<subseteq> live_ids cs"
proof
  fix x assume ne: "cs_m cs \<noteq> []" and "x \<in> set (window_ids cs)"
  then obtain i where "x = sorted_ids cs ! ((window_start cs + i) mod length (cs_m cs))" by (auto simp: window_ids_def)
  moreover have "(window_start cs + i) mod length (cs_m cs) < length (sorted_ids cs)" using ne by simp
  ultimately show "x \<in> live_ids cs" using nth_mem[of _ "sorted_ids cs"] by auto
qed

lemma sorted_rows: "sort_key mc_MappingID (map (counter_row cs) xs) = map (counter_row cs) (sort xs)"
proof -
  let ?rows = "sort_key mc_MappingID (map (counter_row cs) xs)"
  have "map mc_MappingID ?rows = sort xs"
    by (rule properties_for_sort[symmetric]) (simp_all add: multiset.map_comp o_def)
  moreover have "?rows = map (counter_row cs) (map mc_MappingID ?rows)"
    unfolding map_map o_def by (rule map_idI[symmetric]) auto
  ultimately show ?thesis by simp
qed

text \<open>The fields of a row are the totals of its mapping, field by field.\<close>

definition row_shows :: "mapping_counters \<Rightarrow> kcounters \<Rightarrow> bool" where
  "row_shows row c \<longleftrightarrow> mc_NewConns row = k_NewConns c \<and> mc_InPackets row = k_InPackets c \<and> mc_InBytes row = k_InBytes c
     \<and> mc_OutPackets row = k_OutPackets c \<and> mc_OutBytes row = k_OutBytes c \<and> mc_RateDropped row = k_RateDropped c
     \<and> mc_ConnDropped row = k_ConnDropped c \<and> mc_PerSourceDropped row = k_PerSourceDropped c"

lemma counter_row_shows: "row_shows (counter_row cs i) (cn_cum (total_of cs i))"
  by (simp add: row_shows_def counter_row_def total_of_def Let_def mapping_counter_zero_def split: option.split)

text \<open>
  C32: a report has one row for each of \<open>min 2000 n\<close> of the \<open>n\<close> live mappings, in strictly
  ascending order of their ids, each field of a row being that mapping's total of the same
  name; up to 2000 live mappings, it has a row for every one.
\<close>

theorem report_bounded:
  assumes "one_entry cs" "cs_m cs \<noteq> []"
  shows "\<exists>rows. fst (counters_Snapshot cs) = Some rows \<and> length rows = min 2000 (card (live_ids cs))
    \<and> sorted_wrt (<) (map mc_MappingID rows) \<and> rows = map (counter_row cs) (map mc_MappingID rows)
    \<and> (\<forall>row\<in>set rows. row_shows row (cn_cum (total_of cs (mc_MappingID row))))
    \<and> set (map mc_MappingID rows) \<subseteq> live_ids cs
    \<and> (card (live_ids cs) \<le> 2000 \<longrightarrow> set (map mc_MappingID rows) = live_ids cs)"
proof -
  let ?rows = "sort_key mc_MappingID (map (counter_row cs) (window_ids cs))"
  have ids: "map mc_MappingID ?rows = sort (window_ids cs)" by (simp add: sorted_rows o_def)
  have card: "card (live_ids cs) = length (cs_m cs)"
    using assms(1) by (simp add: live_ids_def one_entry_def distinct_card flip: set_map)
  then have len: "length ?rows = min 2000 (card (live_ids cs))"
    by (simp add: window_ids_def window_size_def maxReportedCounters_def)
  have sub: "set (map mc_MappingID ?rows) \<subseteq> live_ids cs" unfolding ids using window_ids_live[OF assms(2)] by simp
  have "card (set (map mc_MappingID ?rows)) = length ?rows"
    unfolding ids using distinct_window[OF assms(1)] by (simp add: distinct_card)
  then have "card (live_ids cs) \<le> 2000 \<longrightarrow> set (map mc_MappingID ?rows) = live_ids cs"
    using len card_subset_eq[OF _ sub] by (simp add: live_ids_def)
  moreover have "sorted_wrt (<) (map mc_MappingID ?rows)"
    unfolding ids using distinct_window[OF assms(1)] by (simp add: strict_sorted_iff)
  moreover have "?rows = map (counter_row cs) (map mc_MappingID ?rows)"
    unfolding map_map o_def by (rule map_idI[symmetric]) auto
  moreover have "\<forall>row\<in>set ?rows. row_shows row (cn_cum (total_of cs (mc_MappingID row)))"
    by (auto simp: counter_row_shows)
  ultimately show ?thesis using Snapshot_window[OF assms(2)] len sub by blast
qed

lemma report_bounded_witness:
  "\<exists>rows. fst (counters_Snapshot (Fold [(7, kcounters_zero), (3, kcounters_zero)] newCounterState)) = Some rows \<and> length rows = 2"
proof -
  let ?cs = "Fold [(7, kcounters_zero), (3, kcounters_zero)] newCounterState"
  have live: "live_ids ?cs = {3, 7}" unfolding Fold_live by (auto simp: newCounterState_def live_ids_def)
  have "one_entry ?cs" by (rule Fold_one_entry) (simp add: one_entry_def newCounterState_def)
  moreover have "cs_m ?cs \<noteq> []" using live by (auto simp: live_ids_def)
  ultimately obtain rows where "fst (counters_Snapshot ?cs) = Some rows" "length rows = min 2000 (card {3, 7::int})"
    using report_bounded[of ?cs] unfolding live by auto
  then show ?thesis by auto
qed

subsection \<open>Rotation\<close>

lemma next_window:
  assumes "one_entry cs" "length (cs_m cs) > maxReportedCounters" "map fst (cs_m cs') = map fst (cs_m cs)"
    "cs_cursor cs' = cs_cursor (snd (counters_Snapshot cs))"
  shows "window_start cs' = (window_start cs + maxReportedCounters) mod length (cs_m cs)"
proof -
  let ?n = "length (cs_m cs)" and ?ids = "sorted_ids cs"
  let ?p = "(window_start cs + maxReportedCounters) mod ?n"
  have ne: "cs_m cs \<noteq> []" using assms(2) by auto
  have p: "?p < ?n" using ne by simp
  have ids: "sorted_ids cs' = ?ids" "length (cs_m cs') = ?n"
    using assms(3) by (simp add: sorted_ids_def, metis length_map)
  have cur: "cs_cursor cs' = ?ids ! ?p"
    using assms(2,4) ne by (simp add: counters_Snapshot_def window_start_def report_window_def sorted_ids_def Let_def split: prod.split)
  have nth: "?ids ! k \<ge> ?ids ! ?p \<longleftrightarrow> ?p \<le> k" if "k < ?n" for k
  proof -
    have "sorted_wrt (<) ?ids" using assms(1) by (simp add: sorted_ids_def strict_sorted_iff one_entry_def)
    then show ?thesis using that p sorted_wrt_nth_less[of "(<)" ?ids k ?p] sorted_wrt_nth_less[of "(<)" ?ids ?p k]
      by (cases k ?p rule: linorder_cases) auto
  qed
  define r where "r = sort_Search ?n (\<lambda>i. ?ids ! i \<ge> ?ids ! ?p)"
  have r: "k < ?n \<Longrightarrow> ?ids ! k \<ge> ?ids ! ?p \<longleftrightarrow> r \<le> k" for k
    using id_search.search_first[of k "map fst (cs_m cs)" "?ids ! ?p"] by (simp add: r_def sorted_ids_def)
  have "r = ?p"
  proof (rule antisym)
    show "r \<le> ?p" using r[OF p] by simp
    show "?p \<le> r"
    proof (rule ccontr)
      assume "\<not> ?p \<le> r"
      then have "r < ?n" using p by simp
      with r[of r] nth[of r] \<open>\<not> ?p \<le> r\<close> show False by simp
    qed
  qed
  then show ?thesis using assms(2) p by (simp add: window_start_def report_window_def ids cur r_def Let_def)
qed

lemma window_after:
  assumes "\<And>j. j < m \<Longrightarrow> map fst (cs_m (st (Suc j))) = map fst (cs_m (st j)) \<and> cs_cursor (st (Suc j)) = cs_cursor (snd (counters_Snapshot (st j)))"
    and "one_entry (st 0)" "length (cs_m (st 0)) > maxReportedCounters" "j \<le> m"
  shows "map fst (cs_m (st j)) = map fst (cs_m (st 0))
    \<and> window_start (st j) = (window_start (st 0) + j * maxReportedCounters) mod length (cs_m (st 0))"
  using assms(4)
proof (induction j)
  case 0
  have "window_start (st 0) < length (cs_m (st 0))" using assms(3) by (intro window_start_less) auto
  then show ?case by simp
next
  case (Suc j)
  then have keys: "map fst (cs_m (st j)) = map fst (cs_m (st 0))" "length (cs_m (st j)) = length (cs_m (st 0))"
    by (auto dest: map_eq_imp_length_eq)
  then have "one_entry (st j)" using assms(2) by (simp add: one_entry_def)
  then have "window_start (st (Suc j)) = (window_start (st j) + maxReportedCounters) mod length (cs_m (st j))"
    using assms(1)[of j] assms(3) keys Suc.prems by (intro next_window) auto
  then show ?case using Suc assms(1)[of j] keys by (simp add: mod_add_right_eq add.commute add.left_commute)
qed

text \<open>
  C33: rotation starves no mapping. While the set of live mappings stays the same, every one
  of them has a row in one of \<open>m\<close> consecutive reports as soon as \<open>2000 m\<close> is at least their
  number, whatever is folded, reset or read between the reports and wherever the first
  report starts.
\<close>

theorem rotation_reports_all:
  assumes "\<And>j. j < m \<Longrightarrow> map fst (cs_m (st (Suc j))) = map fst (cs_m (st j)) \<and> cs_cursor (st (Suc j)) = cs_cursor (snd (counters_Snapshot (st j)))"
    and "one_entry (st 0)" "i \<in> live_ids (st 0)" "card (live_ids (st 0)) \<le> m * 2000"
  shows "\<exists>j<m. \<exists>rows. fst (counters_Snapshot (st j)) = Some rows \<and> i \<in> set (map mc_MappingID rows)"
proof -
  let ?n = "length (cs_m (st 0))"
  have ne: "cs_m (st 0) \<noteq> []" using assms(3) by (auto simp: live_ids_def)
  have n: "?n = card (live_ids (st 0))" using assms(2) by (simp add: live_ids_def one_entry_def distinct_card flip: set_map)
  then have m: "0 < m" using assms(4) ne by (cases m) auto
  have "\<exists>j<m. cs_m (st j) \<noteq> [] \<and> i \<in> set (window_ids (st j))"
  proof (cases "?n > maxReportedCounters")
    case False
    then have "set (window_ids (st 0)) = live_ids (st 0)"
      using distinct_card[OF distinct_window[OF assms(2)]] window_ids_live[OF ne] n
      by (intro card_subset_eq) (simp_all add: live_ids_def window_ids_def window_size_def)
    with assms(3) ne m show ?thesis by blast
  next
    case True
    obtain p where p: "p < ?n" "i = sorted_ids (st 0) ! p"
      using assms(3) by (metis in_set_conv_nth sorted_ids_simps(1,2))
    let ?s = "window_start (st 0)"
    have s: "?s < ?n" using ne by (rule window_start_less)
    define q where "q = (if ?s \<le> p then p - ?s else p + ?n - ?s)"
    have "?s + q = p \<or> ?s + q = p + ?n" using s by (auto simp: q_def)
    then have q: "q < ?n" "(?s + q) mod ?n = p" using p(1) s by (auto simp: q_def)
    let ?j = "q div maxReportedCounters"
    have "q < m * 2000" using q(1) n assms(4) by simp
    then have j: "?j < m" by (simp add: maxReportedCounters_def less_mult_imp_div_less)
    from window_after[OF assms(1,2) True, of m ?j] j have keys: "map fst (cs_m (st ?j)) = map fst (cs_m (st 0))"
      and start: "window_start (st ?j) = (?s + ?j * maxReportedCounters) mod ?n" by auto
    have len: "length (cs_m (st ?j)) = ?n" using keys by (rule map_eq_imp_length_eq)
    have "(window_start (st ?j) + q mod maxReportedCounters) mod ?n = p"
      using q(2) by (simp add: start mod_add_left_eq add.assoc)
    moreover have "q mod maxReportedCounters < window_size (st ?j)"
      using True len by (simp add: window_size_def maxReportedCounters_def)
    ultimately have "i \<in> set (window_ids (st ?j))"
      using p(2) keys by (auto simp: window_ids_def sorted_ids_def len intro!: image_eqI[of _ _ "q mod maxReportedCounters"])
    moreover have "cs_m (st ?j) \<noteq> []" using len ne by auto
    ultimately show ?thesis using j by blast
  qed
  then show ?thesis using Snapshot_window by (fastforce simp: image_iff)
qed

lemma rotation_reports_all_witness:
  "\<exists>rows. fst (counters_Snapshot (Fold [(7, kcounters_zero), (3, kcounters_zero)] newCounterState)) = Some rows
     \<and> 3 \<in> set (map mc_MappingID rows)"
proof -
  let ?cs = "Fold [(7, kcounters_zero), (3, kcounters_zero)] newCounterState"
  let ?st = "\<lambda>j. if j = 0 then ?cs else snd (counters_Snapshot ?cs)"
  have live: "live_ids ?cs = {3, 7}" unfolding Fold_live by (auto simp: newCounterState_def live_ids_def)
  have "one_entry ?cs" by (rule Fold_one_entry) (simp add: one_entry_def newCounterState_def)
  with live show ?thesis using rotation_reports_all[of 1 ?st 3] by simp
qed

text \<open>The ids from the cursor on, then the ones before it.\<close>

definition rotation :: "int \<Rightarrow> int list \<Rightarrow> int list" where
  "rotation cursor ids = filter (\<lambda>i. cursor \<le> i) ids @ filter (\<lambda>i. i < cursor) ids"

lemma sorted_filter_split:
  fixes c :: int
  assumes "sorted xs"
  shows "filter (\<lambda>i. i < c) xs = takeWhile (\<lambda>i. i < c) xs" "filter (\<lambda>i. c \<le> i) xs = dropWhile (\<lambda>i. i < c) xs"
proof -
  have "filter (\<lambda>i. i < c) xs = takeWhile (\<lambda>i. i < c) xs \<and> filter (\<lambda>i. c \<le> i) xs = dropWhile (\<lambda>i. i < c) xs"
    using assms
  proof (induction xs)
    case (Cons a xs)
    then show ?case by (cases xs) auto
  qed simp
  then show "filter (\<lambda>i. i < c) xs = takeWhile (\<lambda>i. i < c) xs" "filter (\<lambda>i. c \<le> i) xs = dropWhile (\<lambda>i. i < c) xs" by simp_all
qed

lemma search_is_scan:
  "sort_Search (length ids) (\<lambda>i. sort ids ! i \<ge> cursor) = length (takeWhile (\<lambda>x. x < (cursor :: int)) (sort ids))"
proof -
  have "map (\<lambda>i. sort ids ! i) [0..<length ids] = sort ids" using map_nth[of "sort ids"] by simp
  moreover have "length (takeWhile (\<lambda>i. sort ids ! i < cursor) [0..<length ids])
      = length (takeWhile (\<lambda>x. x < cursor) (map (\<lambda>i. sort ids ! i) [0..<length ids]))"
    by (simp add: takeWhile_map o_def)
  ultimately show ?thesis by (simp add: id_search.search_linear not_le)
qed

lemma window_rotates:
  assumes "report_window (sort ids) cursor = (cnt, start, nxt)" "length ids > maxReportedCounters"
  shows "cnt = maxReportedCounters" "rotate start (sort ids) = rotation cursor (sort ids)"
    "nxt = rotation cursor (sort ids) ! maxReportedCounters"
proof -
  let ?xs = "sort ids" and ?found = "length (takeWhile (\<lambda>x. x < cursor) (sort ids))"
  from assms have res: "cnt = maxReportedCounters" "start = (if ?found = length ids then 0 else ?found)"
    "nxt = ?xs ! ((start + maxReportedCounters) mod length ids)"
    by (auto simp: report_window_def Let_def search_is_scan split: if_splits)
  show "cnt = maxReportedCounters" by (fact res)
  have "rotate ?found ?xs = drop (?found mod length ids) ?xs @ take (?found mod length ids) ?xs" by (simp add: rotate_drop_take)
  also have "\<dots> = rotation cursor ?xs"
  proof (cases "?found = length ids")
    case True
    then have "takeWhile (\<lambda>x. x < cursor) ?xs = ?xs" by (metis length_sort takeWhile_eq_take take_all_iff order_refl)
    with True show ?thesis using sorted_filter_split[of ?xs cursor] by (auto simp: rotation_def takeWhile_eq_all_conv)
  next
    case False
    moreover have "?found \<le> length ids" using length_takeWhile_le[of _ ?xs] by simp
    ultimately have "?found mod length ids = ?found" by simp
    then show ?thesis
      by (simp add: rotation_def sorted_filter_split takeWhile_eq_take[symmetric] dropWhile_eq_drop[symmetric])
  qed
  finally show rot: "rotate start ?xs = rotation cursor ?xs"
    by (metis length_sort res(2) rotate_id rotate0 id_apply mod_self)
  have "rotate start ?xs ! maxReportedCounters = ?xs ! ((start + maxReportedCounters) mod length ids)"
    using nth_rotate[of maxReportedCounters ?xs start] assms(2) by simp
  then show "nxt = rotation cursor ?xs ! maxReportedCounters" using res(3) rot by simp
qed

lemma window_takes:
  assumes "length ids > maxReportedCounters" "rotate start ids = order"
  shows "map (\<lambda>i. ids ! ((start + i) mod length ids)) [0..<maxReportedCounters] = take maxReportedCounters order"
  using assms nth_rotate[of _ ids start] by (intro nth_equalityI) auto

lemma sort_rotation: "sort (rotation c xs) = sort xs"
proof (rule properties_for_sort)
  have "filter (\<lambda>i. i < c) xs = filter (\<lambda>i. \<not> c \<le> i) xs" by (simp add: not_le)
  then show "mset (sort xs) = mset (rotation c xs)" by (simp add: rotation_def mset_filter multiset_partition[symmetric])
qed simp

lemma window_ids_rotation: "sort (window_ids cs) = sort (take 2000 (rotation (cs_cursor cs) (sorted_ids cs)))"
proof (cases "length (cs_m cs) > maxReportedCounters")
  case True
  obtain cnt start nxt where w: "report_window (sorted_ids cs) (cs_cursor cs) = (cnt, start, nxt)" by (cases "report_window (sorted_ids cs) (cs_cursor cs)")
  have len: "length (map fst (cs_m cs)) > maxReportedCounters" using True by simp
  have "window_ids cs = take maxReportedCounters (rotation (cs_cursor cs) (sorted_ids cs))"
    using window_takes[of "sorted_ids cs" start] window_rotates(2)[OF w[unfolded sorted_ids_def] len] True w
    by (simp add: window_ids_def window_size_def window_start_def sorted_ids_def)
  then show ?thesis by (simp add: maxReportedCounters_def)
next
  case False
  then have "window_ids cs = map (\<lambda>i. sorted_ids cs ! i) [0..<length (sorted_ids cs)]"
    by (auto simp: window_ids_def window_size_def window_start_def report_window_def Let_def)
  then have "window_ids cs = sorted_ids cs" by (simp only: map_nth)
  moreover have "length (rotation (cs_cursor cs) (sorted_ids cs)) \<le> 2000"
    using False sum_length_filter_compl[of "\<lambda>i. cs_cursor cs \<le> i" "sorted_ids cs"]
    by (simp add: rotation_def maxReportedCounters_def not_le)
  ultimately show ?thesis by (simp add: sort_rotation)
qed

text \<open>
  C34: the window a report covers, found by binary search and wrapping around the end, is the
  one a linear reference gives. Take the ids of the live mappings in ascending order from the
  cursor on, followed by the ones before the cursor: the window is the first 2000 of them, the
  report has their rows in ascending order, and the next cursor is the first id left out. Up
  to 2000 mappings are reported together, and the cursor goes back to 0.
\<close>

theorem window_is_rotation:
  "let ids = sort (map fst (cs_m cs)); order = rotation (cs_cursor cs) ids
   in (case report_window ids (cs_cursor cs) of (cnt, start, cursor) \<Rightarrow>
         if length ids \<le> 2000 then cnt = length ids \<and> start = 0 \<and> cursor = 0
         else map (\<lambda>i. ids ! ((start + i) mod length ids)) [0..<cnt] = take 2000 order \<and> cursor = order ! 2000)
      \<and> fst (counters_Snapshot cs) = (if ids = [] then None else Some (map (counter_row cs) (sort (take 2000 order))))
      \<and> cs_cursor (snd (counters_Snapshot cs)) =
          (if ids = [] then cs_cursor cs else if length ids \<le> 2000 then 0 else order ! 2000)"
proof -
  let ?ids = "sort (map fst (cs_m cs))"
  let ?order = "rotation (cs_cursor cs) ?ids"
  obtain cnt start cursor where w: "report_window ?ids (cs_cursor cs) = (cnt, start, cursor)"
    by (cases "report_window ?ids (cs_cursor cs)")
  have nil: "?ids = [] \<longleftrightarrow> cs_m cs = []" by (metis length_0_conv length_map length_sort)
  have win: "if length ?ids \<le> 2000 then cnt = length ?ids \<and> start = 0 \<and> cursor = 0
      else map (\<lambda>i. ?ids ! ((start + i) mod length ?ids)) [0..<cnt] = take 2000 ?order \<and> cursor = ?order ! 2000"
  proof (cases "length ?ids > maxReportedCounters")
    case True
    then show ?thesis using window_rotates[OF w] window_takes[OF True, of start ?order] by (simp add: maxReportedCounters_def)
  next
    case False
    then show ?thesis using w by (auto simp: report_window_def Let_def maxReportedCounters_def)
  qed
  have "fst (counters_Snapshot cs) = (if ?ids = [] then None else Some (map (counter_row cs) (sort (take 2000 ?order))))"
    using Snapshot_window[of cs] window_ids_rotation[of cs] nil
    by (cases "cs_m cs = []") (simp_all add: sorted_rows sorted_ids_def, simp add: counters_Snapshot_def)
  moreover have "cs_cursor (snd (counters_Snapshot cs)) = (if ?ids = [] then cs_cursor cs else cursor)"
    using w nil by (simp add: counters_Snapshot_def Let_def)
  ultimately show ?thesis using w win nil by (simp add: Let_def split: if_splits)
qed

end
