(* ===== verification/Conntrack.thy ===== *)
theory Conntrack
  imports Ledger
begin

text \<open>
  \<open>internal/conntrackctl\<close>: finding and deleting the connection-tracking entries of a retired
  mapping. The conntrack library and the kernel's table are the record \<open>ctlib\<close> of parameters
  over a world \<open>'w\<close>; the three-second timer of \<open>withConn\<close> is a parameter too, and when it
  fires the operation's result is replaced by an error, whatever the operation did.

  The locale \<open>controller\<close> is the contract of the \<open>Controller\<close> interface the agent relies on;
  both implementations, the netlink one and the one of other systems, are instances of it.
\<close>

record flow =
  fl_ID :: u32
  fl_Mark :: u32
  fl_OrigProtocol :: u8
  fl_OrigDestinationPort :: u16
  fl_ReplySourceAddress :: "addr option"
  fl_ReplySourcePort :: u16
  fl_DstNAT :: bool

record 'w ctlib =
  ct_Dial :: "'w \<Rightarrow> string option"
  ct_DumpFilter :: "u32 \<Rightarrow> u32 \<Rightarrow> 'w \<Rightarrow> (string, flow list) result"
  ct_Delete :: "flow \<Rightarrow> 'w \<Rightarrow> string option \<times> 'w"
  ct_TimedOut :: "'w \<Rightarrow> 'w \<Rightarrow> bool"

datatype ct_error =
    DialFailed string
  | DumpFailed string
  | DeleteFailed u32 string
  | StillHasFlows string nat
  | RegainedFlows string nat
  | OperationTimedOut
  | RequiresLinux

text \<open>\<open>netip.Addr.String\<close>; the zero address has a text of its own.\<close>

definition addr_text :: "addr option \<Rightarrow> string" where
  "addr_text a = (case a of None \<Rightarrow> ''invalid IP'' | Some x \<Rightarrow> addr_string x)"

definition withConn :: "'w ctlib \<Rightarrow> ('w \<Rightarrow> (ct_error, unit) result \<times> 'w) \<Rightarrow> 'w \<Rightarrow> (ct_error, unit) result \<times> 'w" where
  "withConn ct f w =
     (case ct_Dial ct w of Some e \<Rightarrow> (Inl (DialFailed e), w)
      | None \<Rightarrow> (case f w of (r, w') \<Rightarrow> if ct_TimedOut ct w w' then (Inl OperationTimedOut, w') else (r, w')))"

definition matches :: "flow \<Rightarrow> retirement \<Rightarrow> bool" where
  "matches f r =
     (let proto = (if r_Proto r = ProtoUDP then 17 else 6)
      in fl_Mark f = r_FlowMark r \<and> fl_OrigProtocol f = proto \<and> fl_OrigDestinationPort f = r_PublicPort r
         \<and> addr_text (fl_ReplySourceAddress f) = r_TargetAddr r \<and> fl_ReplySourcePort f = r_TargetPort r \<and> fl_DstNAT f)"

definition flows :: "'w ctlib \<Rightarrow> retirement \<Rightarrow> 'w \<Rightarrow> (ct_error, flow list) result" where
  "flows ct r w =
     (case ct_DumpFilter ct (r_FlowMark r) (- 1) w of Inl e \<Rightarrow> Inl (DumpFailed e)
      | Inr all \<Rightarrow> Inr (filter (\<lambda>f. matches f r) all))"

fun delete_flows :: "'w ctlib \<Rightarrow> flow list \<Rightarrow> 'w \<Rightarrow> (ct_error, unit) result \<times> 'w" where
  "delete_flows ct [] w = (Inr (), w)"
| "delete_flows ct (f # fs) w =
     (case ct_Delete ct f w of (Some e, w') \<Rightarrow> (Inl (DeleteFailed (fl_ID f) e), w') | (None, w') \<Rightarrow> delete_flows ct fs w')"

definition clear_flows :: "'w ctlib \<Rightarrow> retirement \<Rightarrow> 'w \<Rightarrow> (ct_error, unit) result \<times> 'w" where
  "clear_flows ct r w =
     (case flows ct r w of Inl e \<Rightarrow> (Inl e, w)
      | Inr found \<Rightarrow>
          (case delete_flows ct found w of (Inl e, w') \<Rightarrow> (Inl e, w')
           | (Inr _, w') \<Rightarrow>
               (case flows ct r w' of Inl e \<Rightarrow> (Inl e, w')
                | Inr left \<Rightarrow> if length left \<noteq> 0 then (Inl (StillHasFlows (r_RetirementID r) (length left)), w') else (Inr (), w'))))"

definition ct_Clear :: "'w ctlib \<Rightarrow> retirement \<Rightarrow> 'w \<Rightarrow> (ct_error, unit) result \<times> 'w" where
  "ct_Clear ct r w = withConn ct (clear_flows ct r) w"

definition zero_flows :: "'w ctlib \<Rightarrow> retirement \<Rightarrow> 'w \<Rightarrow> (ct_error, unit) result \<times> 'w" where
  "zero_flows ct r w =
     (case flows ct r w of Inl e \<Rightarrow> (Inl e, w)
      | Inr left \<Rightarrow> if length left \<noteq> 0 then (Inl (RegainedFlows (r_RetirementID r) (length left)), w) else (Inr (), w))"

definition ct_Zero :: "'w ctlib \<Rightarrow> retirement \<Rightarrow> 'w \<Rightarrow> (ct_error, unit) result \<times> 'w" where
  "ct_Zero ct r w = withConn ct (zero_flows ct r) w"

text \<open>The build for other systems.\<close>

definition Clear_unsupported :: "retirement \<Rightarrow> 'w \<Rightarrow> (ct_error, unit) result \<times> 'w" where
  "Clear_unsupported r w = (Inl RequiresLinux, w)"

definition Zero_unsupported :: "retirement \<Rightarrow> 'w \<Rightarrow> (ct_error, unit) result \<times> 'w" where
  "Zero_unsupported r w = (Inl RequiresLinux, w)"

subsection \<open>The contract of a controller\<close>

locale controller =
  fixes clear zero :: "retirement \<Rightarrow> 'w \<Rightarrow> (ct_error, unit) result \<times> 'w"
    and none_left :: "retirement \<Rightarrow> 'w \<Rightarrow> bool"
  assumes clear_ok: "clear r w = (Inr u, w') \<Longrightarrow> none_left r w'"
    and zero_ok: "zero r w = (Inr u, w') \<Longrightarrow> w' = w \<and> none_left r w"
begin

lemma zero_after_clear: "clear r w = (Inr u, w') \<Longrightarrow> zero r w' = (Inr v, w'') \<Longrightarrow> w'' = w' \<and> none_left r w''"
  using zero_ok by blast

end

definition no_flows :: "'w ctlib \<Rightarrow> retirement \<Rightarrow> 'w \<Rightarrow> bool" where
  "no_flows ct r w = (flows ct r w = Inr [])"

lemma withConn_ok: "withConn ct f w = (Inr u, w') \<Longrightarrow> f w = (Inr u, w')"
  by (auto simp: withConn_def split: option.splits prod.splits if_splits)

interpretation netlink: controller "ct_Clear ct" "ct_Zero ct" "no_flows ct" for ct :: "'w ctlib"
proof
  fix r w u w'
  show "ct_Clear ct r w = (Inr u, w') \<Longrightarrow> no_flows ct r w'"
    by (auto simp: ct_Clear_def clear_flows_def no_flows_def dest!: withConn_ok split: sum.splits prod.splits if_splits)
  show "ct_Zero ct r w = (Inr u, w') \<Longrightarrow> w' = w \<and> no_flows ct r w"
    by (auto simp: ct_Zero_def zero_flows_def no_flows_def dest!: withConn_ok split: sum.splits prod.splits if_splits)
qed

interpretation unsupported: controller Clear_unsupported Zero_unsupported "\<lambda>r w. False"
  by unfold_locales (simp_all add: Clear_unsupported_def Zero_unsupported_def)

subsection \<open>What clearing does to the table\<close>

text \<open>
  The documented behaviour of the library: a dump with a mark and the full mask returns the
  flows of the table with that mark, and a successful delete removes that flow alone, while a
  failed one changes nothing.
\<close>

definition documented_conntrack :: "'w ctlib \<Rightarrow> ('w \<Rightarrow> flow list) \<Rightarrow> bool" where
  "documented_conntrack ct tab \<longleftrightarrow>
     (\<forall>m w all. ct_DumpFilter ct m (- 1) w = Inr all \<longrightarrow> set all = {f \<in> set (tab w). fl_Mark f = m})
     \<and> (\<forall>f w w'. ct_Delete ct f w = (None, w') \<longrightarrow> set (tab w') = set (tab w) - {f})
     \<and> (\<forall>f w w' e. ct_Delete ct f w = (Some e, w') \<longrightarrow> tab w' = tab w)"

lemma flows_documented:
  assumes "documented_conntrack ct tab" "flows ct r w = Inr fs"
  shows "set fs = {f \<in> set (tab w). matches f r}"
  using assms by (auto simp: documented_conntrack_def flows_def matches_def Let_def split: sum.splits)

lemma delete_flows_documented:
  assumes "documented_conntrack ct tab" "delete_flows ct fs w = (res, w')"
  shows "set (tab w) - set fs \<subseteq> set (tab w') \<and> set (tab w') \<subseteq> set (tab w)
    \<and> (res = Inr () \<longrightarrow> set (tab w') = set (tab w) - set fs)"
  using assms(2)
proof (induction fs arbitrary: w)
  case (Cons f fs)
  obtain e v where d: "ct_Delete ct f w = (e, v)" by (cases "ct_Delete ct f w")
  show ?case
  proof (cases e)
    case None
    with assms(1) d have "set (tab v) = set (tab w) - {f}" by (simp add: documented_conntrack_def)
    moreover have "delete_flows ct fs v = (res, w')" using Cons.prems d None by simp
    ultimately show ?thesis using Cons.IH by auto
  next
    case (Some x)
    with assms(1) d have "tab v = tab w" unfolding documented_conntrack_def by blast
    with Cons.prems d Some show ?thesis by auto
  qed
qed simp

text \<open>
  C35: clearing a retired mapping, on a kernel that dumps and deletes as documented, never
  touches a flow of anything else, whatever fails on the way; and when it reports success,
  no flow of the retired mapping is left.
\<close>

theorem clear_removes_only_retired:
  assumes "documented_conntrack ct tab" "ct_Clear ct r w = (res, w')"
  shows "{f \<in> set (tab w). \<not> matches f r} = {f \<in> set (tab w'). \<not> matches f r}
    \<and> (res = Inr () \<longrightarrow> {f \<in> set (tab w'). matches f r} = {})"
proof -
  have "w' = w \<or> (\<exists>found res'. flows ct r w = Inr found \<and> delete_flows ct found w = (res', w'))"
    using assms(2) by (auto simp: ct_Clear_def withConn_def clear_flows_def split: option.splits prod.splits sum.splits if_splits)
  then have "{f \<in> set (tab w). \<not> matches f r} = {f \<in> set (tab w'). \<not> matches f r}"
    using delete_flows_documented[OF assms(1)] flows_documented[OF assms(1)] by fastforce
  moreover have "{f \<in> set (tab w'). matches f r} = {}" if "res = Inr ()"
    using netlink.clear_ok[of ct r w "()" w'] assms(2) that flows_documented[OF assms(1), of r w' "[]"] by (simp add: no_flows_def)
  ultimately show ?thesis by blast
qed

text \<open>A table in memory.\<close>

definition model_ct :: "flow list ctlib" where
  "model_ct = \<lparr>ct_Dial = \<lambda>w. None, ct_DumpFilter = \<lambda>m mask w. Inr (filter (\<lambda>f. fl_Mark f = m) w),
     ct_Delete = \<lambda>f w. (None, filter (\<lambda>g. g \<noteq> f) w), ct_TimedOut = \<lambda>w w'. False\<rparr>"

lemma model_ct_documented: "documented_conntrack model_ct (\<lambda>w. w)"
  by (auto simp: documented_conntrack_def model_ct_def)

definition example_flow :: flow where
  "example_flow = \<lparr>fl_ID = 9, fl_Mark = r_FlowMark example_retirement, fl_OrigProtocol = 6,
     fl_OrigDestinationPort = r_PublicPort example_retirement, fl_ReplySourceAddress = Some (IP4 0xc0000217),
     fl_ReplySourcePort = r_TargetPort example_retirement, fl_DstNAT = True\<rparr>"

lemma clear_removes_only_retired_witness:
  "matches example_flow example_retirement
   \<and> ct_Clear model_ct example_retirement [example_flow, example_flow\<lparr>fl_Mark := 0\<rparr>] = (Inr (), [example_flow\<lparr>fl_Mark := 0\<rparr>])
   \<and> {f \<in> set [example_flow\<lparr>fl_Mark := 0\<rparr>]. matches f example_retirement} = {}"
proof -
  have a: "addr_string (IP4 0xc0000217) = r_TargetAddr example_retirement"
    using example_retirement_target by (rule parse_addr_canonical)
  then have m: "matches example_flow example_retirement" "\<not> matches (example_flow\<lparr>fl_Mark := 0\<rparr>) example_retirement" "fl_Mark example_flow \<noteq> 0"
    by (simp_all add: matches_def example_flow_def addr_text_def) (simp_all add: example_retirement_def ProtoUDP_def ProtoTCP_def)
  then have c: "ct_Clear model_ct example_retirement [example_flow, example_flow\<lparr>fl_Mark := 0\<rparr>] = (Inr (), [example_flow\<lparr>fl_Mark := 0\<rparr>])"
    by (simp add: ct_Clear_def withConn_def clear_flows_def flows_def model_ct_def example_flow_def)
  from clear_removes_only_retired[OF model_ct_documented c] m c show ?thesis by blast
qed

end
