(* ===== verification/State_File.thy ===== *)
theory State_File
  imports Ledger
begin

text \<open>
  The two state files: the paths \<open>internal/config\<close> derives for them and the atomic writes of
  \<open>internal/snapshot\<close> and \<open>internal/retirement\<close>.

  The file system is the record \<open>fsys\<close> of parameters over a world \<open>'w\<close>. Every call may fail.
  A write returns the list of worlds it went through, latest first, so that a crash between
  any two calls can be spoken about. The content of a file is a JSON body; the writes use one
  \<open>Write\<close> call each.

  \<open>path_Join\<close>, \<open>path_Dir\<close> and \<open>path_Clean\<close> are \<open>filepath.Join\<close>, \<open>filepath.Dir\<close> and
  \<open>filepath.Clean\<close> on a Unix system.
\<close>

subsection \<open>Paths\<close>

fun split_at :: "char \<Rightarrow> string \<Rightarrow> string list" where
  "split_at c [] = [[]]"
| "split_at c (x # s) = (if x = c then [] # split_at c s else (case split_at c s of [] \<Rightarrow> [[x]] | y # ys \<Rightarrow> (x # y) # ys))"

fun join_with :: "string \<Rightarrow> string list \<Rightarrow> string" where
  "join_with sep [] = []"
| "join_with sep [x] = x"
| "join_with sep (x # y # ys) = x @ sep @ join_with sep (y # ys)"

text \<open>One element of a path on the stack of the elements before it (last first).\<close>

definition clean_step :: "bool \<Rightarrow> string \<Rightarrow> string list \<Rightarrow> string list" where
  "clean_step rooted x st =
     (if x = [] \<or> x = ''.'' then st
      else if x = ''..'' then (case st of [] \<Rightarrow> if rooted then [] else [''..''] | y # ys \<Rightarrow> if y = ''..'' then x # st else ys)
      else x # st)"

definition path_Clean :: "string \<Rightarrow> string" where
  "path_Clean p =
     (let rooted = (take 1 p = ''/'');
          st = fold (clean_step rooted) (split_at CHR ''/'' p) [];
          body = join_with ''/'' (rev st)
      in if rooted then CHR ''/'' # body else if body = [] then ''.'' else body)"

definition path_Join :: "string \<Rightarrow> string \<Rightarrow> string" where
  "path_Join a b = (if a = [] \<and> b = [] then [] else if a = [] then path_Clean b else if b = [] then path_Clean a
     else path_Clean (a @ ''/'' @ b))"

definition path_Dir :: "string \<Rightarrow> string" where
  "path_Dir p = path_Clean (rev (dropWhile (\<lambda>c. c \<noteq> CHR ''/'') (rev p)))"

definition SnapshotPath :: "string \<Rightarrow> string" where
  "SnapshotPath stateDir = path_Join stateDir ''snapshot.json''"

definition RetirementLedgerPath :: "string \<Rightarrow> string" where
  "RetirementLedgerPath stateDir = path_Join stateDir ''retirement-ledger.json''"

subsection \<open>The file system\<close>

record 'w fsys =
  fs_ReadFile :: "string \<Rightarrow> 'w \<Rightarrow> (io_error, jbody) result"
  fs_Stat :: "string \<Rightarrow> 'w \<Rightarrow> io_error option"
  fs_Remove :: "string \<Rightarrow> 'w \<Rightarrow> 'w"
  fs_CreateTemp :: "string \<Rightarrow> string \<Rightarrow> 'w \<Rightarrow> (string, string) result \<times> 'w"
  fs_Chmod :: "string \<Rightarrow> 'w \<Rightarrow> string option \<times> 'w"
  fs_Write :: "string \<Rightarrow> jbody \<Rightarrow> 'w \<Rightarrow> string option \<times> 'w"
  fs_Sync :: "string \<Rightarrow> 'w \<Rightarrow> string option \<times> 'w"
  fs_Close :: "string \<Rightarrow> 'w \<Rightarrow> string option \<times> 'w"
  fs_Rename :: "string \<Rightarrow> string \<Rightarrow> 'w \<Rightarrow> string option \<times> 'w"
  fs_OpenDir :: "string \<Rightarrow> 'w \<Rightarrow> string option"
  fs_SyncDir :: "string \<Rightarrow> 'w \<Rightarrow> string option \<times> 'w"

datatype persist_error = PersistIO string | PersistInvalid ledger_error

text \<open>A call on the latest world, which records the world it leaves.\<close>

definition call :: "('w \<Rightarrow> 'a \<times> 'w) \<Rightarrow> 'w list \<Rightarrow> 'a \<times> 'w list" where
  "call f ws = (case f (hd ws) of (r, w') \<Rightarrow> (r, w' # ws))"

text \<open>Renaming over the target, then syncing the directory.\<close>

definition install :: "'w fsys \<Rightarrow> string \<Rightarrow> string \<Rightarrow> 'w list \<Rightarrow> (persist_error, unit) result \<times> 'w list" where
  "install fs tmp path ws =
     (case call (fs_Rename fs tmp path) ws of
        (Some e, ws) \<Rightarrow> (Inl (PersistIO e), ws)
      | (None, ws) \<Rightarrow>
          (case fs_OpenDir fs (path_Dir path) (hd ws) of
             Some e \<Rightarrow> (Inl (PersistIO e), ws)
           | None \<Rightarrow>
               (case call (fs_SyncDir fs (path_Dir path)) ws of
                  (Some e, ws) \<Rightarrow> (Inl (PersistIO e), ws)
                | (None, ws) \<Rightarrow> (Inr (), ws))))"

text \<open>
  The frame of both writes: a temporary file beside the target, filled, installed, and
  removed on every way out (\<open>defer os.Remove\<close>).
\<close>

definition via_temp ::
  "'w fsys \<Rightarrow> string \<Rightarrow> (string \<Rightarrow> 'w list \<Rightarrow> string option \<times> 'w list) \<Rightarrow> string \<Rightarrow> 'w list \<Rightarrow> (persist_error, unit) result \<times> 'w list" where
  "via_temp fs pat fill path ws =
     (case call (fs_CreateTemp fs (path_Dir path) pat) ws of
        (Inl e, ws) \<Rightarrow> (Inl (PersistIO e), ws)
      | (Inr tmp, ws) \<Rightarrow>
          (case (case fill tmp ws of
                   (Some e, ws) \<Rightarrow> (Inl (PersistIO e), ws)
                 | (None, ws) \<Rightarrow> install fs tmp path ws) of
             (r, ws) \<Rightarrow> (r, fs_Remove fs tmp (hd ws) # ws)))"

text \<open>Chmod, write and sync of the snapshot's temporary file; a failure closes it first.\<close>

definition fill_temp :: "'w fsys \<Rightarrow> string \<Rightarrow> jbody \<Rightarrow> 'w list \<Rightarrow> string option \<times> 'w list" where
  "fill_temp fs tmp data ws =
     (let fail = (\<lambda>e ws. (Some e, snd (call (fs_Close fs tmp) ws)))
      in case call (fs_Chmod fs tmp) ws of
           (Some e, ws) \<Rightarrow> fail e ws
         | (None, ws) \<Rightarrow>
             (case call (fs_Write fs tmp data) ws of
                (Some e, ws) \<Rightarrow> fail e ws
              | (None, ws) \<Rightarrow>
                  (case call (fs_Sync fs tmp) ws of
                     (Some e, ws) \<Rightarrow> fail e ws
                   | (None, ws) \<Rightarrow> call (fs_Close fs tmp) ws)))"

definition snapshot_Persist ::
  "'w fsys \<Rightarrow> (int \<Rightarrow> string) \<Rightarrow> int \<Rightarrow> snapshot \<Rightarrow> string \<Rightarrow> 'w list \<Rightarrow> (persist_error, unit) result \<times> 'w list" where
  "snapshot_Persist fs tt now s path ws =
     via_temp fs ''.snapshot-*'' (\<lambda>tmp. fill_temp fs tmp (persisted_body tt now s)) path ws"

text \<open>The ledger's write closes its temporary file in every case and keeps the first error.\<close>

definition fill_ledger_temp :: "'w fsys \<Rightarrow> string \<Rightarrow> jbody \<Rightarrow> 'w list \<Rightarrow> string option \<times> 'w list" where
  "fill_ledger_temp fs tmp data ws =
     (case call (fs_Chmod fs tmp) ws of (e, ws) \<Rightarrow>
      case (if e = None then call (fs_Write fs tmp data) ws else (e, ws)) of (e, ws) \<Rightarrow>
      case (if e = None then call (fs_Sync fs tmp) ws else (e, ws)) of (e, ws) \<Rightarrow>
      case call (fs_Close fs tmp) ws of (ce, ws) \<Rightarrow> (if e = None then ce else e, ws))"

definition ledger_Persist :: "'w fsys \<Rightarrow> ledger \<Rightarrow> string \<Rightarrow> 'w list \<Rightarrow> (persist_error, unit) result \<times> 'w list" where
  "ledger_Persist fs l path ws =
     (case ledger_body l of Inl e \<Rightarrow> (Inl (PersistInvalid e), ws)
      | Inr data \<Rightarrow> via_temp fs ''.retirement-ledger-*'' (\<lambda>tmp. fill_ledger_temp fs tmp data) path ws)"

subsection \<open>Documented behaviour\<close>

text \<open>
  \<open>cont\<close> is the content of a file, \<open>None\<close> when it does not exist. Calls on one file leave the
  others alone, a successful write fills the new file, renaming is all or nothing, and
  \<open>CreateTemp\<close> makes a file of its own name.
\<close>

definition documented_fs :: "'w fsys \<Rightarrow> (string \<Rightarrow> 'w \<Rightarrow> jbody option) \<Rightarrow> string set \<Rightarrow> bool" where
  "documented_fs fs cont files \<longleftrightarrow>
     (\<forall>d pat w. (\<forall>p\<in>files. cont p (snd (fs_CreateTemp fs d pat w)) = cont p w)
        \<and> (\<forall>n. fst (fs_CreateTemp fs d pat w) = Inr n \<longrightarrow> n \<notin> files))
     \<and> (\<forall>n w. n \<notin> files \<longrightarrow> (\<forall>p\<in>insert n files. cont p (snd (fs_Chmod fs n w)) = cont p w
          \<and> cont p (snd (fs_Sync fs n w)) = cont p w \<and> cont p (snd (fs_Close fs n w)) = cont p w))
     \<and> (\<forall>n data w. n \<notin> files \<longrightarrow> (\<forall>p\<in>files. cont p (snd (fs_Write fs n data w)) = cont p w)
          \<and> (fst (fs_Write fs n data w) = None \<longrightarrow> cont n (snd (fs_Write fs n data w)) = Some data))
     \<and> (\<forall>n q w. n \<notin> files \<and> q \<in> files \<longrightarrow> (\<forall>p\<in>files. cont p (snd (fs_Rename fs n q w)) =
          (if p = q \<and> fst (fs_Rename fs n q w) = None then cont n w else cont p w)))
     \<and> (\<forall>d w. \<forall>p\<in>files. cont p (snd (fs_SyncDir fs d w)) = cont p w)
     \<and> (\<forall>n w. n \<notin> files \<longrightarrow> (\<forall>p\<in>files. cont p (fs_Remove fs n w) = cont p w))"

lemma call_simps [simp]: "fst (call f ws) = fst (f (hd ws))" "snd (call f ws) = snd (f (hd ws)) # ws"
  by (simp_all add: call_def split: prod.split)

lemma call_eq: "call f ws = (r, ws') \<longleftrightarrow> fst (f (hd ws)) = r \<and> ws' = snd (f (hd ws)) # ws"
  by (auto simp: call_def split: prod.splits)

lemma documented_fsD:
  assumes "documented_fs fs cont files"
  shows "p \<in> files \<Longrightarrow> cont p (snd (fs_CreateTemp fs d pat w)) = cont p w"
    "fst (fs_CreateTemp fs d pat w) = Inr n \<Longrightarrow> n \<notin> files"
    "n \<notin> files \<Longrightarrow> p \<in> insert n files \<Longrightarrow> cont p (snd (fs_Chmod fs n w)) = cont p w"
    "n \<notin> files \<Longrightarrow> p \<in> insert n files \<Longrightarrow> cont p (snd (fs_Sync fs n w)) = cont p w"
    "n \<notin> files \<Longrightarrow> p \<in> insert n files \<Longrightarrow> cont p (snd (fs_Close fs n w)) = cont p w"
    "n \<notin> files \<Longrightarrow> p \<in> files \<Longrightarrow> cont p (snd (fs_Write fs n data w)) = cont p w"
    "n \<notin> files \<Longrightarrow> fst (fs_Write fs n data w) = None \<Longrightarrow> cont n (snd (fs_Write fs n data w)) = Some data"
    "n \<notin> files \<Longrightarrow> q \<in> files \<Longrightarrow> p \<in> files \<Longrightarrow>
       cont p (snd (fs_Rename fs n q w)) = (if p = q \<and> fst (fs_Rename fs n q w) = None then cont n w else cont p w)"
    "p \<in> files \<Longrightarrow> cont p (snd (fs_SyncDir fs d w)) = cont p w"
    "n \<notin> files \<Longrightarrow> p \<in> files \<Longrightarrow> cont p (fs_Remove fs n w) = cont p w"
  using assms unfolding documented_fs_def by (simp_all, blast+)

text \<open>The worlds between \<open>ws\<close> and \<open>ws'\<close> all satisfy \<open>P\<close>.\<close>

definition through :: "('w \<Rightarrow> bool) \<Rightarrow> 'w list \<Rightarrow> 'w list \<Rightarrow> bool" where
  "through P ws ws' = (\<exists>vs. ws' = vs @ ws \<and> list_all P vs)"

lemma through_refl [simp]: "through P ws ws"
  by (simp add: through_def)

lemma through_Cons: "P w \<Longrightarrow> through P ws ws' \<Longrightarrow> through P ws (w # ws')"
  by (force simp: through_def)

lemma through_trans: "through P ws ws' \<Longrightarrow> through P ws' ws'' \<Longrightarrow> through P ws ws''"
  by (auto simp: through_def)

lemma through_mono: "through P ws ws' \<Longrightarrow> (\<And>w. P w \<Longrightarrow> Q w) \<Longrightarrow> through Q ws ws'"
  by (auto simp: through_def list_all_iff)

lemma through_hd: "through P ws ws' \<Longrightarrow> P (hd ws) \<Longrightarrow> P (hd ws')"
  by (auto simp: through_def list_all_iff hd_append)

text \<open>Every file as in \<open>w0\<close>.\<close>

definition unchanged :: "(string \<Rightarrow> 'w \<Rightarrow> jbody option) \<Rightarrow> string set \<Rightarrow> 'w \<Rightarrow> 'w \<Rightarrow> bool" where
  "unchanged cont files w0 w = (\<forall>p\<in>files. cont p w = cont p w0)"

text \<open>What filling a temporary file promises.\<close>

definition fills :: "(string \<Rightarrow> 'w \<Rightarrow> jbody option) \<Rightarrow> string set \<Rightarrow> jbody \<Rightarrow> (string \<Rightarrow> 'w list \<Rightarrow> string option \<times> 'w list) \<Rightarrow> bool" where
  "fills cont files data fill \<longleftrightarrow>
     (\<forall>tmp ws e ws' w0. tmp \<notin> files \<and> unchanged cont files w0 (hd ws) \<and> fill tmp ws = (e, ws') \<longrightarrow>
        through (unchanged cont files w0) ws ws' \<and> (e = None \<longrightarrow> cont tmp (hd ws') = Some data))"

lemma fill_temp_fills:
  assumes "documented_fs fs cont files"
  shows "fills cont files data (\<lambda>tmp. fill_temp fs tmp data)"
  unfolding fills_def fill_temp_def Let_def
  by (auto simp: unchanged_def call_eq documented_fsD[OF assms] intro!: through_Cons split: prod.splits option.splits)

lemma fill_ledger_temp_fills:
  assumes "documented_fs fs cont files"
  shows "fills cont files data (\<lambda>tmp. fill_ledger_temp fs tmp data)"
  unfolding fills_def fill_ledger_temp_def
  by (auto simp: unchanged_def call_eq documented_fsD[OF assms] intro!: through_Cons split: prod.splits if_splits)

text \<open>The target holds its old content or all of the new, and no other file changes.\<close>

definition old_or_new :: "(string \<Rightarrow> 'w \<Rightarrow> jbody option) \<Rightarrow> string set \<Rightarrow> string \<Rightarrow> jbody \<Rightarrow> 'w \<Rightarrow> 'w \<Rightarrow> bool" where
  "old_or_new cont files path data w0 w \<longleftrightarrow>
     unchanged cont (files - {path}) w0 w \<and> (cont path w = cont path w0 \<or> cont path w = Some data)"

lemma install_old_or_new:
  assumes "documented_fs fs cont files" "path \<in> files" "tmp \<notin> files" "cont tmp (hd ws) = Some data"
    "unchanged cont files w0 (hd ws)" "install fs tmp path ws = (r, ws')"
  shows "through (old_or_new cont files path data w0) ws ws' \<and> (r = Inr () \<longrightarrow> cont path (hd ws') = Some data)"
  using assms(2-6) unfolding install_def
  by (auto simp: unchanged_def old_or_new_def call_eq documented_fsD[OF assms(1)] intro!: through_Cons split: prod.splits option.splits if_splits)

lemma via_temp_old_or_new:
  assumes "documented_fs fs cont files" "path \<in> files" "fills cont files data fill" "via_temp fs pat fill path ws = (r, ws')"
  shows "through (old_or_new cont files path data (hd ws)) ws ws' \<and> (r = Inr () \<longrightarrow> cont path (hd ws') = Some data)"
proof -
  let ?c = "fs_CreateTemp fs (path_Dir path) pat (hd ws)"
  let ?P = "old_or_new cont files path data (hd ws)"
  have weaken: "?P w" if "unchanged cont files (hd ws) w" for w using that assms(2) by (auto simp: unchanged_def old_or_new_def)
  have c: "unchanged cont files (hd ws) (snd ?c)" using documented_fsD(1)[OF assms(1)] by (simp add: unchanged_def)
  show ?thesis
  proof (cases "fst ?c")
    case (Inl e)
    with assms(4) c weaken show ?thesis by (auto simp: via_temp_def call_def intro!: through_Cons split: prod.splits)
  next
    case (Inr tmp)
    have tmp: "tmp \<notin> files" using documented_fsD(2)[OF assms(1) Inr] .
    obtain e vs where fill: "fill tmp (snd ?c # ws) = (e, vs)" by (cases "fill tmp (snd ?c # ws)")
    have f: "through (unchanged cont files (hd ws)) (snd ?c # ws) vs" "e = None \<longrightarrow> cont tmp (hd vs) = Some data"
      using assms(3) tmp fill c unfolding fills_def by (metis list.sel(1))+
    have vs: "through ?P ws vs"
      by (rule through_trans[OF _ through_mono[OF f(1)]]) (use c weaken in \<open>auto intro: through_Cons\<close>)
    obtain q us where q: "(case e of Some x \<Rightarrow> (Inl (PersistIO x), vs) | None \<Rightarrow> install fs tmp path vs) = (q, us)"
      by (cases "case e of Some x \<Rightarrow> (Inl (PersistIO x), vs) | None \<Rightarrow> install fs tmp path vs")
    have hd_vs: "unchanged cont files (hd ws) (hd vs)" using through_hd[OF f(1)] c by simp
    have us: "through ?P ws us \<and> (q = Inr () \<longrightarrow> cont path (hd us) = Some data)"
    proof (cases e)
      case None
      then have "install fs tmp path vs = (q, us)" "cont tmp (hd vs) = Some data" using q f(2) by auto
      from install_old_or_new[OF assms(1,2) tmp this(2) hd_vs this(1)] vs show ?thesis using through_trans by blast
    qed (use q vs in auto)
    have "r = q" "ws' = fs_Remove fs tmp (hd us) # us"
      using assms(4) Inr fill q by (auto simp: via_temp_def call_def split: prod.splits)
    moreover have "?P (hd us)" using us through_hd[of ?P ws us] weaken by (simp add: unchanged_def)
    then have "?P (fs_Remove fs tmp (hd us))" using documented_fsD(10)[OF assms(1) tmp] assms(2) by (simp add: old_or_new_def unchanged_def)
    ultimately show ?thesis using us documented_fsD(10)[OF assms(1) tmp assms(2)] by (auto intro: through_Cons)
  qed
qed

subsection \<open>The two paths\<close>

lemma split_at_append: "split_at c (a @ c # b) = split_at c a @ split_at c b"
proof (induction a)
  case (Cons x a)
  have "split_at c a \<noteq> []" by (cases a) (auto split: list.split)
  then show ?case using Cons by (auto split: list.split)
qed simp

lemma split_at_plain: "c \<notin> set b \<Longrightarrow> split_at c b = [b]"
  by (induction b) auto

lemma join_with_snoc: "\<exists>x. join_with sep (xs @ [y]) = x @ y"
proof (induction sep xs rule: join_with.induct)
  case (3 sep x z zs)
  then show ?case by (metis append.assoc append_Cons join_with.simps(3))
qed auto

definition plain_name :: "string \<Rightarrow> bool" where
  "plain_name f \<longleftrightarrow> f \<notin> {[], ''.'', ''..''} \<and> CHR ''/'' \<notin> set f"

lemma path_Join_name:
  assumes "plain_name f"
  shows "\<exists>x. path_Join d f = x @ f"
proof -
  have clean: "\<exists>x. path_Clean p = x @ f" if "split_at CHR ''/'' p = ps @ [f]" for p ps
  proof -
    define b st where "b = (take 1 p = ''/'')" and "st = fold (clean_step b) ps []"
    have "fold (clean_step b) (split_at CHR ''/'' p) [] = f # st"
      using that assms by (simp add: st_def clean_step_def plain_name_def)
    moreover obtain x where "join_with ''/'' (rev st @ [f]) = x @ f" using join_with_snoc by blast
    ultimately show ?thesis using assms by (auto simp: path_Clean_def b_def plain_name_def Let_def)
  qed
  have f: "split_at CHR ''/'' f = [f]" using assms by (simp add: split_at_plain plain_name_def)
  show ?thesis
  proof (cases "d = []")
    case True
    then show ?thesis using clean[of f "[]"] f assms by (simp add: path_Join_def plain_name_def)
  next
    case False
    then show ?thesis using clean[of "d @ ''/'' @ f" "split_at CHR ''/'' d"] f assms
      by (simp add: path_Join_def plain_name_def split_at_append)
  qed
qed

lemma state_paths:
  obtains x y where "SnapshotPath d = x @ ''snapshot.json''" "RetirementLedgerPath d = y @ ''retirement-ledger.json''"
  using path_Join_name[of "''snapshot.json''" d] path_Join_name[of "''retirement-ledger.json''" d]
  by (auto simp: SnapshotPath_def RetirementLedgerPath_def plain_name_def)

lemma state_paths_distinct: "SnapshotPath d \<noteq> RetirementLedgerPath d"
proof
  assume "SnapshotPath d = RetirementLedgerPath d"
  moreover obtain x y where "SnapshotPath d = x @ ''snapshot.json''" "RetirementLedgerPath d = y @ ''retirement-ledger.json''"
    by (rule state_paths)
  ultimately have "rev (x @ ''snapshot.json'') = rev (y @ ''retirement-ledger.json'')" by simp
  then show False by simp
qed

abbreviation state_files :: "string \<Rightarrow> string set" where
  "state_files d \<equiv> {SnapshotPath d, RetirementLedgerPath d}"

text \<open>
  C13: on a file system whose calls behave as documented, every world a write of either state
  file goes through, whatever fails and wherever it is cut off, holds the complete old or the
  complete new content of that file and the untouched other file; a write that reports
  success leaves the new content, and an invalid ledger is not written at all.
\<close>

theorem persist_atomic:
  assumes "documented_fs fs cont (state_files d)"
    "snapshot_Persist fs tt now s (SnapshotPath d) ws = (r, ws')" "ledger_Persist fs l (RetirementLedgerPath d) ws = (q, vs')"
  shows "through (old_or_new cont (state_files d) (SnapshotPath d) (persisted_body tt now s) (hd ws)) ws ws'
    \<and> (r = Inr () \<longrightarrow> cont (SnapshotPath d) (hd ws') = Some (persisted_body tt now s))
    \<and> through (old_or_new cont (state_files d) (RetirementLedgerPath d) (JDoc (ledger_json l) []) (hd ws)) ws vs'
    \<and> (q = Inr () \<longrightarrow> cont (RetirementLedgerPath d) (hd vs') = Some (JDoc (ledger_json l) []))
    \<and> (wf_ledger l \<or> vs' = ws)"
proof -
  have "through (old_or_new cont (state_files d) (RetirementLedgerPath d) (JDoc (ledger_json l) []) (hd ws)) ws vs'
    \<and> (q = Inr () \<longrightarrow> cont (RetirementLedgerPath d) (hd vs') = Some (JDoc (ledger_json l) [])) \<and> (wf_ledger l \<or> vs' = ws)"
  proof (cases "ledger_body l")
    case (Inl e)
    then show ?thesis using assms(3) by (auto simp: ledger_Persist_def)
  next
    case (Inr data)
    then have data: "data = JDoc (ledger_json l) []" "wf_ledger l" by (auto simp: ledger_body_def rbind_Inr_iff ledger_Validate_iff)
    have "via_temp fs ''.retirement-ledger-*'' (\<lambda>tmp. fill_ledger_temp fs tmp data) (RetirementLedgerPath d) ws = (q, vs')"
      using assms(3) Inr by (simp add: ledger_Persist_def)
    from via_temp_old_or_new[OF assms(1) _ fill_ledger_temp_fills[OF assms(1)] this] data show ?thesis by simp
  qed
  moreover have "through (old_or_new cont (state_files d) (SnapshotPath d) (persisted_body tt now s) (hd ws)) ws ws'
    \<and> (r = Inr () \<longrightarrow> cont (SnapshotPath d) (hd ws') = Some (persisted_body tt now s))"
    using via_temp_old_or_new[OF assms(1) _ fill_temp_fills[OF assms(1)], of "SnapshotPath d"] assms(2) by (simp add: snapshot_Persist_def)
  ultimately show ?thesis by blast
qed

text \<open>A file system in memory.\<close>

definition model_fs :: "(string \<Rightarrow> jbody option) fsys" where
  "model_fs = \<lparr>fs_ReadFile = \<lambda>p w. case w p of None \<Rightarrow> Inl ErrNotExist | Some b \<Rightarrow> Inr b,
     fs_Stat = \<lambda>p w. if w p = None then Some ErrNotExist else None, fs_Remove = \<lambda>p w. w(p := None),
     fs_CreateTemp = \<lambda>d pat w. (Inr ''tmp'', w(''tmp'' \<mapsto> BadJson)), fs_Chmod = \<lambda>n w. (None, w),
     fs_Write = \<lambda>n b w. (None, w(n \<mapsto> b)), fs_Sync = \<lambda>n w. (None, w), fs_Close = \<lambda>n w. (None, w),
     fs_Rename = \<lambda>n q w. (None, w(q := w n, n := None)), fs_OpenDir = \<lambda>d w. None, fs_SyncDir = \<lambda>d w. (None, w)\<rparr>"

lemma model_fs_documented: "documented_fs model_fs (\<lambda>p w. w p) (state_files d)"
proof -
  obtain x y where p: "SnapshotPath d = x @ ''snapshot.json''" "RetirementLedgerPath d = y @ ''retirement-ledger.json''"
    by (rule state_paths)
  then have "''tmp'' \<notin> state_files d" by (auto simp: append_eq_Cons_conv Cons_eq_append_conv)
  then show ?thesis by (auto simp: documented_fs_def model_fs_def)
qed

lemma persist_atomic_witness:
  "fst (snapshot_Persist model_fs format_int 1000 example_managed (SnapshotPath ''/var/lib/relay'') [Map.empty]) = Inr ()
   \<and> hd (snd (snapshot_Persist model_fs format_int 1000 example_managed (SnapshotPath ''/var/lib/relay'') [Map.empty]))
       (SnapshotPath ''/var/lib/relay'') = Some (persisted_body format_int 1000 example_managed)"
proof -
  let ?r = "snapshot_Persist model_fs format_int 1000 example_managed (SnapshotPath ''/var/lib/relay'') [Map.empty]"
  have "fst ?r = Inr ()"
    by (simp add: snapshot_Persist_def via_temp_def fill_temp_def install_def call_def model_fs_def)
  with persist_atomic[OF model_fs_documented[of "''/var/lib/relay''"] prod.collapse[symmetric] prod.collapse[symmetric],
      of format_int 1000 example_managed "[Map.empty]" example_ledger] show ?thesis by simp
qed

end
