(* ===== verification/Config.thy ===== *)
theory Config
  imports Nft_Control Sync_Source State_File
begin

text \<open>
  \<open>internal/config\<close>: reading and checking the configuration from the environment.

  The environment is a function from variable names to values, an unset variable being the
  empty string (\<open>os.Getenv\<close>). \<open>up\<close> gives the scheme and host of \<open>url.Parse\<close>, \<open>None\<close> for an
  error. Durations are in nanoseconds.

  Shown: what every accepted configuration satisfies, that each required variable is
  required, and that no snapshot accepted under a loaded configuration can take a service
  port of the relay or a target outside the configured network.
\<close>

record config =
  c_Limits :: limits
  c_PublicIface :: string
  c_StateDir :: string
  c_SnapshotMaxAge :: int
  c_PollInterval :: int
  c_SourceFile :: string
  c_SyncURL :: string
  c_SyncToken :: string
  c_Guards :: guards

datatype config_error =
    Required string
  | BadCIDR
  | NotIPv4Prefix
  | BadBand
  | ReservedPort u16
  | BadHours
  | BadInteger string
  | PollOutOfRange int
  | BadURL
  | TokenControl
  | TokenWithoutURL
  | MutuallyExclusive

definition reservedRelayPorts :: "u16 list" where
  "reservedRelayPorts = [2222, 51820]"

definition envTargetCIDR :: string where "envTargetCIDR = ''PICKLE_RELAY_TARGET_CIDR''"
definition envBand :: string where "envBand = ''PICKLE_RELAY_PUBLIC_BAND''"
definition envPublicIface :: string where "envPublicIface = ''PICKLE_RELAY_PUBLIC_IFACE''"
definition envMaxAgeH :: string where "envMaxAgeH = ''PICKLE_RELAY_SNAPSHOT_MAX_AGE_HOURS''"
definition envPollSec :: string where "envPollSec = ''PICKLE_RELAY_POLL_SECONDS''"
definition envSourceFile :: string where "envSourceFile = ''PICKLE_RELAY_SOURCE_FILE''"
definition envSyncURL :: string where "envSyncURL = ''PICKLE_RELAY_SYNC_URL''"
definition envSyncToken :: string where "envSyncToken = ''PICKLE_RELAY_SYNC_TOKEN''"
definition envStateDir :: string where "envStateDir = ''STATE_DIRECTORY''"
definition envCtMax :: string where "envCtMax = ''PICKLE_RELAY_CT_MAX_PER_MAPPING''"
definition envNewConnRate :: string where "envNewConnRate = ''PICKLE_RELAY_NEW_CONN_RATE''"
definition envNewConnBurst :: string where "envNewConnBurst = ''PICKLE_RELAY_NEW_CONN_BURST''"
definition envPerSourceRate :: string where "envPerSourceRate = ''PICKLE_RELAY_PER_SOURCE_RATE''"
definition envPerSourceBurst :: string where "envPerSourceBurst = ''PICKLE_RELAY_PER_SOURCE_BURST''"

definition seconds :: "int \<Rightarrow> int" where "seconds n = n * 1000000000"

definition uint32Env :: "(string \<Rightarrow> string) \<Rightarrow> string \<Rightarrow> u32 \<Rightarrow> (config_error, u32) result" where
  "uint32Env getenv key dflt =
     (let v = getenv key
      in if v = [] then Inr dflt
         else case parse_uint 32 v of None \<Rightarrow> Inl (BadInteger key) | Some n \<Rightarrow> Inr (of_nat n))"

definition requiredHoursEnv :: "(string \<Rightarrow> string) \<Rightarrow> string \<Rightarrow> (config_error, int) result" where
  "requiredHoursEnv getenv key =
     (let v = getenv key
      in if v = [] then Inl (Required key)
         else case parse_int v of None \<Rightarrow> Inl BadHours
              | Some n \<Rightarrow> if n < 1 \<or> n > 24 * 30 then Inl BadHours else Inr (seconds (n * 3600)))"

definition intEnv :: "(string \<Rightarrow> string) \<Rightarrow> string \<Rightarrow> int \<Rightarrow> (config_error, int) result" where
  "intEnv getenv key dflt =
     (let v = getenv key
      in if v = [] then Inr dflt else case parse_int v of None \<Rightarrow> Inl (BadInteger key) | Some n \<Rightarrow> Inr n)"

definition load_cidr :: "(string \<Rightarrow> string) \<Rightarrow> (config_error, prefix) result" where
  "load_cidr getenv =
     (let cidr = getenv envTargetCIDR
      in if cidr = [] then Inl (Required envTargetCIDR)
         else case ParsePrefix cidr of None \<Rightarrow> Inl BadCIDR
              | Some pfx \<Rightarrow> if \<not> is4 (pfx_addr pfx) then Inl NotIPv4Prefix else Inr pfx)"

definition load_band :: "(string \<Rightarrow> string) \<Rightarrow> (config_error, u16 \<times> u16) result" where
  "load_band getenv =
     (let band = getenv envBand
      in case cut CHR ''-'' band of
           None \<Rightarrow> Inl (Required envBand)
         | Some (lo, hi) \<Rightarrow>
             (case (parse_uint 16 (trim_space lo), parse_uint 16 (trim_space hi)) of
                (Some mn, Some mx) \<Rightarrow>
                  if mn < 1024 \<or> mn > mx then Inl BadBand
                  else (case find (\<lambda>p. of_nat mn \<le> p \<and> p \<le> of_nat mx) reservedRelayPorts of
                          Some p \<Rightarrow> Inl (ReservedPort p)
                        | None \<Rightarrow> Inr (of_nat mn, of_nat mx))
              | _ \<Rightarrow> Inl BadBand))"

text \<open>The sync endpoint and its token; the value is what \<open>SyncToken\<close> is set to.\<close>

definition load_token :: "(string \<Rightarrow> (string \<times> string) option) \<Rightarrow> string \<Rightarrow> string \<Rightarrow> (config_error, string) result" where
  "load_token up syncURL token =
     (if syncURL \<noteq> [] then
        (case up syncURL of None \<Rightarrow> Inl BadURL
         | Some (scheme, host) \<Rightarrow>
             if scheme \<noteq> ''http'' \<and> scheme \<noteq> ''https'' \<or> host = [] then Inl BadURL
             else if token = [] then Inl (Required envSyncToken)
             else if list_ex control_rune (runes token) then Inl TokenControl
             else Inr token)
      else if token \<noteq> [] then Inl TokenWithoutURL else Inr [])"

definition load_guards :: "(string \<Rightarrow> string) \<Rightarrow> (config_error, guards) result" where
  "load_guards getenv =
     rbind (uint32Env getenv envCtMax 512) (\<lambda>maxConn.
     rbind (uint32Env getenv envNewConnRate 200) (\<lambda>rate.
     rbind (uint32Env getenv envNewConnBurst 400) (\<lambda>burst.
     rbind (uint32Env getenv envPerSourceRate 50) (\<lambda>psRate.
     rbind (uint32Env getenv envPerSourceBurst 100) (\<lambda>psBurst.
       Inr \<lparr>g_MaxConn = maxConn, g_NewConnRate = ucast rate, g_NewConnBurst = burst, g_PerSourceRate = ucast psRate,
            g_PerSourceBurst = psBurst\<rparr>)))))"

definition config_Load :: "(string \<Rightarrow> (string \<times> string) option) \<Rightarrow> (string \<Rightarrow> string) \<Rightarrow> (config_error, config) result" where
  "config_Load up getenv =
     rbind (load_cidr getenv) (\<lambda>pfx.
     rbind (load_band getenv) (\<lambda>(mn, mx).
     let iface = getenv envPublicIface; stateDir = getenv envStateDir
     in if iface = [] \<or> length iface > 15 then Inl (Required envPublicIface)
        else if stateDir = [] then Inl (Required envStateDir)
        else
          rbind (requiredHoursEnv getenv envMaxAgeH) (\<lambda>maxAge.
          rbind (intEnv getenv envPollSec 15) (\<lambda>pollS.
            if pollS < 5 \<or> pollS > 300 then Inl (PollOutOfRange pollS)
            else
              let sourceFile = getenv envSourceFile; syncURL = getenv envSyncURL; token = getenv envSyncToken
              in rbind (load_token up syncURL token) (\<lambda>syncToken.
                 if syncURL \<noteq> [] \<and> sourceFile \<noteq> [] then Inl MutuallyExclusive
                 else rbind (load_guards getenv) (\<lambda>g.
                   Inr \<lparr>c_Limits = \<lparr>lim_TargetCIDR = pfx, lim_BandMin = mn, lim_BandMax = mx\<rparr>, c_PublicIface = iface,
                        c_StateDir = stateDir, c_SnapshotMaxAge = maxAge, c_PollInterval = seconds pollS,
                        c_SourceFile = sourceFile, c_SyncURL = syncURL, c_SyncToken = syncToken, c_Guards = g\<rparr>))))))"

subsection \<open>What a loaded configuration satisfies\<close>

lemma of_nat_u16_le: "m < 2 ^ 16 \<Longrightarrow> n < 2 ^ 16 \<Longrightarrow> (of_nat m :: u16) \<le> of_nat n \<longleftrightarrow> m \<le> n"
  by (simp add: word_le_nat_alt unat_of_nat take_bit_nat_eq_self)

lemma load_band_ok:
  assumes "load_band getenv = Inr (mn, mx)"
  shows "1024 \<le> mn \<and> mn \<le> mx \<and> (\<forall>p\<in>set reservedRelayPorts. p < mn \<or> mx < p)"
proof -
  from assms obtain lo hi m n where m: "parse_uint 16 lo = Some m" "parse_uint 16 hi = Some n" "1024 \<le> m" "m \<le> n"
    and f: "find (\<lambda>p. of_nat m \<le> p \<and> p \<le> (of_nat n :: u16)) reservedRelayPorts = None" and mn: "mn = of_nat m" "mx = of_nat n"
    by (auto simp: load_band_def Let_def split: option.splits prod.splits if_splits)
  have lt: "m < 2 ^ 16" "n < 2 ^ 16" using parse_uint_bound[OF m(1)] parse_uint_bound[OF m(2)] by auto
  have "1024 \<le> mn" using m(3) of_nat_u16_le[of 1024 m] lt by (simp add: mn)
  moreover have "mn \<le> mx" using m(4) of_nat_u16_le lt by (simp add: mn)
  ultimately show ?thesis using f by (auto simp: mn find_None_iff not_le)
qed

text \<open>The rules of the configuration.\<close>

definition sound_config :: "config \<Rightarrow> bool" where
  "sound_config c \<longleftrightarrow>
     is4 (pfx_addr (lim_TargetCIDR (c_Limits c)))
     \<and> 1024 \<le> lim_BandMin (c_Limits c) \<and> lim_BandMin (c_Limits c) \<le> lim_BandMax (c_Limits c)
     \<and> (\<forall>p\<in>{2222, 51820}. p < lim_BandMin (c_Limits c) \<or> lim_BandMax (c_Limits c) < p)
     \<and> c_PublicIface c \<noteq> [] \<and> length (c_PublicIface c) \<le> 15 \<and> c_StateDir c \<noteq> []
     \<and> seconds 3600 \<le> c_SnapshotMaxAge c \<and> c_SnapshotMaxAge c \<le> seconds (720 * 3600)
     \<and> seconds 5 \<le> c_PollInterval c \<and> c_PollInterval c \<le> seconds 300 \<and> requestTimeout < c_PollInterval c
     \<and> (c_SyncURL c = [] \<or> c_SourceFile c = [])
     \<and> (c_SyncToken c = [] \<longleftrightarrow> c_SyncURL c = []) \<and> \<not> list_ex control_rune (runes (c_SyncToken c))"

lemma Load_sound:
  assumes "config_Load up getenv = Inr c"
  shows "sound_config c"
proof -
  from assms obtain pfx mn mx maxAge pollS syncToken g where
    parts: "load_cidr getenv = Inr pfx" "load_band getenv = Inr (mn, mx)" "requiredHoursEnv getenv envMaxAgeH = Inr maxAge"
      "load_token up (getenv envSyncURL) (getenv envSyncToken) = Inr syncToken"
    and ok: "getenv envPublicIface \<noteq> []" "length (getenv envPublicIface) \<le> 15" "getenv envStateDir \<noteq> []"
      "5 \<le> pollS" "pollS \<le> 300" "getenv envSyncURL = [] \<or> getenv envSourceFile = []"
    and c: "c = \<lparr>c_Limits = \<lparr>lim_TargetCIDR = pfx, lim_BandMin = mn, lim_BandMax = mx\<rparr>, c_PublicIface = getenv envPublicIface,
       c_StateDir = getenv envStateDir, c_SnapshotMaxAge = maxAge, c_PollInterval = seconds pollS,
       c_SourceFile = getenv envSourceFile, c_SyncURL = getenv envSyncURL, c_SyncToken = syncToken, c_Guards = g\<rparr>"
    by (auto simp: config_Load_def rbind_Inr_iff Let_def not_less split: prod.splits if_splits; blast)
  have "is4 (pfx_addr pfx)" using parts(1) by (auto simp: load_cidr_def Let_def split: if_splits option.splits)
  moreover have "seconds 3600 \<le> maxAge \<and> maxAge \<le> seconds (720 * 3600)"
    using parts(3) by (auto simp: requiredHoursEnv_def Let_def seconds_def split: if_splits option.splits)
  moreover have "(syncToken = [] \<longleftrightarrow> getenv envSyncURL = []) \<and> \<not> list_ex control_rune (runes syncToken)"
    using parts(4) by (auto simp: load_token_def split: if_splits option.splits)
  ultimately show ?thesis
    using load_band_ok[OF parts(2)] ok by (simp add: c sound_config_def reservedRelayPorts_def requestTimeout_def seconds_def)
qed

text \<open>
  C36: every configuration that loads has an IPv4 target network, a port band that starts at
  1024 or above and holds neither relay service port, an interface name that fits the
  kernel's sixteen bytes with its terminator, a state directory, an age window of one hour to
  thirty days, a poll interval of five seconds to five minutes that a request cannot outlast,
  one desired-state authority at most, and a token exactly when there is a sync URL, without
  control characters.
\<close>

theorem config_load_sound:
  assumes "config_Load up getenv = Inr c"
  shows "sound_config c \<and> last (ifname (c_PublicIface c)) = 0"
proof -
  have s: "sound_config c" using assms by (rule Load_sound)
  then have "length (string_bytes (c_PublicIface c)) \<le> 15" by (simp add: sound_config_def string_bytes_def)
  then have "last (ifname (c_PublicIface c)) = 0"
    by (simp add: ifname_def take_append last_append)
  with s show ?thesis by blast
qed

text \<open>An environment, for witnesses.\<close>

definition example_env :: "string \<Rightarrow> string" where
  "example_env k = (case map_of [(''PICKLE_RELAY_TARGET_CIDR'', ''192.0.2.0/24''), (''PICKLE_RELAY_PUBLIC_BAND'', ''10000-19999''),
     (''PICKLE_RELAY_PUBLIC_IFACE'', ''eth0''), (''STATE_DIRECTORY'', ''/var/lib/relay''),
     (''PICKLE_RELAY_SNAPSHOT_MAX_AGE_HOURS'', ''48''), (''PICKLE_RELAY_SOURCE_FILE'', ''/etc/relay.json'')] k of
     None \<Rightarrow> [] | Some v \<Rightarrow> v)"

lemmas env_names = envTargetCIDR_def envBand_def envPublicIface_def envMaxAgeH_def envPollSec_def envSourceFile_def
  envSyncURL_def envSyncToken_def envStateDir_def envCtMax_def envNewConnRate_def envNewConnBurst_def
  envPerSourceRate_def envPerSourceBurst_def

lemma trim_left_digit:
  assumes "s \<noteq> []" "is_digit (hd s)" "\<forall>r\<in>set rs. r \<noteq> [] \<and> \<not> is_digit (hd r)"
  shows "trim_left n rs s = s"
proof -
  have "\<not> has_prefix r s" if "r \<in> set rs" for r
  proof
    assume "has_prefix r s"
    moreover have "r \<noteq> []" using assms(3) that by blast
    ultimately have "hd r = hd s" by (cases r; cases s) (auto simp: has_prefix_def)
    with assms(2,3) that show False by auto
  qed
  then have "find (\<lambda>r. has_prefix r s) rs = None" by (simp add: find_None_iff)
  then show ?thesis by (cases n) simp_all
qed

lemma space_runes_no_digit: "\<forall>r\<in>set space_runes. r \<noteq> [] \<and> \<not> is_digit (hd r) \<and> \<not> is_digit (last r)"
  by (auto simp: space_runes_def bytes_def is_digit_def byte_of_def of_char_of)

lemma trim_space_digits:
  assumes "s \<noteq> []" "is_digit (hd s)" "is_digit (last s)"
  shows "trim_space s = s"
proof -
  have "trim_left n space_runes s = s" for n
    using assms space_runes_no_digit by (intro trim_left_digit) auto
  moreover have "trim_left n (map rev space_runes) (rev s) = rev s" for n
    using assms space_runes_no_digit by (intro trim_left_digit) (auto simp: hd_rev)
  ultimately show ?thesis by (simp add: trim_space_def)
qed

lemma example_trim: "trim_space ''10000'' = ''10000''" "trim_space ''19999'' = ''19999''"
  by (rule trim_space_digits; simp add: is_digit_def byte_of_def)+

lemma example_numbers: "parse_uint 16 ''10000'' = Some 10000" "parse_uint 16 ''19999'' = Some 19999" "parse_int ''48'' = Some 48"
  by (simp_all add: parse_int_def parse_uint_def digits_value_def is_digit_def digit_val_def byte_of_def)

lemma example_load:
  "\<exists>c. config_Load (\<lambda>_. None) example_env = Inr c \<and> c_Limits c = example_limits \<and> c_SourceFile c = ''/etc/relay.json''
     \<and> c_PublicIface c = ''eth0'' \<and> c_SyncURL c = [] \<and> c_StateDir c = ''/var/lib/relay''"
proof -
  have "load_cidr example_env = Inr (Prefix (IP4 0xc0000200) 24)"
    by (simp add: load_cidr_def example_env_def env_names netip_eval)
  moreover have "load_band example_env = Inr (10000, 19999)"
    by (simp add: load_band_def example_env_def env_names example_trim example_numbers reservedRelayPorts_def)
  moreover have "requiredHoursEnv example_env envMaxAgeH = Inr (seconds (48 * 3600))"
    by (simp add: requiredHoursEnv_def example_env_def env_names example_numbers)
  moreover have "intEnv example_env envPollSec 15 = Inr 15" by (simp add: intEnv_def example_env_def env_names)
  moreover have "load_token (\<lambda>_. None) [] [] = Inr []" by (simp add: load_token_def)
  moreover have "is_ok (load_guards example_env)" by (simp add: load_guards_def uint32Env_def example_env_def env_names)
  moreover have "example_env envPublicIface = ''eth0''" "example_env envStateDir = ''/var/lib/relay''"
    "example_env envSyncURL = []" "example_env envSyncToken = []" "example_env envSourceFile = ''/etc/relay.json''"
    by (simp_all add: example_env_def env_names)
  ultimately show ?thesis by (auto simp: config_Load_def is_ok_iff example_limits_def)
qed

lemma config_load_sound_witness: "\<exists>c. config_Load (\<lambda>_. None) example_env = Inr c \<and> sound_config c"
  using example_load config_load_sound by blast

text \<open>
  The agent fails closed. Without a target network, a port band, a public interface, a
  state directory or an age window nothing loads, and neither does a token without a URL or
  two desired-state authorities.
\<close>

theorem config_fails_closed:
  assumes "getenv envTargetCIDR = [] \<or> getenv envBand = [] \<or> getenv envPublicIface = [] \<or> getenv envStateDir = []
    \<or> getenv envMaxAgeH = [] \<or> (getenv envSyncURL = []) \<noteq> (getenv envSyncToken = [])
    \<or> getenv envSyncURL \<noteq> [] \<and> getenv envSourceFile \<noteq> []"
  shows "\<exists>e. config_Load up getenv = Inl e"
proof (cases "config_Load up getenv")
  case (Inr c)
  then have "load_token up (getenv envSyncURL) (getenv envSyncToken) = Inr (c_SyncToken c)"
    "is_ok (load_cidr getenv)" "is_ok (load_band getenv)" "is_ok (requiredHoursEnv getenv envMaxAgeH)"
    "getenv envPublicIface \<noteq> []" "getenv envStateDir \<noteq> []" "\<not> (getenv envSyncURL \<noteq> [] \<and> getenv envSourceFile \<noteq> [])"
    by (auto simp: config_Load_def rbind_Inr_iff is_ok_iff Let_def split: prod.splits if_splits)
  then show ?thesis using assms
    by (auto simp: load_token_def load_cidr_def load_band_def requiredHoursEnv_def Let_def split: if_splits option.splits)
qed simp

lemma config_fails_closed_witness:
  "\<exists>e. config_Load (\<lambda>_. None) (example_env(envStateDir := [])) = Inl e"
  by (rule config_fails_closed) simp

text \<open>
  C37: no snapshot accepted under a loaded configuration can take a relay's service port or a
  port below 1024, or translate to an address outside the configured network.
\<close>

theorem relay_ports_protected:
  assumes "config_Load up getenv = Inr c" "Parse pt body (c_Limits c) = Inr s" "m \<in> set (slice_of (s_Mappings s))"
  shows "1024 \<le> m_PublicPort m \<and> m_PublicPort m \<notin> {2222, 51820}
    \<and> (\<exists>a. Target m = Some (IP4 a) \<and> prefix_contains (lim_TargetCIDR (c_Limits c)) (IP4 a))"
proof -
  have wf: "wf_snapshot (c_Limits c) s" "map_option with_targets (s_Mappings s) = s_Mappings s" using Parse_wf[OF assms(2)] by auto
  then obtain ms where ms: "s_Mappings s = Some ms" "with_targets ms = ms" by (auto simp: wf_snapshot_def)
  with wf(1) assms(3) have m: "wf_mapping (c_Limits c) (s_Retirements s \<noteq> None) m" by (auto simp: wf_snapshot_def)
  have "m_target m = target_addr m"
  proof -
    have "map m_target (with_targets ms) = map target_addr ms" by (simp add: with_targets_def)
    then show ?thesis using ms assms(3) by simp
  qed
  moreover have "sound_config c" using assms(1) by (rule Load_sound)
  ultimately show ?thesis using m by (auto simp: wf_mapping_def sound_config_def Target_def)
qed

lemma relay_ports_protected_witness:
  "\<exists>c body s m. config_Load (\<lambda>_. None) example_env = Inr c \<and> Parse parse_int body (c_Limits c) = Inr s
     \<and> m \<in> set (slice_of (s_Mappings s)) \<and> m_PublicPort m \<notin> {2222, 51820}"
proof -
  obtain c where c: "config_Load (\<lambda>_. None) example_env = Inr c" "c_Limits c = example_limits" using example_load by blast
  obtain body s m where p: "Parse parse_int body (c_Limits c) = Inr s" "m \<in> set (slice_of (s_Mappings s))"
    using example_parse_managed c(2) by fastforce
  from relay_ports_protected[OF c(1) p] c(1) p show ?thesis by blast
qed

end
