(* ===== verification/Agent.thy ===== *)
theory Agent
  imports Counters Conntrack State_File Config "HOL-Library.Monad_Syntax"
begin

text \<open>
  \<open>internal/agent/agent.go\<close>: the convergence loop.

  The agent's collaborators are the record \<open>env\<close> over a world \<open>'w\<close> that holds the kernel,
  the connection-tracking table, the files and the network: the kernel interface (production:
  \<open>NFTKernel\<close>, from \<open>Nft_Control\<close>), the conntrack controller, the sync source, the file
  system, the clock, the random source, the text of times and the text of errors. Every
  method takes the agent's state and the world and returns both; \<open>None\<close> is a run-time panic
  (a nil ledger or acknowledgement dereferenced, or \<open>As4\<close> in the plan). Logging is left out.
\<close>

subsection \<open>Collaborators\<close>

record 'w managed_kernel =
  mk_ApplyManaged :: "string \<Rightarrow> rule list \<Rightarrow> retirement list \<Rightarrow> guards \<Rightarrow> 'w \<Rightarrow> (nft_error, unit) result \<times> 'w"
  mk_VerifyManaged :: "string \<Rightarrow> rule list \<Rightarrow> retirement list \<Rightarrow> guards \<Rightarrow> 'w \<Rightarrow> (nft_error, unit) result"
  mk_Quarantine :: "string \<Rightarrow> 'w \<Rightarrow> (nft_error, unit) result \<times> 'w"
  mk_HasManagedState :: "'w \<Rightarrow> (nft_error, bool) result"

text \<open>\<open>kn_managed\<close> is the type assertion to \<open>managedKernel\<close>.\<close>

record 'w kernel =
  kn_Apply :: "string \<Rightarrow> rule list \<Rightarrow> guards \<Rightarrow> 'w \<Rightarrow> (nft_error, unit) result \<times> 'w"
  kn_Present :: "'w \<Rightarrow> (nft_error, bool) result"
  kn_ReadCounters :: "'w \<Rightarrow> (nft_error, (int \<times> kcounters) list) result"
  kn_managed :: "'w managed_kernel option"

definition NFTKernel :: "'w nft \<Rightarrow> 'w kernel" where
  "NFTKernel nf = \<lparr>kn_Apply = nft_Apply nf, kn_Present = Present nf, kn_ReadCounters = ReadCounters nf,
     kn_managed = Some \<lparr>mk_ApplyManaged = ApplyManaged nf, mk_VerifyManaged = VerifyManaged nf,
       mk_Quarantine = ApplyQuarantine nf, mk_HasManagedState = HasManagedState nf\<rparr>\<rparr>"

datatype agent_error =
    ErrParse snap_error
  | ErrLedger ledger_error
  | ErrPersist persist_error
  | ErrApply nft_error
  | ErrReadback nft_error
  | ErrClear ct_error
  | ErrZero ct_error
  | ErrKernelLacksRetirement
  | ErrManagedWithoutLedger
  | ErrCannotProveLegacy
  | ErrCannotProveLegacyNoLedger
  | ErrSnapshotUninspectable
  | ErrKernelUninspectable
  | ErrKernelManaged
  | ErrRandom
  | ErrLoad ledger_load_error
  | ErrLoadLedger agent_error
  | ErrWouldCompact
  | ErrFailClosedApply agent_error agent_error
  | ErrBootReapply agent_error
  | ErrBootEmpty agent_error

record 'w env =
  en_cfg :: config
  en_kernel :: "'w kernel"
  en_Clear :: "retirement \<Rightarrow> 'w \<Rightarrow> (ct_error, unit) result \<times> 'w"
  en_Zero :: "retirement \<Rightarrow> 'w \<Rightarrow> (ct_error, unit) result \<times> 'w"
  en_Sync :: "report \<Rightarrow> 'w \<Rightarrow> (sync_error, jbody option) result \<times> 'w"
  en_fs :: "'w fsys"
  en_now :: "'w \<Rightarrow> int"
  en_rand :: "'w \<Rightarrow> u8 list option \<times> 'w"
  en_tt :: "int \<Rightarrow> string"
  en_pt :: "string \<Rightarrow> int option"
  en_text :: "agent_error \<Rightarrow> string"
  en_version :: string

record agent =
  ag_appliedGeneration :: int
  ag_applied :: bool
  ag_lastErr :: "err_item list option"
  ag_counters :: counter_state
  ag_lastApplied :: "snapshot option"
  ag_bootFailed :: bool
  ag_ledger :: "ledger option"
  ag_ledgerLost :: bool

definition agent_New :: "u8 list option \<Rightarrow> agent" where
  "agent_New rnd = \<lparr>ag_appliedGeneration = 0, ag_applied = False, ag_lastErr = None, ag_counters = newCounterState,
     ag_lastApplied = None, ag_bootFailed = False, ag_ledger = New rnd, ag_ledgerLost = False\<rparr>"

abbreviation iface_of :: "'w env \<Rightarrow> string" where "iface_of en \<equiv> c_PublicIface (en_cfg en)"
abbreviation guards_of :: "'w env \<Rightarrow> guards" where "guards_of en \<equiv> c_Guards (en_cfg en)"
abbreviation limits_of :: "'w env \<Rightarrow> limits" where "limits_of en \<equiv> c_Limits (en_cfg en)"
abbreviation snapshot_path :: "'w env \<Rightarrow> string" where "snapshot_path en \<equiv> SnapshotPath (c_StateDir (en_cfg en))"
abbreviation ledger_path :: "'w env \<Rightarrow> string" where "ledger_path en \<equiv> RetirementLedgerPath (c_StateDir (en_cfg en))"

definition map_error :: "('e \<Rightarrow> 'f) \<Rightarrow> ('e, 'a) result \<Rightarrow> ('f, 'a) result" where
  "map_error f r = (case r of Inl e \<Rightarrow> Inl (f e) | Inr x \<Rightarrow> Inr x)"

definition save_ledger :: "'w env \<Rightarrow> ledger \<Rightarrow> 'w \<Rightarrow> (agent_error, unit) result \<times> 'w" where
  "save_ledger en l w = (case ledger_Persist (en_fs en) l (ledger_path en) [w] of (r, ws) \<Rightarrow> (map_error ErrPersist r, hd ws))"

definition save_snapshot :: "'w env \<Rightarrow> snapshot \<Rightarrow> 'w \<Rightarrow> (agent_error, unit) result \<times> 'w" where
  "save_snapshot en s w =
     (case snapshot_Persist (en_fs en) (en_tt en) (en_now en w) s (snapshot_path en) [w] of (r, ws) \<Rightarrow> (map_error ErrPersist r, hd ws))"

subsection \<open>Errors and counters\<close>

text \<open>\<open>errors.As\<close> with \<open>*snapshot.ValidationError\<close>, through the errors wrapped with \<open>%w\<close>.\<close>

fun error_mapping :: "agent_error \<Rightarrow> int option" where
  "error_mapping (ErrParse (ValidationError i e)) = Some i"
| "error_mapping (ErrLoadLedger e) = error_mapping e"
| "error_mapping (ErrFailClosedApply e1 e2) = error_mapping e2"
| "error_mapping (ErrBootReapply e) = error_mapping e"
| "error_mapping (ErrBootEmpty e) = error_mapping e"
| "error_mapping _ = None"

definition setLastErr :: "'w env \<Rightarrow> agent_error \<Rightarrow> agent \<Rightarrow> agent" where
  "setLastErr en e a = a\<lparr>ag_lastErr := Some [\<lparr>ei_MappingID = error_mapping e, ei_Message = en_text en e\<rparr>]\<rparr>"

definition noteBootFailure :: "'w env \<Rightarrow> agent_error \<Rightarrow> agent \<Rightarrow> agent" where
  "noteBootFailure en e a = setLastErr en e (a\<lparr>ag_bootFailed := True\<rparr>)"

definition foldCounters :: "'w env \<Rightarrow> 'w \<Rightarrow> agent \<Rightarrow> agent" where
  "foldCounters en w a =
     (case kn_ReadCounters (en_kernel en) w of Inl e \<Rightarrow> a | Inr rd \<Rightarrow> a\<lparr>ag_counters := Fold rd (ag_counters a)\<rparr>)"

definition mark_reset :: "agent \<Rightarrow> agent" where
  "mark_reset a = a\<lparr>ag_counters := MarkReset (ag_counters a)\<rparr>"

subsection \<open>Applying\<close>

definition ensureQuarantine :: "'w env \<Rightarrow> 'w \<Rightarrow> 'w" where
  "ensureQuarantine en w =
     (case kn_managed (en_kernel en) of None \<Rightarrow> w | Some k \<Rightarrow> snd (mk_Quarantine k (iface_of en) w))"

text \<open>The loop over the outstanding entries: the ids of those cleared now.\<close>

fun clear_entries :: "'w env \<Rightarrow> entry list \<Rightarrow> string set \<Rightarrow> 'w \<Rightarrow> (agent_error, string set) result \<times> 'w" where
  "clear_entries en [] cleared w = (Inr cleared, w)"
| "clear_entries en (e # es) cleared w =
     (if e_Cleared e then clear_entries en es cleared w
      else case en_Clear en (e_Retirement e) w of
             (Inl x, w) \<Rightarrow> (Inl (ErrClear x), w)
           | (Inr _, w) \<Rightarrow> clear_entries en es (insert (r_RetirementID (e_Retirement e)) cleared) w)"

definition Unclear :: "ledger \<Rightarrow> string set \<Rightarrow> ledger" where
  "Unclear l ids = l\<lparr>l_Entries := map_option
     (map (\<lambda>e. if r_RetirementID (e_Retirement e) \<in> ids then e\<lparr>e_Cleared := False\<rparr> else e)) (l_Entries l)\<rparr>"

definition planned :: "snapshot option \<Rightarrow> rule list option" where
  "planned s = (case s of None \<Rightarrow> Some [] | Some x \<Rightarrow> Plan x)"

text \<open>The managed half: replace, read back, clear connection tracking, record that in the ledger file.\<close>

definition apply_managed ::
  "'w env \<Rightarrow> 'w managed_kernel \<Rightarrow> rule list \<Rightarrow> ledger \<Rightarrow> agent \<Rightarrow> 'w \<Rightarrow> (agent_error, unit) result \<times> agent \<times> 'w" where
  "apply_managed en k rules l a w =
     (case mk_ApplyManaged k (iface_of en) rules (Retirements l) (guards_of en) w of
        (Inl e, w) \<Rightarrow> (Inl (ErrApply e), a, w)
      | (Inr _, w) \<Rightarrow>
          (case mk_VerifyManaged k (iface_of en) rules (Retirements l) (guards_of en) w of
             Inl e \<Rightarrow> (Inl (ErrReadback e), a, w)
           | Inr _ \<Rightarrow>
               (case clear_entries en (slice_of (l_Entries l)) {} w of
                  (Inl e, w) \<Rightarrow> (Inl e, a, w)
                | (Inr cleared, w) \<Rightarrow>
                    (case save_ledger en (Clear l cleared) w of
                       (Inl e, w) \<Rightarrow> (Inl e, a\<lparr>ag_ledger := Some (Unclear (Clear l cleared) cleared)\<rparr>, w)
                     | (Inr _, w) \<Rightarrow> (Inr (), a\<lparr>ag_ledger := Some (Clear l cleared)\<rparr>, w)))))"

definition agent_apply :: "'w env \<Rightarrow> snapshot option \<Rightarrow> agent \<Rightarrow> 'w \<Rightarrow> ((agent_error, unit) result \<times> agent \<times> 'w) option" where
  "agent_apply en s a w =
     do {
       rules \<leftarrow> planned s;
       l \<leftarrow> ag_ledger a;
       Some (
         if \<not> l_Armed l \<and> Retirements l = [] then
           (case kn_Apply (en_kernel en) (iface_of en) rules (guards_of en) w of (r, w) \<Rightarrow> (map_error ErrApply r, a, w))
         else case kn_managed (en_kernel en) of
                None \<Rightarrow> (Inl ErrKernelLacksRetirement, a, w)
              | Some k \<Rightarrow> apply_managed en k rules l a w)
     }"

subsection \<open>Boot\<close>

text \<open>Without a ledger file: is the persisted snapshot, if any, provably unmanaged?\<close>

definition prove_legacy :: "'w env \<Rightarrow> snapshot option \<Rightarrow> 'w \<Rightarrow> (agent_error, unit) result" where
  "prove_legacy en persisted w =
     (if (case persisted of None \<Rightarrow> False | Some s \<Rightarrow> s_Retirements s \<noteq> None) then Inl ErrManagedWithoutLedger
      else case fs_Stat (en_fs en) (snapshot_path en) w of
             None \<Rightarrow>
               (case fs_ReadFile (en_fs en) (snapshot_path en) w of
                  Inl e \<Rightarrow> Inl ErrCannotProveLegacy
                | Inr data \<Rightarrow>
                    (case Parse (en_pt en) data (limits_of en) of
                       Inl e \<Rightarrow> Inl ErrCannotProveLegacyNoLedger
                     | Inr raw \<Rightarrow> if s_Retirements raw \<noteq> None then Inl ErrCannotProveLegacyNoLedger else Inr ()))
           | Some ErrNotExist \<Rightarrow> Inr ()
           | Some (IOError e) \<Rightarrow> Inl ErrSnapshotUninspectable)"

text \<open>A new ledger, once snapshot and kernel show no managed state.\<close>

definition fresh_ledger :: "'w env \<Rightarrow> snapshot option \<Rightarrow> 'w \<Rightarrow> (agent_error, ledger) result \<times> 'w" where
  "fresh_ledger en persisted w =
     (case prove_legacy en persisted w of Inl e \<Rightarrow> (Inl e, w)
      | Inr _ \<Rightarrow>
          (case kn_managed (en_kernel en) of None \<Rightarrow> (Inl ErrKernelUninspectable, w)
           | Some k \<Rightarrow>
               if mk_HasManagedState k w \<noteq> Inr False then (Inl ErrKernelManaged, w)
               else (case en_rand en w of (rnd, w) \<Rightarrow>
                     (case New rnd of None \<Rightarrow> (Inl (ErrLoadLedger ErrRandom), w)
                      | Some l \<Rightarrow>
                          (case save_ledger en l w of
                             (Inl e, w) \<Rightarrow> (Inl (ErrLoadLedger e), w)
                           | (Inr _, w) \<Rightarrow> (Inr l, w))))))"

definition read_ledger :: "'w env \<Rightarrow> snapshot option \<Rightarrow> 'w \<Rightarrow> (agent_error, ledger) result \<times> 'w" where
  "read_ledger en persisted w =
     (case ledger_Load (fs_ReadFile (en_fs en) (ledger_path en) w) of
        Inr l \<Rightarrow> (Inr l, w)
      | Inl e \<Rightarrow> if e = LedgerUnreadable ErrNotExist then fresh_ledger en persisted w else (Inl (ErrLoadLedger (ErrLoad e)), w))"

definition loadLedger :: "'w env \<Rightarrow> snapshot option \<Rightarrow> agent \<Rightarrow> 'w \<Rightarrow> ((agent_error, unit) result \<times> agent \<times> 'w) option" where
  "loadLedger en persisted a w =
     (case read_ledger en persisted w of
        (Inl e, w) \<Rightarrow> Some (Inl e, a\<lparr>ag_ledger := None, ag_ledgerLost := True\<rparr>, w)
      | (Inr l, w) \<Rightarrow>
          let a = a\<lparr>ag_ledger := Some l\<rparr>
          in case persisted of
               None \<Rightarrow> Some (Inr (), a, w)
             | Some s \<Rightarrow>
                 do {
                   compacts \<leftarrow> (if s_Retirements s \<noteq> None
                     then map_option (\<lambda>ack. ack \<noteq> l_AckHighWater l) (s_Ack s) else Some False);
                   Some (if compacts then (Inl ErrWouldCompact, a\<lparr>ag_ledgerLost := True\<rparr>, w)
                     else case Prepare l s of
                            Inl e \<Rightarrow> (Inl (ErrLedger e), a\<lparr>ag_ledgerLost := True\<rparr>, w)
                          | Inr next \<Rightarrow> (Inr (), a\<lparr>ag_ledger := Some next\<rparr>, w))
                 })"

definition boot_converge ::
  "'w env \<Rightarrow> (agent_error \<Rightarrow> agent_error) \<Rightarrow> snapshot option \<Rightarrow> agent \<Rightarrow> 'w \<Rightarrow> ((agent_error, unit) result \<times> agent \<times> 'w) option" where
  "boot_converge en wrap s a w =
     do {
       (r, a, w) \<leftarrow> agent_apply en s (foldCounters en w a) w;
       Some (case r of
         Inl e \<Rightarrow> (Inl (wrap e), noteBootFailure en (wrap e) a, w)
       | Inr _ \<Rightarrow> (Inr (), (mark_reset a)\<lparr>ag_appliedGeneration := (case s of None \<Rightarrow> 0 | Some x \<Rightarrow> s_Generation x),
           ag_applied := True, ag_lastApplied := s\<rparr>, w))
     }"

definition BootReapply :: "'w env \<Rightarrow> agent \<Rightarrow> 'w \<Rightarrow> ((agent_error, unit) result \<times> agent \<times> 'w) option" where
  "BootReapply en a w =
     (let loaded = LoadPersisted (en_pt en) (fs_ReadFile (en_fs en) (snapshot_path en) w) (limits_of en)
                     (c_SnapshotMaxAge (en_cfg en)) (en_now en w);
          persisted = (case loaded of Inl _ \<Rightarrow> None | Inr s \<Rightarrow> Some s)
      in do {
           (r, a, w) \<leftarrow> loadLedger en persisted a w;
           case r of
             Inl e \<Rightarrow>
               if ag_ledgerLost a then Some (Inl e, noteBootFailure en e a, ensureQuarantine en w)
               else if (case ag_ledger a of None \<Rightarrow> False | Some l \<Rightarrow> l_Armed l) then
                 do {
                   (q, a, w) \<leftarrow> agent_apply en None a w;
                   let e = (case q of Inl x \<Rightarrow> ErrFailClosedApply e x | Inr _ \<Rightarrow> e);
                   Some (Inl e, noteBootFailure en e a, w)
                 }
               else Some (Inl e, noteBootFailure en e a, w)
           | Inr _ \<Rightarrow>
               (case loaded of
                  Inr s \<Rightarrow> boot_converge en ErrBootReapply (Some s) a w
                | Inl le \<Rightarrow>
                    (let w = (if le = ReadFailed ErrNotExist then w else fs_Remove (en_fs en) (snapshot_path en) w)
                     in boot_converge en ErrBootEmpty None a w))
         })"

subsection \<open>The cycle\<close>

definition receipts_of :: "ledger \<Rightarrow> receipt list" where
  "receipts_of l = map (\<lambda>e. let r = e_Retirement e in
     \<lparr>rc_RetirementID = r_RetirementID r, rc_Generation = r_Generation r, rc_MappingID = r_MappingID r,
      rc_FlowMark = r_FlowMark r, rc_TupleHash = r_TupleHash r, rc_State = ''CLEARED''\<rparr>) (ClearedEntries l)"

text \<open>The report of a cycle, and the agent with the counters' cursor moved on.\<close>

definition build_report :: "'w env \<Rightarrow> agent \<Rightarrow> report \<times> agent" where
  "build_report en a =
     (let capabilities = [Capability] @ (if \<not> ag_ledgerLost a \<and> ag_ledger a \<noteq> None then [retirement_Capability] else []);
          snap = counters_Snapshot (ag_counters a);
          rep = \<lparr>rp_Capabilities = capabilities, rp_AppliedGeneration = ag_appliedGeneration a, rp_AgentVersion = en_version en,
                 rp_LastError = ag_lastErr a, rp_Counters = fst snap, rp_RetirementLedgerID = [], rp_MappingIDHighWater = 0,
                 rp_FlowMarkHighWater = 0, rp_RetirementHighWater = 0, rp_ManagedGenerationHighWater = 0,
                 rp_RetirementReceipts = None\<rparr>;
          rep = (case ag_ledger a of None \<Rightarrow> rep
                 | Some l \<Rightarrow> rep\<lparr>rp_RetirementLedgerID := l_LedgerID l, rp_MappingIDHighWater := l_MappingIDHighWater l,
                     rp_FlowMarkHighWater := l_FlowMarkHighWater l, rp_RetirementHighWater := l_RetirementHighWater l,
                     rp_ManagedGenerationHighWater := l_ManagedGenerationHighWater l,
                     rp_RetirementReceipts := Some (receipts_of l)\<rparr>)
      in (rep, a\<lparr>ag_counters := snd snap\<rparr>))"

definition retryBootConverge :: "'w env \<Rightarrow> agent \<Rightarrow> 'w \<Rightarrow> (agent \<times> 'w) option" where
  "retryBootConverge en a w =
     do {
       (r, a, w) \<leftarrow> agent_apply en None (foldCounters en w a) w;
       Some (case r of
         Inl e \<Rightarrow> (setLastErr en e a, w)
       | Inr _ \<Rightarrow> ((mark_reset a)\<lparr>ag_appliedGeneration := 0, ag_applied := True, ag_lastApplied := None,
           ag_bootFailed := False\<rparr>, w))
     }"

definition ensureAsserted :: "'w env \<Rightarrow> agent \<Rightarrow> 'w \<Rightarrow> (agent \<times> 'w) option" where
  "ensureAsserted en a w =
     (if ag_ledgerLost a then Some (a, ensureQuarantine en w)
      else if \<not> ag_applied a then (if ag_bootFailed a then retryBootConverge en a w else Some (a, w))
      else if kn_Present (en_kernel en) w = Inr True then Some (a, w)
      else do {
        (r, a, w) \<leftarrow> agent_apply en (ag_lastApplied a) a w;
        Some (case r of Inl e \<Rightarrow> (setLastErr en e a, w) | Inr _ \<Rightarrow> (mark_reset a, w))
      })"

text \<open>The entries that the next ledger no longer holds must have no flow left.\<close>

fun zero_dropped :: "'w env \<Rightarrow> entry list \<Rightarrow> entry list \<Rightarrow> 'w \<Rightarrow> (agent_error, unit) result \<times> 'w" where
  "zero_dropped en kept [] w = (Inr (), w)"
| "zero_dropped en kept (old # olds) w =
     (if list_ex (\<lambda>e. r_RetirementID (e_Retirement e) = r_RetirementID (e_Retirement old)) kept
      then zero_dropped en kept olds w
      else case en_Zero en (e_Retirement old) w of
             (Inl e, w) \<Rightarrow> (Inl (ErrZero e), w)
           | (Inr _, w) \<Rightarrow> zero_dropped en kept olds w)"

definition ledger_changed :: "ledger \<Rightarrow> ledger \<Rightarrow> bool" where
  "ledger_changed n l \<longleftrightarrow>
     l_DesiredHash n \<noteq> l_DesiredHash l \<or> l_ManagedGenerationHighWater n \<noteq> l_ManagedGenerationHighWater l
     \<or> l_Armed n \<noteq> l_Armed l \<or> l_MappingIDHighWater n \<noteq> l_MappingIDHighWater l
     \<or> l_FlowMarkHighWater n \<noteq> l_FlowMarkHighWater l \<or> l_RetirementHighWater n \<noteq> l_RetirementHighWater l
     \<or> l_AckHighWater n \<noteq> l_AckHighWater l
     \<or> length (slice_of (l_Active n)) \<noteq> length (slice_of (l_Active l))
     \<or> length (slice_of (l_Entries n)) \<noteq> length (slice_of (l_Entries l))"

text \<open>Writing the ledger and the snapshot ahead of the kernel, for an armed ledger.\<close>

definition persist_ahead :: "'w env \<Rightarrow> ledger \<Rightarrow> snapshot \<Rightarrow> agent \<Rightarrow> 'w \<Rightarrow> (agent_error, unit) result \<times> agent \<times> 'w" where
  "persist_ahead en next s a w =
     (if l_Armed next then
        (case save_ledger en next w of
           (Inl e, w) \<Rightarrow> (Inl e, a, w)
         | (Inr _, w) \<Rightarrow>
             let a = a\<lparr>ag_ledger := Some next\<rparr>
             in (case save_snapshot en s w of (Inl e, w) \<Rightarrow> (Inl e, a, w) | (Inr _, w) \<Rightarrow> (Inr (), a, w)))
      else (Inr (), a\<lparr>ag_ledger := Some next\<rparr>, w))"

text \<open>After a successful apply.\<close>

definition record_applied :: "snapshot \<Rightarrow> agent \<Rightarrow> bool \<times> agent" where
  "record_applied s a =
     (let a = mark_reset a;
          advanced = (\<not> ag_applied a \<or> s_Generation s \<noteq> ag_appliedGeneration a);
          a = a\<lparr>ag_appliedGeneration := s_Generation s, ag_applied := True, ag_lastApplied := Some s,
                ag_bootFailed := False, ag_lastErr := None\<rparr>
      in (advanced, a\<lparr>ag_counters := Prune (m_ID ` set (slice_of (s_Mappings s))) (ag_counters a)\<rparr>))"

definition converge :: "'w env \<Rightarrow> ledger \<Rightarrow> snapshot \<Rightarrow> agent \<Rightarrow> 'w \<Rightarrow> (bool \<times> agent \<times> 'w) option" where
  "converge en next s a w =
     (case persist_ahead en next s (foldCounters en w a) w of
        (Inl e, a, w) \<Rightarrow> Some (False, setLastErr en e a, w)
      | (Inr _, a, w) \<Rightarrow>
          do {
            (r, a, w) \<leftarrow> agent_apply en (Some s) a w;
            Some (case r of
              Inl e \<Rightarrow> (False, setLastErr en e a, w)
            | Inr _ \<Rightarrow>
                let w = (if \<not> l_Armed next then snd (save_snapshot en s w) else w)
                in case record_applied s a of (advanced, a) \<Rightarrow> (advanced, a, w))
          })"

text \<open>A changed answer: parse, prepare the ledger, confirm what it drops, converge.\<close>

definition handle_changed :: "'w env \<Rightarrow> jbody \<Rightarrow> agent \<Rightarrow> 'w \<Rightarrow> (bool \<times> agent \<times> 'w) option" where
  "handle_changed en body a w =
     (case Parse (en_pt en) body (limits_of en) of
        Inl e \<Rightarrow> Some (False, setLastErr en (ErrParse e) a, w)
      | Inr s \<Rightarrow>
          do {
            l \<leftarrow> ag_ledger a;
            case Prepare l s of
              Inl e \<Rightarrow> Some (False, setLastErr en (ErrLedger e) a, w)
            | Inr next \<Rightarrow>
                (case zero_dropped en (slice_of (l_Entries next)) (slice_of (l_Entries l)) w of
                   (Inl e, w) \<Rightarrow> Some (False, setLastErr en e a, w)
                 | (Inr _, w) \<Rightarrow>
                     if ag_applied a \<and> s_Generation s = ag_appliedGeneration a \<and> \<not> ledger_changed next l
                        \<and> kn_Present (en_kernel en) w = Inr True
                     then Some (False, a\<lparr>ag_lastErr := None\<rparr>, w)
                     else converge en next s a w)
          })"

definition cycle :: "'w env \<Rightarrow> agent \<Rightarrow> 'w \<Rightarrow> (bool \<times> agent \<times> 'w) option" where
  "cycle en a w =
     (case build_report en (foldCounters en w a) of (rep, a) \<Rightarrow>
      case en_Sync en rep w of (answer, w) \<Rightarrow>
        if ag_ledgerLost a then Some (False, a, ensureQuarantine en w)
        else case answer of
               Inl e \<Rightarrow> Some (False, a, w)
             | Inr None \<Rightarrow> do { (a, w) \<leftarrow> ensureAsserted en (a\<lparr>ag_lastErr := None\<rparr>) w; Some (False, a, w) }
             | Inr (Some body) \<Rightarrow> handle_changed en body a w)"

definition runOnce :: "'w env \<Rightarrow> agent \<Rightarrow> 'w \<Rightarrow> (agent \<times> 'w) option" where
  "runOnce en a w =
     do {
       (advanced, a, w) \<leftarrow> cycle en a w;
       if advanced then do { (again, a, w) \<leftarrow> cycle en a w; Some (a, w) } else Some (a, w)
     }"

text \<open>\<open>Run\<close>, up to the end of its context: one iteration and then one for each tick.\<close>

fun Run :: "'w env \<Rightarrow> nat \<Rightarrow> agent \<Rightarrow> 'w \<Rightarrow> (agent \<times> 'w) option" where
  "Run en 0 a w = runOnce en a w"
| "Run en (Suc ticks) a w = do { (a, w) \<leftarrow> runOnce en a w; Run en ticks a w }"

subsection \<open>What an apply does to the agent\<close>

definition open_ids :: "ledger \<Rightarrow> string set" where
  "open_ids l = (\<lambda>e. r_RetirementID (e_Retirement e)) ` set (filter (\<lambda>e. \<not> e_Cleared e) (slice_of (l_Entries l)))"

lemma clear_entries_ids:
  "clear_entries en es c w = (Inr c', w') \<Longrightarrow>
   c' = c \<union> (\<lambda>e. r_RetirementID (e_Retirement e)) ` set (filter (\<lambda>e. \<not> e_Cleared e) es)"
  by (induction en es c w rule: clear_entries.induct) (auto split: if_splits prod.splits sum.splits)

lemma wf_ledger_ids:
  assumes "wf_ledger l" "e \<in> set (slice_of (l_Entries l))" "e' \<in> set (slice_of (l_Entries l))"
    "r_RetirementID (e_Retirement e) = r_RetirementID (e_Retirement e')"
  shows "e = e'"
proof -
  have "distinct (map (\<lambda>e. r_RetirementID (e_Retirement e)) (slice_of (l_Entries l)))"
    using assms(1) by (auto simp: wf_ledger_def)
  with assms(2-4) show ?thesis by (auto simp: distinct_map dest: inj_onD)
qed

lemma Unclear_Clear:
  assumes "wf_ledger l"
  shows "Unclear (Clear l (open_ids l)) (open_ids l) = l"
proof (cases "l_Entries l")
  case None
  then show ?thesis by (simp add: Unclear_def Clear_def)
next
  case (Some es)
  have "(if r_RetirementID (e_Retirement e) \<in> open_ids l then e\<lparr>e_Cleared := False\<rparr> else e) = e" if "e \<in> set es" for e
  proof (cases "r_RetirementID (e_Retirement e) \<in> open_ids l")
    case True
    then obtain e' where "e' \<in> set es" "\<not> e_Cleared e'" "r_RetirementID (e_Retirement e') = r_RetirementID (e_Retirement e)"
      using Some by (auto simp: open_ids_def)
    then have "\<not> e_Cleared e" using wf_ledger_ids[OF assms, of e' e] Some that by auto
    then show ?thesis by (cases e) simp
  qed simp
  then have "map (\<lambda>e. if r_RetirementID (e_Retirement e) \<in> open_ids l then e\<lparr>e_Cleared := False\<rparr> else e) es = es"
    by (intro map_idI) auto
  moreover have comp: "map ((\<lambda>e. if r_RetirementID (e_Retirement e) \<in> I then e\<lparr>e_Cleared := False\<rparr> else e)
      \<circ> (\<lambda>e. if r_RetirementID (e_Retirement e) \<in> I then e\<lparr>e_Cleared := True\<rparr> else e)) es
     = map (\<lambda>e. if r_RetirementID (e_Retirement e) \<in> I then e\<lparr>e_Cleared := False\<rparr> else e) es" for I
    by (auto simp: o_def)
  ultimately have "Unclear (Clear l (open_ids l)) (open_ids l) = l\<lparr>l_Entries := Some es\<rparr>"
    using Some comp[of "open_ids l"] by (simp add: Unclear_def Clear_def)
  also have "\<dots> = l" using Some by (cases l) simp
  finally show ?thesis .
qed

lemma Clear_empty: "Clear l {} = l"
  by (cases l; cases "l_Entries l") (simp_all add: Clear_def)

text \<open>
  An apply needs a plan and a ledger. When it succeeds every outstanding entry of the ledger is
  cleared, and when it fails the agent is as it was.
\<close>

lemma apply_managed_cases:
  assumes "apply_managed en k rules l a w = (r, a', w')" "ag_ledger a = Some l" "wf_ledger l"
  shows "(r = Inr () \<and> a' = a\<lparr>ag_ledger := Some (Clear l (open_ids l))\<rparr>) \<or> (\<exists>e. r = Inl e \<and> a' = a)"
proof -
  have same: "a\<lparr>ag_ledger := Some l\<rparr> = a" using assms(2) by (cases a) simp
  have c: "c = open_ids l" if "clear_entries en (slice_of (l_Entries l)) {} v = (Inr c, v')" for c v v'
    using clear_entries_ids[OF that] by (simp add: open_ids_def)
  show ?thesis
    using assms(1) unfolding apply_managed_def
    by (auto simp: Unclear_Clear[OF assms(3)] same dest!: c split: prod.splits sum.splits)
qed

lemma agent_apply_cases:
  assumes "agent_apply en s a w = Some (r, a', w')" "ag_ledger a = Some l" "wf_ledger l"
  shows "(r = Inr () \<and> a' = a\<lparr>ag_ledger := Some (Clear l (open_ids l))\<rparr>) \<or> (\<exists>e. r = Inl e \<and> a' = a)"
proof -
  have "open_ids l = {}" if "Retirements l = []" using that by (simp add: open_ids_def Retirements_def)
  then have same: "a\<lparr>ag_ledger := Some (Clear l (open_ids l))\<rparr> = a" if "Retirements l = []"
    using that assms(2) by (cases a) (simp add: Clear_empty)
  obtain rules where rules: "planned s = Some rules" using assms(1) by (auto simp: agent_apply_def split: bind_splits)
  show ?thesis
  proof (cases "\<not> l_Armed l \<and> Retirements l = []")
    case True
    then have "a' = a"
      using assms(1,2) rules by (auto simp: agent_apply_def split: prod.splits)
    with True same show ?thesis by (cases r) auto
  next
    case False
    show ?thesis
    proof (cases "kn_managed (en_kernel en)")
      case None
      then show ?thesis using False assms(1,2) rules by (auto simp: agent_apply_def)
    next
      case (Some k)
      then have "apply_managed en k rules l a w = (r, a', w')" using False assms(1,2) rules by (auto simp: agent_apply_def)
      then show ?thesis using assms(2,3) by (rule apply_managed_cases)
    qed
  qed
qed

definition good_snapshot :: "'w env \<Rightarrow> snapshot \<Rightarrow> bool" where
  "good_snapshot en s \<longleftrightarrow> wf_snapshot (limits_of en) s \<and> map_option with_targets (s_Mappings s) = s_Mappings s"

lemma good_plan: "(\<And>x. s = Some x \<Longrightarrow> good_snapshot en x) \<Longrightarrow> planned s \<noteq> None"
  using Plan_wf by (cases s) (auto simp: planned_def good_snapshot_def)

lemma agent_apply_total:
  assumes "\<And>x. s = Some x \<Longrightarrow> good_snapshot en x" "ag_ledger a = Some l"
  shows "\<exists>r a' w'. agent_apply en s a w = Some (r, a', w')"
proof -
  obtain rules where "planned s = Some rules" using good_plan[OF assms(1)] by blast
  then have "agent_apply en s a w \<noteq> None" using assms(2) by (simp add: agent_apply_def)
  then show ?thesis by (metis option.exhaust prod.exhaust)
qed

subsection \<open>The invariant of the agent\<close>

definition agent_inv :: "'w env \<Rightarrow> agent \<Rightarrow> bool" where
  "agent_inv en a \<longleftrightarrow>
     (\<not> ag_ledgerLost a \<longrightarrow> (\<exists>l. ag_ledger a = Some l \<and> wf_ledger l))
     \<and> ag_appliedGeneration a = (case ag_lastApplied a of None \<Rightarrow> 0 | Some s \<Rightarrow> s_Generation s)
     \<and> (\<not> ag_applied a \<longrightarrow> ag_lastApplied a = None) \<and> (ag_ledgerLost a \<longrightarrow> \<not> ag_applied a)
     \<and> (\<forall>s. ag_lastApplied a = Some s \<longrightarrow> good_snapshot en s)
     \<and> one_entry (ag_counters a)"

text \<open>The parts of the state that say what the kernel holds.\<close>

definition same_applied :: "agent \<Rightarrow> agent \<Rightarrow> bool" where
  "same_applied a a' \<longleftrightarrow> ag_appliedGeneration a' = ag_appliedGeneration a \<and> ag_applied a' = ag_applied a
     \<and> ag_lastApplied a' = ag_lastApplied a"

lemma same_applied_refl [simp]: "same_applied a a"
  by (simp add: same_applied_def)

lemma foldCounters_simps [simp]:
  "ag_ledger (foldCounters en w a) = ag_ledger a" "ag_ledgerLost (foldCounters en w a) = ag_ledgerLost a"
  "ag_applied (foldCounters en w a) = ag_applied a" "ag_appliedGeneration (foldCounters en w a) = ag_appliedGeneration a"
  "ag_lastApplied (foldCounters en w a) = ag_lastApplied a" "ag_bootFailed (foldCounters en w a) = ag_bootFailed a"
  "ag_lastErr (foldCounters en w a) = ag_lastErr a"
  "one_entry (ag_counters a) \<Longrightarrow> one_entry (ag_counters (foldCounters en w a))"
  by (simp_all add: foldCounters_def Fold_one_entry split: sum.split)

lemma setLastErr_simps [simp]:
  "ag_ledger (setLastErr en e a) = ag_ledger a" "ag_ledgerLost (setLastErr en e a) = ag_ledgerLost a"
  "ag_applied (setLastErr en e a) = ag_applied a" "ag_appliedGeneration (setLastErr en e a) = ag_appliedGeneration a"
  "ag_lastApplied (setLastErr en e a) = ag_lastApplied a" "ag_counters (setLastErr en e a) = ag_counters a"
  "ag_bootFailed (setLastErr en e a) = ag_bootFailed a"
  by (simp_all add: setLastErr_def)

lemma noteBootFailure_simps [simp]:
  "ag_ledger (noteBootFailure en e a) = ag_ledger a" "ag_ledgerLost (noteBootFailure en e a) = ag_ledgerLost a"
  "ag_applied (noteBootFailure en e a) = ag_applied a" "ag_appliedGeneration (noteBootFailure en e a) = ag_appliedGeneration a"
  "ag_lastApplied (noteBootFailure en e a) = ag_lastApplied a" "ag_counters (noteBootFailure en e a) = ag_counters a"
  "ag_bootFailed (noteBootFailure en e a)"
  by (simp_all add: noteBootFailure_def)

lemma mark_reset_simps [simp]:
  "ag_ledger (mark_reset a) = ag_ledger a" "ag_ledgerLost (mark_reset a) = ag_ledgerLost a"
  "ag_applied (mark_reset a) = ag_applied a" "ag_appliedGeneration (mark_reset a) = ag_appliedGeneration a"
  "ag_lastApplied (mark_reset a) = ag_lastApplied a" "ag_bootFailed (mark_reset a) = ag_bootFailed a"
  "one_entry (ag_counters (mark_reset a)) = one_entry (ag_counters a)"
  by (simp_all add: mark_reset_def)

lemma agent_inv_cong:
  assumes "agent_inv en a" "same_applied a a'" "ag_ledgerLost a' = ag_ledgerLost a" "one_entry (ag_counters a) \<Longrightarrow> one_entry (ag_counters a')"
    "\<And>l. ag_ledger a = Some l \<Longrightarrow> wf_ledger l \<Longrightarrow> \<not> ag_ledgerLost a \<Longrightarrow> \<exists>l'. ag_ledger a' = Some l' \<and> wf_ledger l'"
  shows "agent_inv en a'"
  using assms unfolding agent_inv_def same_applied_def by auto

lemma agent_inv_simps [simp]:
  "agent_inv en a \<Longrightarrow> agent_inv en (foldCounters en w a)"
  "agent_inv en a \<Longrightarrow> agent_inv en (setLastErr en e a)"
  "agent_inv en a \<Longrightarrow> agent_inv en (noteBootFailure en e a)"
  "agent_inv en a \<Longrightarrow> agent_inv en (mark_reset a)"
  "agent_inv en a \<Longrightarrow> agent_inv en (a\<lparr>ag_lastErr := x\<rparr>)"
  by (erule agent_inv_cong, simp_all add: same_applied_def)+

lemma apply_keeps:
  assumes "agent_inv en a" "\<not> ag_ledgerLost a" "agent_apply en s a w = Some (r, a', w')"
  shows "agent_inv en a'" "same_applied a a'" "ag_ledgerLost a' = ag_ledgerLost a" "ag_bootFailed a' = ag_bootFailed a"
    "ag_counters a' = ag_counters a"
proof -
  obtain l where l: "ag_ledger a = Some l" "wf_ledger l" using assms(1,2) by (auto simp: agent_inv_def)
  from agent_apply_cases[OF assms(3) l] show s: "same_applied a a'" and g: "ag_ledgerLost a' = ag_ledgerLost a"
    and "ag_bootFailed a' = ag_bootFailed a" and c: "ag_counters a' = ag_counters a" by (auto simp: same_applied_def)
  show "agent_inv en a'"
    by (rule agent_inv_cong[OF assms(1) s g]) (use agent_apply_cases[OF assms(3) l] l c in auto)
qed

text \<open>Recording a successful apply of \<open>s\<close>.\<close>

lemma agent_inv_applied:
  assumes "agent_inv en a" "\<not> ag_ledgerLost a" "\<And>x. s = Some x \<Longrightarrow> good_snapshot en x"
    "ag_ledger a' = ag_ledger a" "ag_ledgerLost a' = ag_ledgerLost a" "one_entry (ag_counters a')"
    "ag_appliedGeneration a' = (case s of None \<Rightarrow> 0 | Some x \<Rightarrow> s_Generation x)" "ag_applied a'" "ag_lastApplied a' = s"
  shows "agent_inv en a'"
  using assms by (auto simp: agent_inv_def)

lemma boot_converge_inv:
  assumes "agent_inv en a" "\<not> ag_ledgerLost a" "\<And>x. s = Some x \<Longrightarrow> good_snapshot en x"
  shows "\<exists>r a' w'. boot_converge en wrap s a w = Some (r, a', w') \<and> agent_inv en a' \<and> ag_ledgerLost a' = ag_ledgerLost a"
proof -
  let ?b = "foldCounters en w a"
  have b: "agent_inv en ?b" "\<not> ag_ledgerLost ?b" using assms by simp_all
  then obtain l where "ag_ledger ?b = Some l" by (auto simp: agent_inv_def)
  then obtain r a' w' where ap: "agent_apply en s ?b w = Some (r, a', w')"
    using agent_apply_total[OF assms(3), where a = ?b and w = w] by blast
  note k = apply_keeps[OF b ap]
  show ?thesis
  proof (cases r)
    case (Inl e)
    then show ?thesis using ap k by (simp add: boot_converge_def)
  next
    case (Inr u)
    have "one_entry (ag_counters a')" using k(1) by (simp add: agent_inv_def)
    then have "agent_inv en ((mark_reset a')\<lparr>ag_appliedGeneration := (case s of None \<Rightarrow> 0 | Some x \<Rightarrow> s_Generation x),
           ag_applied := True, ag_lastApplied := s\<rparr>)"
      using k b by (intro agent_inv_applied[OF k(1) _ assms(3)]) simp_all
    then show ?thesis using Inr ap k by (simp add: boot_converge_def)
  qed
qed

lemma save_ledger_wf: "save_ledger en l w = (Inr u, w') \<Longrightarrow> wf_ledger l"
  by (auto simp: save_ledger_def ledger_Persist_def ledger_body_def map_error_def rbind_def ledger_Validate_iff
      split: prod.splits sum.splits)

lemma read_ledger_wf: "read_ledger en persisted w = (Inr l, w') \<Longrightarrow> wf_ledger l"
proof -
  assume r: "read_ledger en persisted w = (Inr l, w')"
  have "wf_ledger k" if "ledger_Load f = Inr k" for f k
    using that by (auto simp: ledger_Load_def ledger_Validate_iff split: sum.splits option.splits)
  moreover have "wf_ledger l" if "fresh_ledger en persisted v = (Inr l, w')" for v
    using that save_ledger_wf[of en l] by (auto simp: fresh_ledger_def split: sum.splits option.splits prod.splits if_splits)
  ultimately show ?thesis using r by (auto simp: read_ledger_def split: sum.splits if_splits)
qed

text \<open>Before boot: nothing applied.\<close>

definition unbooted :: "agent \<Rightarrow> bool" where
  "unbooted a \<longleftrightarrow> \<not> ag_applied a \<and> ag_lastApplied a = None \<and> ag_appliedGeneration a = 0 \<and> \<not> ag_ledgerLost a
     \<and> one_entry (ag_counters a)"

lemma unbooted_New: "unbooted (agent_New rnd)"
  by (simp add: unbooted_def agent_New_def newCounterState_def one_entry_def)

text \<open>A ledger that cannot be loaded is lost: there is no third outcome.\<close>

lemma loadLedger_cases:
  assumes "unbooted a" "\<And>s. persisted = Some s \<Longrightarrow> good_snapshot en s"
  shows "\<exists>r a' w'. loadLedger en persisted a w = Some (r, a', w') \<and> agent_inv en a' \<and> \<not> ag_applied a'
    \<and> (if r = Inr () then \<not> ag_ledgerLost a' else ag_ledgerLost a')"
proof -
  obtain q v where rd: "read_ledger en persisted w = (q, v)" by (cases "read_ledger en persisted w")
  show ?thesis
  proof (cases q)
    case (Inl e)
    then show ?thesis using rd assms(1) by (auto simp: loadLedger_def agent_inv_def unbooted_def)
  next
    case (Inr l)
    then have wf: "wf_ledger l" using rd read_ledger_wf[of en persisted w l v] by simp
    show ?thesis
    proof (cases persisted)
      case None
      then show ?thesis using rd Inr wf assms(1) by (auto simp: loadLedger_def agent_inv_def unbooted_def Let_def)
    next
      case (Some s)
      then have "wf_snapshot (limits_of en) s" using assms(2) by (simp add: good_snapshot_def)
      then have "s_Retirements s \<noteq> None \<Longrightarrow> s_Ack s \<noteq> None" by (auto simp: wf_snapshot_def)
      then obtain compacts where c: "(if s_Retirements s \<noteq> None
          then map_option (\<lambda>ack. ack \<noteq> l_AckHighWater l) (s_Ack s) else Some False) = Some compacts"
        by (cases "s_Retirements s"; cases "s_Ack s") auto
      let ?a = "a\<lparr>ag_ledger := Some l\<rparr>"
      have "loadLedger en persisted a w = Some (if compacts then (Inl ErrWouldCompact, ?a\<lparr>ag_ledgerLost := True\<rparr>, v)
          else case Prepare l s of Inl e \<Rightarrow> (Inl (ErrLedger e), ?a\<lparr>ag_ledgerLost := True\<rparr>, v)
               | Inr next \<Rightarrow> (Inr (), ?a\<lparr>ag_ledger := Some next\<rparr>, v))"
        using rd Inr Some c by (simp add: loadLedger_def Let_def)
      moreover have "agent_inv en (?a\<lparr>ag_ledgerLost := True\<rparr>)" using assms(1) by (simp add: agent_inv_def unbooted_def)
      moreover have "agent_inv en (?a\<lparr>ag_ledger := Some n\<rparr>)" if "Prepare l s = Inr n" for n
        using assms(1) Prepare_wf[OF that wf] by (simp add: agent_inv_def unbooted_def)
      ultimately show ?thesis using assms(1) by (cases compacts; cases "Prepare l s") (auto simp: unbooted_def)
    qed
  qed
qed

lemma LoadPersisted_good:
  "LoadPersisted (en_pt en) f (limits_of en) m n = Inr s \<Longrightarrow> good_snapshot en s"
  using Parse_wf by (auto simp: LoadPersisted_def good_snapshot_def split: sum.splits if_splits)

lemma BootReapply_inv:
  assumes "unbooted a"
  shows "\<exists>r a' w'. BootReapply en a w = Some (r, a', w') \<and> agent_inv en a'"
proof -
  define loaded where "loaded = LoadPersisted (en_pt en) (fs_ReadFile (en_fs en) (snapshot_path en) w) (limits_of en)
                     (c_SnapshotMaxAge (en_cfg en)) (en_now en w)"
  define persisted where "persisted = (case loaded of Inl _ \<Rightarrow> None | Inr s \<Rightarrow> Some s)"
  have good: "good_snapshot en s" if "loaded = Inr s" for s using that LoadPersisted_good by (simp add: loaded_def)
  then have "good_snapshot en s" if "persisted = Some s" for s using that by (auto simp: persisted_def split: sum.splits)
  from loadLedger_cases[OF assms this, where w = w] obtain r b v where ld: "loadLedger en persisted a w = Some (r, b, v)"
    and b: "agent_inv en b" "if r = Inr () then \<not> ag_ledgerLost b else ag_ledgerLost b" by blast
  note unf = BootReapply_def[of en a w, folded loaded_def, unfolded Let_def, folded persisted_def]
  show ?thesis
  proof (cases r)
    case (Inl e)
    then show ?thesis using ld b by (simp add: unf)
  next
    case (Inr u)
    then have lost: "\<not> ag_ledgerLost b" using b(2) by simp
    show ?thesis
    proof (cases loaded)
      case (Inl le)
      let ?v = "if le = ReadFailed ErrNotExist then v else fs_Remove (en_fs en) (snapshot_path en) v"
      have "BootReapply en a w = boot_converge en ErrBootEmpty None b ?v" using Inl \<open>r = Inr u\<close> ld by (simp add: unf)
      then show ?thesis using boot_converge_inv[OF b(1) lost, of None ErrBootEmpty ?v] by auto
    next
      case (Inr s)
      have "BootReapply en a w = boot_converge en ErrBootReapply (Some s) b v" using Inr \<open>r = Inr u\<close> ld by (simp add: unf)
      then show ?thesis using boot_converge_inv[OF b(1) lost, of "Some s" ErrBootReapply v] good[OF Inr] by auto
    qed
  qed
qed

subsection \<open>A cycle keeps the invariant\<close>

lemma build_report_simps [simp]:
  "ag_ledger (snd (build_report en a)) = ag_ledger a" "ag_ledgerLost (snd (build_report en a)) = ag_ledgerLost a"
  "ag_applied (snd (build_report en a)) = ag_applied a" "ag_appliedGeneration (snd (build_report en a)) = ag_appliedGeneration a"
  "ag_lastApplied (snd (build_report en a)) = ag_lastApplied a" "ag_bootFailed (snd (build_report en a)) = ag_bootFailed a"
  "ag_lastErr (snd (build_report en a)) = ag_lastErr a"
  "one_entry (ag_counters (snd (build_report en a))) = one_entry (ag_counters a)"
  by (simp_all add: build_report_def Let_def one_entry_def)

lemma build_report_inv [simp]: "agent_inv en a \<Longrightarrow> agent_inv en (snd (build_report en a))"
  by (erule agent_inv_cong) (simp_all add: same_applied_def)

lemma persist_ahead_keeps:
  assumes "agent_inv en a" "\<not> ag_ledgerLost a" "wf_ledger next" "persist_ahead en next s a w = (r, a', w')"
  shows "agent_inv en a'" "same_applied a a'" "ag_ledgerLost a' = ag_ledgerLost a" "r = Inr () \<Longrightarrow> ag_ledger a' = Some next"
    "ag_ledger a' = ag_ledger a \<or> ag_ledger a' = Some next"
proof -
  have c: "a' = a \<or> a' = a\<lparr>ag_ledger := Some next\<rparr>" "r = Inr () \<Longrightarrow> a' = a\<lparr>ag_ledger := Some next\<rparr>"
    using assms(4) by (auto simp: persist_ahead_def Let_def split: if_splits prod.splits sum.splits)
  then show "same_applied a a'" "ag_ledgerLost a' = ag_ledgerLost a" "r = Inr () \<Longrightarrow> ag_ledger a' = Some next"
    "ag_ledger a' = ag_ledger a \<or> ag_ledger a' = Some next" by (auto simp: same_applied_def)
  show "agent_inv en a'"
    by (rule agent_inv_cong[OF assms(1)]) (use c(1) assms(3) in \<open>auto simp: same_applied_def\<close>)
qed

lemma record_applied_inv:
  assumes "agent_inv en a" "\<not> ag_ledgerLost a" "good_snapshot en s"
  shows "agent_inv en (snd (record_applied s a)) \<and> ag_ledgerLost (snd (record_applied s a)) = ag_ledgerLost a
    \<and> ag_ledger (snd (record_applied s a)) = ag_ledger a"
  using assms by (auto simp: record_applied_def Let_def agent_inv_def mark_reset_def)

lemma converge_inv:
  assumes "agent_inv en a" "\<not> ag_ledgerLost a" "wf_ledger next" "good_snapshot en s"
  shows "\<exists>b a' w'. converge en next s a w = Some (b, a', w') \<and> agent_inv en a' \<and> ag_ledgerLost a' = ag_ledgerLost a"
proof -
  obtain r c v where p: "persist_ahead en next s (foldCounters en w a) w = (r, c, v)"
    by (cases "persist_ahead en next s (foldCounters en w a) w")
  have f: "agent_inv en (foldCounters en w a)" "\<not> ag_ledgerLost (foldCounters en w a)" using assms(1,2) by simp_all
  note k = persist_ahead_keeps[OF f assms(3) p]
  show ?thesis
  proof (cases r)
    case (Inl e)
    then show ?thesis using p k(1,3) by (auto simp: converge_def)
  next
    case (Inr u)
    then have led: "ag_ledger c = Some next" using k(4) by simp
    obtain q d x where ap: "agent_apply en (Some s) c v = Some (q, d, x)"
      using agent_apply_total[of "Some s" en c "next" v] led assms(4) by auto
    have lost: "\<not> ag_ledgerLost c" using k(3) assms(2) by simp
    note m = apply_keeps[OF k(1) lost ap]
    show ?thesis
    proof (cases q)
      case (Inl e)
      then show ?thesis using p \<open>r = Inr u\<close> ap m(1,3) k(3) by (auto simp: converge_def)
    next
      case (Inr u')
      have "agent_inv en (snd (record_applied s d))" "ag_ledgerLost (snd (record_applied s d)) = ag_ledgerLost a"
        using record_applied_inv[OF m(1) _ assms(4)] m(3) k(3) lost by simp_all
      then show ?thesis using p \<open>r = Inr u\<close> Inr ap by (auto simp: converge_def Let_def split: prod.split)
    qed
  qed
qed

lemma retryBootConverge_inv:
  assumes "agent_inv en a" "\<not> ag_ledgerLost a"
  shows "\<exists>a' w'. retryBootConverge en a w = Some (a', w') \<and> agent_inv en a' \<and> ag_ledgerLost a' = ag_ledgerLost a"
proof -
  let ?b = "foldCounters en w a"
  have b: "agent_inv en ?b" "\<not> ag_ledgerLost ?b" using assms by simp_all
  then obtain r a' w' where ap: "agent_apply en None ?b w = Some (r, a', w')"
    using agent_apply_total[of None en ?b _ w] by (auto simp: agent_inv_def)
  note k = apply_keeps[OF b ap]
  show ?thesis
  proof (cases r)
    case (Inl e)
    then show ?thesis using ap k by (simp add: retryBootConverge_def)
  next
    case (Inr u)
    have "agent_inv en ((mark_reset a')\<lparr>ag_appliedGeneration := 0, ag_applied := True, ag_lastApplied := None, ag_bootFailed := False\<rparr>)"
      using k b k(1)[unfolded agent_inv_def] by (intro agent_inv_applied[OF k(1), of None]) simp_all
    then show ?thesis using Inr ap k(3) by (simp add: retryBootConverge_def)
  qed
qed

lemma ensureAsserted_inv:
  assumes "agent_inv en a"
  shows "\<exists>a' w'. ensureAsserted en a w = Some (a', w') \<and> agent_inv en a' \<and> ag_ledgerLost a' = ag_ledgerLost a"
proof (cases "ag_ledgerLost a \<or> \<not> ag_applied a \<or> kn_Present (en_kernel en) w = Inr True")
  case True
  then show ?thesis using assms retryBootConverge_inv[of en a w] by (auto simp: ensureAsserted_def)
next
  case False
  obtain r a' w' where ap: "agent_apply en (ag_lastApplied a) a w = Some (r, a', w')"
    using agent_apply_total[of "ag_lastApplied a" en a _ w] assms False by (auto simp: agent_inv_def)
  have "agent_inv en a'" "ag_ledgerLost a' = ag_ledgerLost a" using apply_keeps[OF assms _ ap] False by simp_all
  then show ?thesis using False ap by (cases r) (auto simp: ensureAsserted_def)
qed

lemma handle_changed_inv:
  assumes "agent_inv en a" "\<not> ag_ledgerLost a"
  shows "\<exists>b a' w'. handle_changed en body a w = Some (b, a', w') \<and> agent_inv en a' \<and> ag_ledgerLost a' = ag_ledgerLost a"
proof -
  obtain l where l: "ag_ledger a = Some l" "wf_ledger l" using assms by (auto simp: agent_inv_def)
  show ?thesis
  proof (cases "Parse (en_pt en) body (limits_of en)")
    case (Inl e)
    then show ?thesis using assms by (auto simp: handle_changed_def)
  next
    case (Inr s)
    then have good: "good_snapshot en s" using Parse_wf by (auto simp: good_snapshot_def)
    show ?thesis
    proof (cases "Prepare l s")
      case (Inl e)
      then show ?thesis using Inr l assms by (auto simp: handle_changed_def)
    next
      case prep: (Inr n)
      obtain z v where z: "zero_dropped en (slice_of (l_Entries n)) (slice_of (l_Entries l)) w = (z, v)"
        by (cases "zero_dropped en (slice_of (l_Entries n)) (slice_of (l_Entries l)) w")
      have "\<exists>b a' w'. converge en n s a v = Some (b, a', w') \<and> agent_inv en a' \<and> ag_ledgerLost a' = ag_ledgerLost a"
        using converge_inv[OF assms Prepare_wf[OF prep l(2)] good] by blast
      then show ?thesis using Inr prep l z assms by (cases z) (auto simp: handle_changed_def)
    qed
  qed
qed

lemma cycle_inv:
  assumes "agent_inv en a"
  shows "\<exists>b a' w'. cycle en a w = Some (b, a', w') \<and> agent_inv en a' \<and> ag_ledgerLost a' = ag_ledgerLost a"
proof -
  obtain rep c where rep: "build_report en (foldCounters en w a) = (rep, c)" by (cases "build_report en (foldCounters en w a)")
  obtain ans v where sync: "en_Sync en rep w = (ans, v)" by (cases "en_Sync en rep w")
  have inv: "agent_inv en c" "ag_ledgerLost c = ag_ledgerLost a"
    using assms build_report_inv[of en "foldCounters en w a"] build_report_simps(2)[of en "foldCounters en w a"] rep by simp_all
  show ?thesis
  proof (cases "ag_ledgerLost c")
    case True
    then show ?thesis using rep sync inv by (auto simp: cycle_def)
  next
    case False
    consider e where "ans = Inl e" | "ans = Inr None" | body where "ans = Inr (Some body)"
      by (metis option.exhaust sum.exhaust)
    then show ?thesis
    proof cases
      case 1
      then show ?thesis using rep sync inv False by (auto simp: cycle_def)
    next
      case 2
      then show ?thesis using rep sync False ensureAsserted_inv[of en "c\<lparr>ag_lastErr := None\<rparr>" v] inv by (auto simp: cycle_def)
    next
      case (3 body)
      then show ?thesis using rep sync False handle_changed_inv[OF inv(1) False, of body v] inv(2) by (auto simp: cycle_def)
    qed
  qed
qed

end
