(* ===== verification/Agent_Trace.thy ===== *)
theory Agent_Trace
  imports Agent
begin

text \<open>
  What the agent does to its environment, in order. An event is one successful call of the
  environment, or a call whatever it answered: \<open>SnapshotTried\<close>, or \<open>Attempted\<close>, any call at all, and
  \<open>runs\<close> says that a list of events takes one world to another. A cycle is such a run: the
  order of its events is the write-ahead order of the agent, and the ledger records a
  retirement as cleared, or forgets it, only with the matching event in the run.
\<close>

datatype event =
    Synced report jbody
  | Zeroed retirement
  | LedgerSaved ledger
  | SnapshotSaved snapshot
  | SnapshotTried snapshot
  | TableReplaced "rule list"
  | ManagedReplaced "rule list" "retirement list"
  | ManagedVerified "rule list" "retirement list"
  | Cleared retirement
  | Attempted

definition attempt :: "'w env \<Rightarrow> 'w \<Rightarrow> 'w \<Rightarrow> bool" where
  "attempt en w w' \<longleftrightarrow>
     (\<exists>rep. w' = snd (en_Sync en rep w)) \<or> (\<exists>r. w' = snd (en_Zero en r w)) \<or> (\<exists>r. w' = snd (en_Clear en r w))
     \<or> (\<exists>l. w' = snd (save_ledger en l w)) \<or> (\<exists>s. w' = snd (save_snapshot en s w))
     \<or> (\<exists>rules. w' = snd (kn_Apply (en_kernel en) (iface_of en) rules (guards_of en) w))
     \<or> (\<exists>k. kn_managed (en_kernel en) = Some k \<and>
          (w' = snd (mk_Quarantine k (iface_of en) w)
           \<or> (\<exists>rules rets. w' = snd (mk_ApplyManaged k (iface_of en) rules rets (guards_of en) w))))"

fun happens :: "'w env \<Rightarrow> event \<Rightarrow> 'w \<Rightarrow> 'w \<Rightarrow> bool" where
  "happens en (Synced rep body) w w' \<longleftrightarrow> en_Sync en rep w = (Inr (Some body), w')"
| "happens en (Zeroed r) w w' \<longleftrightarrow> en_Zero en r w = (Inr (), w')"
| "happens en (LedgerSaved l) w w' \<longleftrightarrow> save_ledger en l w = (Inr (), w')"
| "happens en (SnapshotSaved s) w w' \<longleftrightarrow> save_snapshot en s w = (Inr (), w')"
| "happens en (SnapshotTried s) w w' \<longleftrightarrow> w' = snd (save_snapshot en s w)"
| "happens en (TableReplaced rules) w w' \<longleftrightarrow> kn_Apply (en_kernel en) (iface_of en) rules (guards_of en) w = (Inr (), w')"
| "happens en (ManagedReplaced rules rets) w w' \<longleftrightarrow> (\<exists>k. kn_managed (en_kernel en) = Some k
     \<and> mk_ApplyManaged k (iface_of en) rules rets (guards_of en) w = (Inr (), w'))"
| "happens en (ManagedVerified rules rets) w w' \<longleftrightarrow> w' = w \<and> (\<exists>k. kn_managed (en_kernel en) = Some k
     \<and> mk_VerifyManaged k (iface_of en) rules rets (guards_of en) w = Inr ())"
| "happens en (Cleared r) w w' \<longleftrightarrow> en_Clear en r w = (Inr (), w')"
| "happens en Attempted w w' \<longleftrightarrow> attempt en w w'"

fun runs :: "'w env \<Rightarrow> event list \<Rightarrow> 'w \<Rightarrow> 'w \<Rightarrow> bool" where
  "runs en [] w w' \<longleftrightarrow> w' = w"
| "runs en (e # es) w w' \<longleftrightarrow> (\<exists>v. happens en e w v \<and> runs en es v w')"

lemma runs_append: "runs en (xs @ ys) w w' \<longleftrightarrow> (\<exists>v. runs en xs w v \<and> runs en ys v w')"
  by (induction xs arbitrary: w) auto

lemma runs_attempt: "attempt en w w' \<Longrightarrow> runs en [Attempted] w w'"
  by simp

lemma runs_trans: "runs en xs w v \<Longrightarrow> runs en ys v w' \<Longrightarrow> runs en (xs @ ys) w w'"
  by (auto simp: runs_append)

text \<open>Every call of the environment is an attempt.\<close>

lemma attempts:
  "en_Sync en rep w = (q1, w') \<Longrightarrow> attempt en w w'" "en_Zero en r w = (q2, w') \<Longrightarrow> attempt en w w'"
  "en_Clear en r w = (q3, w') \<Longrightarrow> attempt en w w'" "save_ledger en l w = (q4, w') \<Longrightarrow> attempt en w w'"
  "save_snapshot en s w = (q5, w') \<Longrightarrow> attempt en w w'"
  "kn_Apply (en_kernel en) (iface_of en) rules (guards_of en) w = (q6, w') \<Longrightarrow> attempt en w w'"
  "kn_managed (en_kernel en) = Some k \<Longrightarrow> mk_ApplyManaged k (iface_of en) rules rets (guards_of en) w = (q7, w') \<Longrightarrow> attempt en w w'"
  "kn_managed (en_kernel en) = Some k \<Longrightarrow> mk_Quarantine k (iface_of en) w = (q8, w') \<Longrightarrow> attempt en w w'"
  unfolding attempt_def by (metis snd_conv)+

subsection \<open>The runs of the loops\<close>

definition open_retirements :: "ledger \<Rightarrow> retirement list" where
  "open_retirements l = map e_Retirement (filter (\<lambda>e. \<not> e_Cleared e) (slice_of (l_Entries l)))"

lemma clear_entries_runs:
  "clear_entries en es c w = (Inr c', w') \<Longrightarrow>
   runs en (map (Cleared \<circ> e_Retirement) (filter (\<lambda>e. \<not> e_Cleared e) es)) w w'"
  by (induction en es c w rule: clear_entries.induct) (auto split: if_splits prod.splits sum.splits)

lemma clear_entries_fails: "clear_entries en es c w = (Inl x, w') \<Longrightarrow> \<exists>evs. runs en evs w w'"
proof (induction en es c w rule: clear_entries.induct)
  case (2 en e es c w)
  show ?case
  proof (cases "e_Cleared e")
    case True
    then show ?thesis using 2 by simp
  next
    case False
    obtain q v where cl: "en_Clear en (e_Retirement e) w = (q, v)" by (cases "en_Clear en (e_Retirement e) w")
    note at = runs_attempt[OF attempts(3)[OF cl]]
    show ?thesis
    proof (cases q)
      case (Inl y)
      then have "w' = v" using 2(3) False cl by simp
      with at show ?thesis by blast
    next
      case (Inr u)
      then have "clear_entries en es (insert (r_RetirementID (e_Retirement e)) c) v = (Inl x, w')" using 2(3) False cl by simp
      then obtain evs where "runs en evs v w'" using 2(2)[OF False cl[symmetric] Inr] by blast
      with at show ?thesis by (blast intro: runs_trans)
    qed
  qed
qed simp

definition dropped :: "ledger \<Rightarrow> ledger \<Rightarrow> entry list" where
  "dropped n l = filter (\<lambda>old. \<not> list_ex (\<lambda>e. r_RetirementID (e_Retirement e) = r_RetirementID (e_Retirement old))
     (slice_of (l_Entries n))) (slice_of (l_Entries l))"

lemma zero_dropped_runs:
  "zero_dropped en kept olds w = (Inr u, w') \<Longrightarrow>
   runs en (map (Zeroed \<circ> e_Retirement)
     (filter (\<lambda>old. \<not> list_ex (\<lambda>e. r_RetirementID (e_Retirement e) = r_RetirementID (e_Retirement old)) kept) olds)) w w'"
  by (induction en kept olds w rule: zero_dropped.induct) (auto split: if_splits prod.splits sum.splits)

lemma zero_dropped_fails: "zero_dropped en kept olds w = (Inl x, w') \<Longrightarrow> \<exists>evs. runs en evs w w'"
proof (induction en kept olds w rule: zero_dropped.induct)
  case (2 en kept old olds w)
  show ?case
  proof (cases "list_ex (\<lambda>e. r_RetirementID (e_Retirement e) = r_RetirementID (e_Retirement old)) kept")
    case True
    then show ?thesis using 2 by simp
  next
    case False
    obtain q v where z: "en_Zero en (e_Retirement old) w = (q, v)" by (cases "en_Zero en (e_Retirement old) w")
    note at = runs_attempt[OF attempts(2)[OF z]]
    show ?thesis
    proof (cases q)
      case (Inl y)
      then have "w' = v" using 2(3) False z by simp
      with at show ?thesis by blast
    next
      case (Inr u)
      then have "zero_dropped en kept olds v = (Inl x, w')" using 2(3) False z by simp
      then obtain evs where "runs en evs v w'" using 2(2)[OF False z[symmetric] Inr] by blast
      with at show ?thesis by (blast intro: runs_trans)
    qed
  qed
qed simp

subsection \<open>The run of an apply\<close>

definition managed_ledger :: "ledger \<Rightarrow> bool" where
  "managed_ledger l \<longleftrightarrow> l_Armed l \<or> Retirements l \<noteq> []"

text \<open>The events of a successful apply of \<open>rules\<close> with ledger \<open>l\<close>.\<close>

definition apply_events :: "rule list \<Rightarrow> ledger \<Rightarrow> event list" where
  "apply_events rules l =
     (if managed_ledger l
      then [ManagedReplaced rules (Retirements l), ManagedVerified rules (Retirements l)]
        @ map Cleared (open_retirements l) @ [LedgerSaved (Clear l (open_ids l))]
      else [TableReplaced rules])"

lemma apply_managed_runs:
  assumes "apply_managed en k rules l a w = (r, a', w')" "kn_managed (en_kernel en) = Some k"
  shows "\<exists>evs. runs en evs w w' \<and> (r = Inr () \<longrightarrow>
    evs = [ManagedReplaced rules (Retirements l), ManagedVerified rules (Retirements l)]
        @ map Cleared (open_retirements l) @ [LedgerSaved (Clear l (open_ids l))])"
proof -
  obtain q1 w1 where ap: "mk_ApplyManaged k (iface_of en) rules (Retirements l) (guards_of en) w = (q1, w1)" by fastforce
  note at1 = runs_attempt[OF attempts(7)[OF assms(2) ap]]
  show ?thesis
  proof (cases "q1 = Inr () \<and> mk_VerifyManaged k (iface_of en) rules (Retirements l) (guards_of en) w1 = Inr ()")
    case False
    then have "w' = w1 \<and> r \<noteq> Inr ()" using assms(1) ap by (auto simp: apply_managed_def split: sum.splits prod.splits)
    with at1 show ?thesis by blast
  next
    case True
    then have pre: "runs en [ManagedReplaced rules (Retirements l), ManagedVerified rules (Retirements l)] w w1"
      using ap assms(2) by simp
    obtain q2 w2 where cl: "clear_entries en (slice_of (l_Entries l)) {} w1 = (q2, w2)" by fastforce
    show ?thesis
    proof (cases q2)
      case (Inl x)
      then have "w' = w2 \<and> r \<noteq> Inr ()" using assms(1) ap True cl by (auto simp: apply_managed_def)
      moreover obtain evs where "runs en evs w1 w2" using clear_entries_fails[OF cl[unfolded Inl]] by blast
      ultimately show ?thesis using pre by (blast intro: runs_trans)
    next
      case (Inr c)
      then have c: "c = open_ids l" using clear_entries_ids[OF cl[unfolded Inr]] by (simp add: open_ids_def)
      have "runs en (map Cleared (open_retirements l)) w1 w2"
        using clear_entries_runs[OF cl[unfolded Inr]] by (simp add: open_retirements_def)
      with pre have mid: "runs en ([ManagedReplaced rules (Retirements l), ManagedVerified rules (Retirements l)]
          @ map Cleared (open_retirements l)) w w2" by (rule runs_trans)
      obtain q3 w3 where sv: "save_ledger en (Clear l c) w2 = (q3, w3)" by fastforce
      have fin: "w' = w3" "r = Inr () \<longleftrightarrow> q3 = Inr ()"
        using assms(1) ap True cl Inr sv by (auto simp: apply_managed_def split: sum.splits)
      show ?thesis
      proof (cases "q3 = Inr ()")
        case True
        then have "runs en [LedgerSaved (Clear l (open_ids l))] w2 w'" using sv c fin by simp
        from runs_trans[OF mid this] show ?thesis by (simp only: append.assoc) blast
      next
        case False
        then show ?thesis using runs_trans[OF mid runs_attempt[OF attempts(4)[OF sv]]] fin by blast
      qed
    qed
  qed
qed

lemma agent_apply_runs:
  assumes "agent_apply en s a w = Some (r, a', w')" "ag_ledger a = Some l" "planned s = Some rules"
  shows "\<exists>evs. runs en evs w w' \<and> (r = Inr () \<longrightarrow> evs = apply_events rules l)"
proof (cases "managed_ledger l")
  case False
  obtain q v where ap: "kn_Apply (en_kernel en) (iface_of en) rules (guards_of en) w = (q, v)" by fastforce
  then have "w' = v" "r = Inr () \<longleftrightarrow> q = Inr ()"
    using assms False by (auto simp: agent_apply_def managed_ledger_def map_error_def split: sum.splits)
  moreover have "q = Inr () \<Longrightarrow> runs en (apply_events rules l) w v" using ap False by (simp add: apply_events_def)
  ultimately show ?thesis using runs_attempt[OF attempts(6)[OF ap]] by blast
next
  case True
  show ?thesis
  proof (cases "kn_managed (en_kernel en)")
    case None
    then have "w' = w" "r \<noteq> Inr ()" using assms True by (auto simp: agent_apply_def managed_ledger_def)
    then show ?thesis by (intro exI[of _ "[]"]) simp
  next
    case (Some k)
    then have "apply_managed en k rules l a w = (r, a', w')" using assms True by (auto simp: agent_apply_def managed_ledger_def)
    from apply_managed_runs[OF this Some] True show ?thesis by (simp add: apply_events_def)
  qed
qed

subsection \<open>The run of a cycle\<close>

definition converge_events :: "rule list \<Rightarrow> ledger \<Rightarrow> snapshot \<Rightarrow> event list" where
  "converge_events rules n s =
     (if l_Armed n then [LedgerSaved n, SnapshotSaved s] else []) @ apply_events rules n @ (if l_Armed n then [] else [SnapshotTried s])"

text \<open>
  How the ledger moves in a cycle: it may be prepared for a snapshot, with every entry that
  this drops confirmed to have no flow left, and then have its open entries cleared.
\<close>

definition ledger_moved :: "event list \<Rightarrow> ledger \<Rightarrow> ledger \<Rightarrow> bool" where
  "ledger_moved evs l l' \<longleftrightarrow>
     (\<exists>n. (n = l \<or> (\<exists>s. Prepare l s = Inr n \<and> Zeroed ` e_Retirement ` set (dropped n l) \<subseteq> set evs))
        \<and> (l' = n \<or> (l' = Clear n (open_ids n) \<and> Cleared ` set (open_retirements n) \<subseteq> set evs)))"

lemma ledger_moved_refl [simp]: "ledger_moved evs l l"
  by (auto simp: ledger_moved_def)

lemma ledger_moved_more:
  assumes "ledger_moved evs l l'" "set evs \<subseteq> set evs'"
  shows "ledger_moved evs' l l'"
proof -
  obtain n where n: "n = l \<or> (\<exists>s. Prepare l s = Inr n \<and> Zeroed ` e_Retirement ` set (dropped n l) \<subseteq> set evs)"
    "l' = n \<or> (l' = Clear n (open_ids n) \<and> Cleared ` set (open_retirements n) \<subseteq> set evs)"
    using assms(1) unfolding ledger_moved_def by blast
  have up: "X \<subseteq> set evs \<Longrightarrow> X \<subseteq> set evs'" for X using assms(2) by (rule subset_trans[rotated])
  show ?thesis unfolding ledger_moved_def by (rule exI[of _ n]) (use n up in metis)
qed

lemma apply_events_cleared: "Cleared ` set (open_retirements l) \<subseteq> set (apply_events rules l)"
  by (auto simp: apply_events_def managed_ledger_def open_retirements_def Retirements_def)

text \<open>An apply in the agent's invariant.\<close>

lemma apply_moves:
  assumes "agent_inv en a" "\<not> ag_ledgerLost a" "ag_ledger a = Some l" "planned s = Some rules"
    "agent_apply en s a w = Some (r, a', w')"
  shows "\<exists>evs l'. runs en evs w w' \<and> ag_ledger a' = Some l' \<and> ledger_moved evs l l' \<and> same_applied a a'
    \<and> (r = Inr () \<longrightarrow> evs = apply_events rules l \<and> l' = Clear l (open_ids l))"
proof -
  obtain evs where evs: "runs en evs w w'" "r = Inr () \<longrightarrow> evs = apply_events rules l"
    using agent_apply_runs[OF assms(5,3,4)] by blast
  have wf: "wf_ledger l" using assms(1-3) by (auto simp: agent_inv_def)
  note k = apply_keeps(2)[OF assms(1,2,5)]
  show ?thesis
  proof (cases "r = Inr ()")
    case True
    then have "ag_ledger a' = Some (Clear l (open_ids l))" using agent_apply_cases[OF assms(5,3) wf] by auto
    moreover have "ledger_moved evs l (Clear l (open_ids l))"
      using True evs(2) apply_events_cleared[of l rules] by (auto simp: ledger_moved_def)
    ultimately show ?thesis using evs k True by blast
  next
    case False
    then have "ag_ledger a' = Some l" using agent_apply_cases[OF assms(5,3) wf] assms(3) by auto
    then show ?thesis using evs k False by (intro exI[of _ evs] exI[of _ l]) simp
  qed
qed

lemma persist_ahead_runs:
  assumes "persist_ahead en n s a w = (r, a', w')"
  shows "\<exists>evs. runs en evs w w' \<and> (r = Inr () \<longrightarrow> evs = (if l_Armed n then [LedgerSaved n, SnapshotSaved s] else []))"
proof (cases "l_Armed n")
  case False
  then show ?thesis using assms by (auto simp: persist_ahead_def)
next
  case True
  obtain q v where sl: "save_ledger en n w = (q, v)" by fastforce
  obtain q2 v2 where ss: "save_snapshot en s v = (q2, v2)" by fastforce
  show ?thesis
  proof (cases "q = Inr ()")
    case False
    then have "w' = v \<and> r \<noteq> Inr ()" using assms True sl by (auto simp: persist_ahead_def split: sum.splits)
    then show ?thesis using runs_attempt[OF attempts(4)[OF sl]] by blast
  next
    case ok: True
    then have "w' = v2" "r = q2" using assms True sl ss by (auto simp: persist_ahead_def Let_def split: sum.splits)
    moreover have "q2 = Inr () \<Longrightarrow> runs en [LedgerSaved n, SnapshotSaved s] w v2" using sl ss ok by simp
    moreover have "runs en ([LedgerSaved n] @ [Attempted]) w v2"
      by (rule runs_trans[OF _ runs_attempt[OF attempts(5)[OF ss]]]) (use sl ok in simp)
    ultimately show ?thesis using True by (cases "q2 = Inr ()") (simp, blast)
  qed
qed

definition recorded :: "snapshot \<Rightarrow> ledger \<Rightarrow> agent \<Rightarrow> bool" where
  "recorded s n a' \<longleftrightarrow> ag_applied a' \<and> ag_appliedGeneration a' = s_Generation s \<and> ag_lastApplied a' = Some s
     \<and> ag_lastErr a' = None \<and> ag_ledger a' = Some (Clear n (open_ids n))"

lemma record_applied_simps [simp]:
  "fst (record_applied s a) \<longleftrightarrow> \<not> ag_applied a \<or> s_Generation s \<noteq> ag_appliedGeneration a"
  "recorded s n (snd (record_applied s a)) \<longleftrightarrow> ag_ledger a = Some (Clear n (open_ids n))"
  by (auto simp: record_applied_def recorded_def Let_def)

lemma converge_runs:
  assumes "agent_inv en a" "\<not> ag_ledgerLost a" "ag_ledger a = Some l" "wf_ledger n" "Plan s = Some rules"
    "converge en n s a w = Some (b, a', w')"
  shows "\<exists>evs. runs en evs w w' \<and>
    (evs = converge_events rules n s \<and> recorded s n a' \<and> (b \<longleftrightarrow> \<not> ag_applied a \<or> s_Generation s \<noteq> ag_appliedGeneration a)
     \<or> \<not> b \<and> same_applied a a' \<and> ag_ledger a' \<in> {Some l, Some n})"
proof -
  obtain r c v where p: "persist_ahead en n s (foldCounters en w a) w = (r, c, v)"
    by (cases "persist_ahead en n s (foldCounters en w a) w")
  have f: "agent_inv en (foldCounters en w a)" "\<not> ag_ledgerLost (foldCounters en w a)" using assms(1,2) by simp_all
  note k = persist_ahead_keeps[OF f assms(4) p]
  have ks: "same_applied a c" using k(2) by (simp add: same_applied_def)
  from persist_ahead_runs[OF p] obtain pre where pre: "runs en pre w v"
    "r = Inr () \<longrightarrow> pre = (if l_Armed n then [LedgerSaved n, SnapshotSaved s] else [])" by blast
  show ?thesis
  proof (cases r)
    case (Inl e)
    then have "\<not> b" "w' = v" "a' = setLastErr en e c" using assms(6) p by (simp_all add: converge_def)
    then show ?thesis using pre(1) ks k(5) assms(3) by (auto simp: same_applied_def)
  next
    case (Inr u)
    then have led: "ag_ledger c = Some n" "\<not> ag_ledgerLost c" using k(3,4) assms(2) by simp_all
    obtain q d x where ap: "agent_apply en (Some s) c v = Some (q, d, x)"
      using assms(6) p Inr by (auto simp: converge_def split: bind_splits)
    have "planned (Some s) = Some rules" using assms(5) by (simp add: planned_def)
    from apply_moves[OF k(1) led(2,1) this ap] obtain evs n' where m: "runs en evs v x" "ag_ledger d = Some n'" "same_applied c d"
      "q = Inr () \<longrightarrow> evs = apply_events rules n \<and> n' = Clear n (open_ids n)" by blast
    show ?thesis
    proof (cases q)
      case (Inl e)
      then have "\<not> b" "w' = x" "a' = setLastErr en e d" using assms(6) p \<open>r = Inr u\<close> ap by (simp_all add: converge_def)
      moreover have "ag_ledger d = Some n" using agent_apply_cases[OF ap led(1) assms(4)] Inl led(1) by auto
      ultimately show ?thesis using runs_trans[OF pre(1) m(1)] ks m(3) by (auto simp: same_applied_def)
    next
      case q: (Inr u')
      obtain y z where ss: "save_snapshot en s x = (y, z)" by fastforce
      have tail: "runs en (if l_Armed n then [] else [SnapshotTried s]) x w'"
        using assms(6) p Inr ap q ss
        by (auto simp: converge_def Let_def split: prod.splits if_splits)
      have "record_applied s d = (b, a')" using assms(6) p Inr ap q by (auto simp: converge_def Let_def split: prod.splits)
      then have res: "a' = snd (record_applied s d)" "b = fst (record_applied s d)" by (metis snd_conv, metis fst_conv)
      have "runs en (pre @ evs @ (if l_Armed n then [] else [SnapshotTried s])) w w'"
        by (rule runs_trans[OF pre(1) runs_trans[OF m(1) tail]])
      then have "runs en (converge_events rules n s) w w'" using pre(2) m(4) Inr q by (simp add: converge_events_def)
      moreover have "recorded s n a'" using res(1) m(2,4) q by simp
      moreover have "b \<longleftrightarrow> \<not> ag_applied a \<or> s_Generation s \<noteq> ag_appliedGeneration a"
        using res(2) m(3) ks by (simp add: same_applied_def)
      ultimately show ?thesis by blast
    qed
  qed
qed

lemma good_Plan: "good_snapshot en s \<Longrightarrow> \<exists>rules. Plan s = Some rules"
  using Plan_wf by (auto simp: good_snapshot_def)

lemma handle_changed_runs:
  assumes "agent_inv en a" "\<not> ag_ledgerLost a" "ag_ledger a = Some l" "handle_changed en body a w = Some (b, a', w')"
  shows "\<exists>evs. runs en evs w w' \<and>
    ((\<exists>s n rules. Parse (en_pt en) body (limits_of en) = Inr s \<and> Prepare l s = Inr n \<and> Plan s = Some rules
        \<and> evs = map (Zeroed \<circ> e_Retirement) (dropped n l) @ converge_events rules n s \<and> recorded s n a'
        \<and> (b \<longleftrightarrow> \<not> ag_applied a \<or> s_Generation s \<noteq> ag_appliedGeneration a))
     \<or> \<not> b \<and> same_applied a a' \<and> (\<exists>l'. ag_ledger a' = Some l' \<and> ledger_moved evs l l'
         \<and> (l' = l \<or> (\<exists>s. Parse (en_pt en) body (limits_of en) = Inr s \<and> Prepare l s = Inr l'))))"
proof -
  have wf: "wf_ledger l" using assms(1-3) by (auto simp: agent_inv_def)
  show ?thesis
  proof (cases "Parse (en_pt en) body (limits_of en)")
    case (Inl e)
    then have "w' = w" "\<not> b" "a' = setLastErr en (ErrParse e) a" using assms(4) by (simp_all add: handle_changed_def)
    then show ?thesis using assms(3) by (intro exI[of _ "[]"]) (simp add: same_applied_def)
  next
    case parse: (Inr s)
    show ?thesis
    proof (cases "Prepare l s")
      case (Inl e)
      then have "w' = w" "\<not> b" "a' = setLastErr en (ErrLedger e) a" using assms(3,4) parse by (simp_all add: handle_changed_def)
      then show ?thesis using assms(3) by (intro exI[of _ "[]"]) (simp add: same_applied_def)
    next
      case prep: (Inr n)
      obtain z v where z: "zero_dropped en (slice_of (l_Entries n)) (slice_of (l_Entries l)) w = (z, v)" by fastforce
      show ?thesis
      proof (cases z)
        case (Inl e)
        then have "w' = v" "\<not> b" "a' = setLastErr en e a" using assms(3,4) parse prep z by (simp_all add: handle_changed_def)
        moreover obtain evs where "runs en evs w v" using zero_dropped_fails[OF z[unfolded Inl]] by blast
        ultimately show ?thesis using assms(3) by (intro exI[of _ evs]) (simp add: same_applied_def)
      next
        case (Inr u)
        have pre: "runs en (map (Zeroed \<circ> e_Retirement) (dropped n l)) w v"
          using zero_dropped_runs[OF z[unfolded Inr]] by (simp add: dropped_def)
        show ?thesis
        proof (cases "converge en n s a v = Some (b, a', w')")
          case True
          obtain rules where rules: "Plan s = Some rules"
            using good_Plan Parse_wf parse by (fastforce simp: good_snapshot_def)
          obtain evs where evs: "runs en evs v w'"
            "evs = converge_events rules n s \<and> recorded s n a' \<and> (b \<longleftrightarrow> \<not> ag_applied a \<or> s_Generation s \<noteq> ag_appliedGeneration a)
              \<or> \<not> b \<and> same_applied a a' \<and> ag_ledger a' \<in> {Some l, Some n}"
            using converge_runs[OF assms(1-3) Prepare_wf[OF prep wf] rules True] by blast
          have "ledger_moved (map (Zeroed \<circ> e_Retirement) (dropped n l) @ evs) l n"
            using prep by (auto simp: ledger_moved_def)
          then show ?thesis using runs_trans[OF pre evs(1)] evs(2) parse prep rules
            by (intro exI[of _ "map (Zeroed \<circ> e_Retirement) (dropped n l) @ evs"]) auto
        next
          case False
          then have "w' = v" "\<not> b" "a' = a\<lparr>ag_lastErr := None\<rparr>"
            using assms(3,4) parse prep z Inr by (auto simp: handle_changed_def split: if_splits)
          then show ?thesis using pre assms(3) by (intro exI[of _ "map (Zeroed \<circ> e_Retirement) (dropped n l)"]) (simp add: same_applied_def)
        qed
      qed
    qed
  qed
qed

lemma reassert_runs:
  assumes "agent_inv en a" "\<not> ag_ledgerLost a" "ag_ledger a = Some l" "ensureAsserted en a w = Some (a', w')"
  shows "\<exists>evs l'. runs en evs w w' \<and> ag_ledger a' = Some l' \<and> ledger_moved evs l l'
    \<and> ag_appliedGeneration a' = ag_appliedGeneration a \<and> ag_lastApplied a' = ag_lastApplied a"
proof -
  have "agent_inv en (foldCounters en w a)" "\<not> ag_ledgerLost (foldCounters en w a)" "ag_ledger (foldCounters en w a) = Some l"
    using assms(1-3) by simp_all
  note boot = apply_moves[OF this, of None "[]"]
  have again: "\<exists>rules. planned (ag_lastApplied a) = Some rules"
    using assms(1) good_plan[of "ag_lastApplied a" en] by (auto simp: agent_inv_def)
  have none: "\<not> ag_applied a \<Longrightarrow> ag_lastApplied a = None \<and> ag_appliedGeneration a = 0" using assms(1) by (auto simp: agent_inv_def)
  consider "a' = a" "w' = w"
    | "\<not> ag_applied a" "retryBootConverge en a w = Some (a', w')"
    | r b where "agent_apply en (ag_lastApplied a) a w = Some (r, b, w')" "same_applied b a'" "ag_ledger a' = ag_ledger b"
  proof (cases "\<not> ag_applied a \<or> kn_Present (en_kernel en) w = Inr True")
    case True
    then have "a' = a \<and> w' = w \<or> \<not> ag_applied a \<and> retryBootConverge en a w = Some (a', w')"
      using assms(2,4) by (auto simp: ensureAsserted_def split: if_splits)
    with that(1,2) show ?thesis by blast
  next
    case False
    obtain r b v where ap: "agent_apply en (ag_lastApplied a) a w = Some (r, b, v)"
      using assms(2,4) False by (auto simp: ensureAsserted_def split: bind_splits)
    then have "v = w'" "same_applied b a'" "ag_ledger a' = ag_ledger b"
      using assms(2,4) False by (auto simp: ensureAsserted_def same_applied_def split: sum.splits)
    with ap that(3) show ?thesis by blast
  qed
  then show ?thesis
  proof cases
    case 1
    then show ?thesis using assms(3) by (intro exI[of _ "[]"]) simp
  next
    case 2
    obtain r b where ap: "agent_apply en None (foldCounters en w a) w = Some (r, b, w')"
      and res: "ag_ledger a' = ag_ledger b" "r = Inr () \<Longrightarrow> ag_appliedGeneration a' = 0 \<and> ag_lastApplied a' = None"
        "r \<noteq> Inr () \<Longrightarrow> same_applied b a'"
      using 2(2) by (auto simp: retryBootConverge_def same_applied_def split: bind_splits sum.splits)
    from boot[OF _ ap] show ?thesis using res none 2(1)
      by (cases "r = Inr ()") (auto simp: planned_def same_applied_def)
  next
    case 3
    from again obtain rules where "planned (ag_lastApplied a) = Some rules" by blast
    from apply_moves[OF assms(1-3) this 3(1)] 3(2,3) show ?thesis by (auto simp: same_applied_def)
  qed
qed

lemma cycle_runs:
  assumes "agent_inv en a" "\<not> ag_ledgerLost a" "ag_ledger a = Some l" "cycle en a w = Some (b, a', w')"
  shows "\<exists>evs l'. runs en evs w w' \<and> ag_ledger a' = Some l' \<and> ledger_moved evs l l'
    \<and> (b \<longleftrightarrow> ag_appliedGeneration a' \<noteq> ag_appliedGeneration a \<or> \<not> ag_applied a \<and> ag_lastApplied a' \<noteq> None)
    \<and> (b \<longrightarrow> (\<exists>body s n rules. Parse (en_pt en) body (limits_of en) = Inr s \<and> Prepare l s = Inr n \<and> Plan s = Some rules
        \<and> evs = Synced (fst (build_report en (foldCounters en w a))) body # map (Zeroed \<circ> e_Retirement) (dropped n l)
                @ converge_events rules n s
        \<and> recorded s n a'))"
proof -
  obtain rep c where rep: "build_report en (foldCounters en w a) = (rep, c)" by fastforce
  obtain ans v where sync: "en_Sync en rep w = (ans, v)" by fastforce
  have c: "agent_inv en c" "\<not> ag_ledgerLost c" "ag_ledger c = Some l" "same_applied a c"
    using assms(1-3) build_report_inv[of en "foldCounters en w a"] build_report_simps[of en "foldCounters en w a"] rep
    by (simp_all add: same_applied_def)
  have none: "\<not> ag_applied a \<Longrightarrow> ag_lastApplied a = None" using assms(1) by (auto simp: agent_inv_def)
  note at = runs_attempt[OF attempts(1)[OF sync]]
  consider e where "ans = Inl e" | "ans = Inr None" | body where "ans = Inr (Some body)" by (metis option.exhaust sum.exhaust)
  then show ?thesis
  proof cases
    case 1
    then have "\<not> b" "a' = c" "w' = v" using assms(4) rep sync c(2) by (simp_all add: cycle_def)
    then show ?thesis using at c none by (intro exI[of _ "[Attempted]"] exI[of _ l]) (auto simp: same_applied_def)
  next
    case 2
    then have as: "\<not> b" "ensureAsserted en (c\<lparr>ag_lastErr := None\<rparr>) v = Some (a', w')"
      using assms(4) rep sync c(2) by (auto simp: cycle_def split: bind_splits)
    obtain evs l' where "runs en evs v w'" "ag_ledger a' = Some l'" "ledger_moved evs l l'"
      "ag_appliedGeneration a' = ag_appliedGeneration c" "ag_lastApplied a' = ag_lastApplied c"
      using reassert_runs[OF _ _ _ as(2), of l] c by auto
    then show ?thesis
      using runs_trans[OF at] as(1) c(4) none ledger_moved_more[of evs l l' "[Attempted] @ evs"]
      by (intro exI[of _ "[Attempted] @ evs"] exI[of _ l']) (auto simp: same_applied_def)
  next
    case (3 body)
    then have "handle_changed en body c v = Some (b, a', w')" using assms(4) rep sync c(2) by (simp add: cycle_def)
    from handle_changed_runs[OF c(1-3) this] obtain evs where evs: "runs en evs v w'" and out:
      "(\<exists>s n rules. Parse (en_pt en) body (limits_of en) = Inr s \<and> Prepare l s = Inr n \<and> Plan s = Some rules
        \<and> evs = map (Zeroed \<circ> e_Retirement) (dropped n l) @ converge_events rules n s \<and> recorded s n a'
        \<and> (b \<longleftrightarrow> \<not> ag_applied c \<or> s_Generation s \<noteq> ag_appliedGeneration c))
     \<or> \<not> b \<and> same_applied c a' \<and> (\<exists>l'. ag_ledger a' = Some l' \<and> ledger_moved evs l l')" by blast
    have run: "runs en (Synced rep body # evs) w w'" using sync 3 evs by auto
    from out show ?thesis
    proof (elim disjE exE conjE)
      fix s n rules
      assume s: "Parse (en_pt en) body (limits_of en) = Inr s" "Prepare l s = Inr n" "Plan s = Some rules"
        "evs = map (Zeroed \<circ> e_Retirement) (dropped n l) @ converge_events rules n s" "recorded s n a'"
        "b \<longleftrightarrow> \<not> ag_applied c \<or> s_Generation s \<noteq> ag_appliedGeneration c"
      have "Cleared ` set (open_retirements n) \<subseteq> set evs" "Zeroed ` e_Retirement ` set (dropped n l) \<subseteq> set evs"
        using s(4) apply_events_cleared[of n rules] by (auto simp: converge_events_def)
      then have "ledger_moved evs l (Clear n (open_ids n))"
        using s(2) unfolding ledger_moved_def by (intro exI[of _ n]) blast
      then have "ledger_moved (Synced rep body # evs) l (Clear n (open_ids n))" by (rule ledger_moved_more) auto
      moreover have "b \<longleftrightarrow> ag_appliedGeneration a' \<noteq> ag_appliedGeneration a \<or> \<not> ag_applied a \<and> ag_lastApplied a' \<noteq> None"
        using s(5,6) c(4) by (auto simp: same_applied_def recorded_def)
      moreover have "ag_ledger a' = Some (Clear n (open_ids n))" using s(5) by (simp add: recorded_def)
      moreover have "fst (build_report en (foldCounters en w a)) = rep" using rep by simp
      ultimately show ?thesis using run s(1-5)
        by (intro exI[of _ "Synced rep body # evs"] exI[of _ "Clear n (open_ids n)"] conjI impI) blast+
    next
      fix l'
      assume "\<not> b" "same_applied c a'" "ag_ledger a' = Some l'" "ledger_moved evs l l'"
      then show ?thesis using run c(4) none ledger_moved_more[of evs l l' "Synced rep body # evs"]
        by (intro exI[of _ "Synced rep body # evs"] exI[of _ l']) (auto simp: same_applied_def)
    qed
  qed
qed

end
