(* ===== verification/Agent_Model.thy ===== *)
theory Agent_Model
  imports Agent
begin

text \<open>
  A small environment in which the agent can be run: the kernel of \<open>model_nft\<close>, whose world is
  the table it holds, an empty connection-tracking table, a state directory that takes every
  write and starts out empty, and a platform that always gives the same answer. The
  witnesses of the agent's properties are runs in it.
\<close>

definition empty_fs :: "'w fsys" where
  "empty_fs = \<lparr>fs_ReadFile = \<lambda>p w. Inl ErrNotExist, fs_Stat = \<lambda>p w. Some ErrNotExist, fs_Remove = \<lambda>p w. w,
     fs_CreateTemp = \<lambda>d pat w. (Inr ''tmp'', w), fs_Chmod = \<lambda>n w. (None, w), fs_Write = \<lambda>n b w. (None, w),
     fs_Sync = \<lambda>n w. (None, w), fs_Close = \<lambda>n w. (None, w), fs_Rename = \<lambda>n q w. (None, w),
     fs_OpenDir = \<lambda>d w. None, fs_SyncDir = \<lambda>d w. (None, w)\<rparr>"

definition empty_ct :: "'w ctlib" where
  "empty_ct = \<lparr>ct_Dial = \<lambda>w. None, ct_DumpFilter = \<lambda>m mask w. Inr [], ct_Delete = \<lambda>f w. (None, w), ct_TimedOut = \<lambda>w w'. False\<rparr>"

definition example_config :: config where
  "example_config = \<lparr>c_Limits = example_limits, c_PublicIface = ''eth0'', c_StateDir = ''/var/lib/relay'',
     c_SnapshotMaxAge = 3600000000000, c_PollInterval = 30000000000, c_SourceFile = [], c_SyncURL = [], c_SyncToken = [],
     c_Guards = quiet_guards\<rparr>"

definition model_env :: "(sync_error, jbody option) result \<Rightarrow> nl_op list env" where
  "model_env ans = \<lparr>en_cfg = example_config, en_kernel = NFTKernel model_nft, en_Clear = ct_Clear empty_ct, en_Zero = ct_Zero empty_ct,
     en_Sync = \<lambda>rep w. (ans, w), en_fs = empty_fs, en_now = \<lambda>w. 2000, en_rand = \<lambda>w. (Some (replicate 16 0), w),
     en_tt = format_int, en_pt = parse_int, en_text = \<lambda>e. ''error'', en_version = ''dev''\<rparr>"

definition model_agent :: "ledger \<Rightarrow> agent" where
  "model_agent l = (agent_New None)\<lparr>ag_ledger := Some l\<rparr>"

lemma model_env_simps [simp]:
  "en_cfg (model_env ans) = example_config" "en_kernel (model_env ans) = NFTKernel model_nft"
  "en_Clear (model_env ans) = ct_Clear empty_ct" "en_Zero (model_env ans) = ct_Zero empty_ct"
  "en_Sync (model_env ans) rep w = (ans, w)" "en_fs (model_env ans) = empty_fs" "en_pt (model_env ans) = parse_int"
  "en_rand (model_env ans) w = (Some (replicate 16 0), w)"
  by (simp_all add: model_env_def)

lemma example_config_simps [simp]:
  "c_Limits example_config = example_limits" "c_PublicIface example_config = ''eth0''" "c_Guards example_config = quiet_guards"
  by (simp_all add: example_config_def)

lemma kernel_simps [simp]:
  "kn_Apply (NFTKernel nf) = nft_Apply nf" "kn_Present (NFTKernel nf) = Present nf"
  "kn_ReadCounters (NFTKernel nf) = ReadCounters nf"
  "kn_managed (NFTKernel nf) = Some \<lparr>mk_ApplyManaged = ApplyManaged nf, mk_VerifyManaged = VerifyManaged nf,
     mk_Quarantine = ApplyQuarantine nf, mk_HasManagedState = HasManagedState nf\<rparr>"
  by (simp_all add: NFTKernel_def)

lemma empty_ct_ok [simp]: "ct_Clear empty_ct r w = (Inr (), w)" "ct_Zero empty_ct r w = (Inr (), w)" "no_flows empty_ct r w"
  by (simp_all add: ct_Clear_def ct_Zero_def withConn_def clear_flows_def zero_flows_def flows_def empty_ct_def no_flows_def)

lemma model_saves:
  "en_fs en = empty_fs \<Longrightarrow> wf_ledger l \<Longrightarrow> save_ledger en l w = (Inr (), w)"
  "en_fs en = empty_fs \<Longrightarrow> save_snapshot en s w = (Inr (), w)"
  using ledger_Validate_iff[of l "()"]
  by (simp_all add: save_ledger_def save_snapshot_def ledger_Persist_def snapshot_Persist_def ledger_body_def via_temp_def
      fill_temp_def fill_ledger_temp_def install_def call_def map_error_def empty_fs_def)

lemma model_agent_inv: "wf_ledger l \<Longrightarrow> agent_inv en (model_agent l)"
  by (simp add: model_agent_def agent_New_def agent_inv_def newCounterState_def one_entry_def)

lemma model_agent_simps [simp]:
  "ag_ledger (model_agent l) = Some l" "\<not> ag_ledgerLost (model_agent l)" "\<not> ag_applied (model_agent l)"
  "ag_lastApplied (model_agent l) = None" "ag_appliedGeneration (model_agent l) = 0" "\<not> ag_bootFailed (model_agent l)"
  by (simp_all add: model_agent_def agent_New_def)

lemmas model_saves_here [simp] = model_saves[of "model_env ans" for ans, OF model_env_simps(6)]

text \<open>The kernel of the model takes every batch, and what it holds verifies.\<close>

lemma no_guards_kept: "no_guards (effectiveGuards r g) \<Longrightarrow> burst_kept g r"
  by (simp add: no_guards_def burst_kept_def)

lemma example_unguarded:
  assumes "plan_rule (example_marked\<lparr>m_target := x\<rparr>) = Some r"
  shows "no_guards (effectiveGuards r quiet_guards)"
  using assms by (auto simp: plan_rule_def no_guards_def effectiveGuards_def override_def example_marked_def quiet_guards_def
      example_mapping_def mapping_zero_def)

lemma model_agent_apply:
  assumes "planned s = Some rules" "distinct (map ru_MappingID rules)" "ag_ledger a = Some l" "wf_ledger l"
    "list_all (burst_kept quiet_guards) rules"
  shows "\<exists>w'. agent_apply (model_env ans) s a w = Some (Inr (), a\<lparr>ag_ledger := Some (Clear l (open_ids l))\<rparr>, w')"
proof -
  have clears: "\<exists>c. clear_entries (model_env ans) es c0 v = (Inr c, v)" for es c0 v
    by (induction es arbitrary: c0) auto
  have "\<exists>a' w'. agent_apply (model_env ans) s a w = Some (Inr (), a', w')"
  proof (cases "\<not> l_Armed l \<and> Retirements l = []")
    case True
    then show ?thesis using assms model_apply[of "''eth0''" rules "[]" quiet_guards w]
      by (auto simp: agent_apply_def nft_Apply_def map_error_def)
  next
    case False
    obtain v where v: "ApplyManaged model_nft ''eth0'' rules (Retirements l) quiet_guards w = (Inr (), v)"
      using model_apply by blast
    have ver: "VerifyManaged model_nft ''eth0'' rules (Retirements l) quiet_guards v = Inr ()"
      using ApplyManaged_verifies[OF model_kernel_commits assms(2) v] assms(5) by simp
    obtain c where "clear_entries (model_env ans) (slice_of (l_Entries l)) {} v = (Inr c, v)" using clears by blast
    then show ?thesis using False assms v ver by (auto simp: agent_apply_def apply_managed_def)
  qed
  then show ?thesis using agent_apply_cases[OF _ assms(3,4)] by fastforce
qed

lemma model_boot:
  "\<exists>a w'. BootReapply (model_env ans) (agent_New None) [] = Some (Inr (), a, w') \<and> ag_applied a \<and> ag_lastApplied a = None"
proof -
  let ?e = "model_env ans"
  obtain l where l: "New (Some (replicate 16 0)) = Some l" "wf_ledger l"
    using new_ledger_valid[of "replicate 16 0"] by (auto simp: ledger_Validate_iff)
  have "HasManagedState model_nft [] = Inr False" by (simp add: HasManagedState_def Present_def model_nft_def read_nft_def rbind_def)
  then have "read_ledger ?e None [] = (Inr l, [])"
    using l by (simp add: read_ledger_def ledger_Load_def fresh_ledger_def prove_legacy_def empty_fs_def Let_def)
  then have "loadLedger ?e None (agent_New None) [] = Some (Inr (), (agent_New None)\<lparr>ag_ledger := Some l\<rparr>, [])"
    by (simp add: loadLedger_def)
  moreover obtain w' where "agent_apply ?e None (foldCounters ?e [] ((agent_New None)\<lparr>ag_ledger := Some l\<rparr>)) []
      = Some (Inr (), (foldCounters ?e [] ((agent_New None)\<lparr>ag_ledger := Some l\<rparr>))\<lparr>ag_ledger := Some (Clear l (open_ids l))\<rparr>, w')"
    using model_agent_apply[of None "[]" "foldCounters ?e [] ((agent_New None)\<lparr>ag_ledger := Some l\<rparr>)" l ans "[]"] l
    by (auto simp: planned_def)
  ultimately show ?thesis by (simp add: BootReapply_def LoadPersisted_def empty_fs_def boot_converge_def)
qed

text \<open>An answer with a managed snapshot advances an agent with a fresh ledger.\<close>

lemma model_advance:
  "\<exists>body s a' w'. Parse parse_int body example_limits = Inr s
     \<and> s_Mappings s = Some [example_marked\<lparr>m_target := target_addr example_marked\<rparr>]
     \<and> cycle (model_env (Inr (Some body))) (model_agent example_ledger) [] = Some (True, a', w') \<and> ag_lastApplied a' = Some s"
proof -
  let ?m = "example_marked\<lparr>m_target := target_addr example_marked\<rparr>"
  obtain body s where s: "Parse parse_int body example_limits = Inr s" "Prepare example_ledger s = Inr example_active"
    "s_Mappings s = Some [?m]" using example_parse_managed by blast
  let ?e = "model_env (Inr (Some body))"
  obtain rep c where rep: "build_report ?e (foldCounters ?e [] (model_agent example_ledger)) = (rep, c)" by fastforce
  then have c: "ag_ledger c = Some example_ledger" "\<not> ag_ledgerLost c" "\<not> ag_applied c"
    using build_report_simps[of ?e "foldCounters ?e [] (model_agent example_ledger)"] by simp_all
  have plan: "Plan s = Some [rule_of ?m]" using Plan_wf Parse_wf[OF s(1)] s(3) by fastforce
  have kept: "burst_kept quiet_guards (rule_of ?m)"
    using example_unguarded parsed_rules(3)[OF s(1,3), of ?m] by (auto intro: no_guards_kept)
  let ?d = "(foldCounters ?e [] c)\<lparr>ag_ledger := Some example_active\<rparr>"
  obtain w' where ap: "agent_apply ?e (Some s) ?d [] = Some (Inr (), ?d\<lparr>ag_ledger := Some (Clear example_active (open_ids example_active))\<rparr>, w')"
    using model_agent_apply[of "Some s" "[rule_of ?m]" ?d example_active] plan kept example_ledgers_wf(2) by (auto simp: planned_def)
  have armed: "l_Armed example_active" by (simp add: example_active_def)
  have "l_Entries example_ledger = Some []" by (simp add: example_ledger_def)
  then have "cycle ?e (model_agent example_ledger) [] = converge ?e example_active s c []"
    using rep c s(1,2) by (simp add: cycle_def handle_changed_def)
  also have "\<dots> = Some (fst (record_applied s (?d\<lparr>ag_ledger := Some (Clear example_active (open_ids example_active))\<rparr>)),
      snd (record_applied s (?d\<lparr>ag_ledger := Some (Clear example_active (open_ids example_active))\<rparr>)), w')"
    using ap armed example_ledgers_wf(2) by (simp add: converge_def persist_ahead_def Let_def split: prod.split)
  finally show ?thesis using s(1,3) c(3) by (intro exI[of _ body] exI[of _ s]) (simp add: record_applied_def Let_def)
qed

end
