(* ===== verification/Agent_Correct.thy ===== *)
theory Agent_Correct
  imports Agent_Trace Agent_Model
begin

text \<open>
  The properties of the agent: its invariant over every history of boots, cycles and changes of
  the world outside it, what a cycle may do to the kernel, the ledger and the reported
  generation, the order in which it does it, and what a lost ledger leaves it able to do.
\<close>

subsection \<open>Histories\<close>

text \<open>
  A history starts with a boot of a new agent. Then cycles and changes of the world by others
  (traffic, an operator, the platform) follow each other in any order.
\<close>

inductive reachable :: "'w env \<Rightarrow> agent \<Rightarrow> 'w \<Rightarrow> bool" for en where
  booted: "BootReapply en (agent_New rnd) w = Some (r, a, w') \<Longrightarrow> reachable en a w'"
| drifted: "reachable en a w \<Longrightarrow> reachable en a w'"
| cycled: "reachable en a w \<Longrightarrow> cycle en a w = Some (b, a', w') \<Longrightarrow> reachable en a' w'"

lemma reachable_inv: "reachable en a w \<Longrightarrow> agent_inv en a"
proof (induction rule: reachable.induct)
  case (booted rnd w r a w')
  then show ?case using BootReapply_inv[OF unbooted_New[of rnd], of en w] by auto
next
  case (cycled a w b a' w')
  then show ?case using cycle_inv[of en a w] by auto
qed

text \<open>A lost ledger stays lost, and nothing is ever recorded as applied with it.\<close>

lemma lost_cycle:
  assumes "ag_ledgerLost a"
  shows "cycle en a w = (case build_report en (foldCounters en w a) of (rep, c) \<Rightarrow>
    Some (False, c, ensureQuarantine en (snd (en_Sync en rep w))))"
proof -
  obtain rep c where rep: "build_report en (foldCounters en w a) = (rep, c)" by fastforce
  then have "ag_ledgerLost c" using assms build_report_simps(2)[of en "foldCounters en w a"] by simp
  then show ?thesis using rep by (simp add: cycle_def split: prod.split)
qed

lemma not_lost_ledger: "agent_inv en a \<Longrightarrow> \<not> ag_ledgerLost a \<Longrightarrow> \<exists>l. ag_ledger a = Some l \<and> wf_ledger l"
  by (simp add: agent_inv_def)

subsection \<open>The invariant\<close>

lemma runOnce_inv:
  assumes "agent_inv en a"
  shows "\<exists>a' w'. runOnce en a w = Some (a', w') \<and> agent_inv en a' \<and> ag_ledgerLost a' = ag_ledgerLost a"
proof -
  obtain b c v where c: "cycle en a w = Some (b, c, v)" "agent_inv en c" "ag_ledgerLost c = ag_ledgerLost a"
    using cycle_inv[OF assms] by blast
  with cycle_inv[OF c(2), of v] show ?thesis by (cases b) (auto simp: runOnce_def)
qed

lemma Run_inv: "agent_inv en a \<Longrightarrow> \<exists>a' w'. Run en ticks a w = Some (a', w') \<and> agent_inv en a' \<and> ag_ledgerLost a' = ag_ledgerLost a"
proof (induction ticks arbitrary: a w)
  case 0
  then show ?case using runOnce_inv[of en a w] by simp
next
  case (Suc ticks)
  obtain c v where c: "runOnce en a w = Some (c, v)" "agent_inv en c" "ag_ledgerLost c = ag_ledgerLost a"
    using runOnce_inv[OF Suc.prems] by blast
  then show ?case using Suc.IH[OF c(2), of v] by auto
qed

text \<open>
  C5: in every state that boots, cycles and outside changes can lead to, the generation the
  agent reports is that of the snapshot it last applied, which is well formed, or 0 with
  nothing applied; while the ledger is not lost it is a valid ledger; with a lost ledger
  nothing counts as applied; and from every such state any number of polls runs to its end
  (no nil dereference, no panic in the plan) and keeps all this.
\<close>

theorem agent_invariant:
  assumes "reachable en a w"
  shows "ag_appliedGeneration a = (case ag_lastApplied a of None \<Rightarrow> 0 | Some s \<Rightarrow> s_Generation s)
    \<and> (\<forall>s. ag_lastApplied a = Some s \<longrightarrow> ag_applied a \<and> wf_snapshot (limits_of en) s)
    \<and> (if ag_ledgerLost a then \<not> ag_applied a else (\<exists>l. ag_ledger a = Some l \<and> wf_ledger l))
    \<and> (\<exists>a' w'. Run en ticks a v = Some (a', w') \<and> agent_inv en a' \<and> ag_ledgerLost a' = ag_ledgerLost a)"
proof -
  have inv: "agent_inv en a" using assms by (rule reachable_inv)
  then have "\<exists>a' w'. Run en ticks a v = Some (a', w') \<and> agent_inv en a' \<and> ag_ledgerLost a' = ag_ledgerLost a"
    by (rule Run_inv)
  with inv show ?thesis unfolding agent_inv_def good_snapshot_def by auto
qed

lemma agent_invariant_witness:
  "\<exists>a w a' w'. reachable (model_env (Inr None)) a w \<and> ag_applied a \<and> ag_appliedGeneration a = 0
     \<and> Run (model_env (Inr None)) 3 a w = Some (a', w') \<and> agent_inv (model_env (Inr None)) a'"
proof -
  obtain a w where boot: "BootReapply (model_env (Inr None)) (agent_New None) [] = Some (Inr (), a, w)" "ag_applied a" "ag_lastApplied a = None"
    using model_boot by blast
  from agent_invariant[OF booted[OF boot(1)], of 3 w] booted[OF boot(1)] boot(2,3) show ?thesis by auto
qed

subsection \<open>What moves the ledger\<close>

lemma Prepare_entries:
  assumes "Prepare l s = Inr n" "wf_ledger l"
  shows "e \<in> set (slice_of (l_Entries n)) \<Longrightarrow> e \<in> set (slice_of (l_Entries l)) \<or> \<not> e_Cleared e"
    and "e \<in> set (slice_of (l_Entries l)) \<Longrightarrow> e \<in> set (slice_of (l_Entries n)) \<or> e_Cleared e"
proof (atomize (full), cases "s_Retirements s")
  case None
  with legacy_Prepare[OF assms(1)] show "(e \<in> set (slice_of (l_Entries n)) \<longrightarrow> e \<in> set (slice_of (l_Entries l)) \<or> \<not> e_Cleared e)
    \<and> (e \<in> set (slice_of (l_Entries l)) \<longrightarrow> e \<in> set (slice_of (l_Entries n)) \<or> e_Cleared e)" by simp
next
  case (Some rs)
  from Prepare_InrD[OF assms(1) Some assms(2)] obtain ack new where "n = prepared l s ack new" "ack_ok l ack" by blast
  then show "(e \<in> set (slice_of (l_Entries n)) \<longrightarrow> e \<in> set (slice_of (l_Entries l)) \<or> \<not> e_Cleared e)
    \<and> (e \<in> set (slice_of (l_Entries l)) \<longrightarrow> e \<in> set (slice_of (l_Entries n)) \<or> e_Cleared e)"
    by (auto simp: prepared_def Let_def kept_entries_def ack_ok_def)
qed

lemma set_Clear: "set (slice_of (l_Entries (Clear n I))) =
    (\<lambda>e. if r_RetirementID (e_Retirement e) \<in> I then e\<lparr>e_Cleared := True\<rparr> else e) ` set (slice_of (l_Entries n))"
  by (cases "l_Entries n") (simp_all add: Clear_def)

lemma Clear_open_entries:
  assumes "e' \<in> set (slice_of (l_Entries (Clear n (open_ids n))))"
  shows "\<exists>e\<in>set (slice_of (l_Entries n)). e_Retirement e' = e_Retirement e
    \<and> (e' = e \<or> e_Retirement e' \<in> set (open_retirements n))"
proof -
  from assms obtain e where e: "e \<in> set (slice_of (l_Entries n))"
    "e' = (if r_RetirementID (e_Retirement e) \<in> open_ids n then e\<lparr>e_Cleared := True\<rparr> else e)" by (auto simp: set_Clear)
  have "e_Retirement e \<in> set (open_retirements n)" if "\<not> e_Cleared e" using that e(1) by (auto simp: open_retirements_def)
  moreover have "e' = e" if "e_Cleared e" using that e(2) by (cases e) simp
  moreover have "e_Retirement e' = e_Retirement e" using e(2) by simp
  ultimately show ?thesis using e(1) by (intro bexI[of _ e]) (cases "e_Cleared e"; simp)
qed

lemma ledger_moved_entries:
  assumes "wf_ledger l" "ledger_moved evs l l'"
  shows "e' \<in> set (slice_of (l_Entries l')) \<Longrightarrow> e_Cleared e' \<Longrightarrow>
      e' \<in> set (slice_of (l_Entries l)) \<or> Cleared (e_Retirement e') \<in> set evs"
    and "e \<in> set (slice_of (l_Entries l)) \<Longrightarrow>
      r_RetirementID (e_Retirement e) \<in> r_RetirementID ` set (Retirements l')
      \<or> e_Cleared e \<and> Zeroed (e_Retirement e) \<in> set evs"
proof -
  obtain n where n: "n = l \<or> (\<exists>s. Prepare l s = Inr n \<and> Zeroed ` e_Retirement ` set (dropped n l) \<subseteq> set evs)"
    and l': "l' = n \<or> (l' = Clear n (open_ids n) \<and> Cleared ` set (open_retirements n) \<subseteq> set evs)"
    using assms(2) unfolding ledger_moved_def by blast
  have new: "x \<in> set (slice_of (l_Entries l)) \<or> \<not> e_Cleared x" if "x \<in> set (slice_of (l_Entries n))" for x
    using n Prepare_entries(1)[OF _ assms(1)] that by blast
  show "e' \<in> set (slice_of (l_Entries l)) \<or> Cleared (e_Retirement e') \<in> set evs"
    if e': "e' \<in> set (slice_of (l_Entries l'))" "e_Cleared e'"
  proof (cases "l' = n")
    case True
    then show ?thesis using e' new by blast
  next
    case False
    then show ?thesis using l' Clear_open_entries[of e' n] e' new by blast
  qed
  have same: "Retirements l' = Retirements n" using l' by auto
  show "r_RetirementID (e_Retirement e) \<in> r_RetirementID ` set (Retirements l') \<or> e_Cleared e \<and> Zeroed (e_Retirement e) \<in> set evs"
    if e: "e \<in> set (slice_of (l_Entries l))"
  proof (cases "r_RetirementID (e_Retirement e) \<in> r_RetirementID ` set (Retirements n)")
    case True
    then show ?thesis using same by simp
  next
    case False
    then have "\<forall>x\<in>set (slice_of (l_Entries n)). r_RetirementID (e_Retirement x) \<noteq> r_RetirementID (e_Retirement e)"
      by (auto simp: Retirements_def image_image intro: rev_image_eqI)
    then have out: "e \<in> set (dropped n l)" "e \<notin> set (slice_of (l_Entries n))"
      using e by (auto simp: dropped_def list_ex_iff)
    then have "n \<noteq> l" using e by blast
    with n obtain s where s: "Prepare l s = Inr n" "Zeroed ` e_Retirement ` set (dropped n l) \<subseteq> set evs" by blast
    then show ?thesis using out e Prepare_entries(2)[OF s(1) assms(1) e] by blast
  qed
qed

text \<open>A moment of a run.\<close>

definition during :: "'w env \<Rightarrow> ('w \<Rightarrow> bool) \<Rightarrow> 'w \<Rightarrow> 'w \<Rightarrow> bool" where
  "during en P w w' \<longleftrightarrow> (\<exists>pre post v. runs en pre w v \<and> P v \<and> runs en post v w')"

lemma during_event:
  assumes "runs en evs w w'" "ev \<in> set evs"
  shows "\<exists>u v pre post. runs en pre w u \<and> happens en ev u v \<and> runs en post v w'"
proof -
  obtain xs ys where "evs = xs @ ev # ys" using assms(2) by (auto dest: split_list)
  with assms(1) show ?thesis by (simp add: runs_append) blast
qed

text \<open>
  The agent over a conntrack controller that keeps its contract: an event of a cycle shows a
  moment at which the retired flows were gone.
\<close>

locale conntrack_agent = controller "en_Clear en" "en_Zero en" none_left
  for en :: "'w env" and none_left :: "retirement \<Rightarrow> 'w \<Rightarrow> bool"
begin

lemma cleared_moment:
  assumes "runs en evs w w'" "Cleared r \<in> set evs"
  shows "during en (none_left r) w w'"
proof -
  obtain u v pre post where e: "runs en pre w u" "en_Clear en r u = (Inr (), v)" "runs en post v w'"
    using during_event[OF assms] by auto
  then have "runs en (pre @ [Cleared r]) w v" by (intro runs_trans[OF e(1)]) simp
  then show ?thesis using clear_ok[OF e(2)] e(3) unfolding during_def by blast
qed

lemma zeroed_moment:
  assumes "runs en evs w w'" "Zeroed r \<in> set evs"
  shows "during en (none_left r) w w'"
proof -
  obtain u v pre post where e: "runs en pre w u" "en_Zero en r u = (Inr (), v)" "runs en post v w'"
    using during_event[OF assms] by auto
  then show ?thesis using zero_ok[OF e(2)] unfolding during_def by blast
qed

lemma entries_confirmed:
  assumes "wf_ledger l" "ledger_moved evs l l'" "runs en evs w w'"
  shows "e' \<in> set (ClearedEntries l') \<Longrightarrow> e' \<in> set (slice_of (l_Entries l)) \<or> during en (none_left (e_Retirement e')) w w'"
    and "e \<in> set (slice_of (l_Entries l)) \<Longrightarrow> r_RetirementID (e_Retirement e) \<notin> r_RetirementID ` set (Retirements l') \<Longrightarrow>
      e_Cleared e \<and> during en (none_left (e_Retirement e)) w w'"
  subgoal using ledger_moved_entries(1)[OF assms(1,2)] cleared_moment[OF assms(3)] by (auto simp: ClearedEntries_def)
  subgoal using ledger_moved_entries(2)[OF assms(1,2)] zeroed_moment[OF assms(3)] by blast
  done

end

interpretation netlink_agent: conntrack_agent "base\<lparr>en_Clear := ct_Clear ct, en_Zero := ct_Zero ct\<rparr>" "no_flows ct"
  for base :: "'w env" and ct :: "'w ctlib"
  by unfold_locales (use netlink.clear_ok netlink.zero_ok in fastforce)+

text \<open>
  C4: with the netlink controller, an entry is reported cleared after a cycle only if it was
  before, or there was a moment in the cycle at which connection tracking held no flow of
  it; and an entry is forgotten only if it was cleared and, again, there was a moment in
  this cycle at which no flow of it was left.
\<close>

theorem retirement_lifecycle:
  assumes "agent_inv en a" "\<not> ag_ledgerLost a" "ag_ledger a = Some l"
    "en = base\<lparr>en_Clear := ct_Clear ct, en_Zero := ct_Zero ct\<rparr>" "cycle en a w = Some (b, a', w')"
  shows "\<exists>l'. ag_ledger a' = Some l'
    \<and> (\<forall>e\<in>set (ClearedEntries l'). e \<in> set (slice_of (l_Entries l)) \<or> during en (no_flows ct (e_Retirement e)) w w')
    \<and> (\<forall>e\<in>set (slice_of (l_Entries l)). r_RetirementID (e_Retirement e) \<in> r_RetirementID ` set (Retirements l')
         \<or> e_Cleared e \<and> during en (no_flows ct (e_Retirement e)) w w')"
proof -
  obtain evs l' where r: "runs en evs w w'" "ag_ledger a' = Some l'" "ledger_moved evs l l'"
    using cycle_runs[OF assms(1-3,5)] by blast
  have "wf_ledger l" using assms(1-3) by (auto simp: agent_inv_def)
  note c = netlink_agent.entries_confirmed[OF this r(3) r(1)[unfolded assms(4)]]
  show ?thesis using r(2) c unfolding assms(4) by blast
qed

lemma retirement_lifecycle_witness:
  "\<exists>a' w' l'. cycle (model_env (Inr None)) ((model_agent example_outstanding)\<lparr>ag_applied := True\<rparr>) [] = Some (False, a', w')
     \<and> ag_ledger a' = Some l' \<and> map e_Retirement (ClearedEntries l') = [example_retirement]
     \<and> during (model_env (Inr None)) (no_flows empty_ct example_retirement) [] w'"
proof -
  let ?e = "model_env (Inr None)" and ?a = "(model_agent example_outstanding)\<lparr>ag_applied := True\<rparr>"
  have inv: "agent_inv ?e ?a"
    using example_ledgers_wf(3) by (simp add: model_agent_def agent_New_def agent_inv_def newCounterState_def one_entry_def)
  have es: "l_Entries example_outstanding = Some [fresh_entry example_retirement]" by (simp add: example_outstanding_def)
  obtain rep c where rep: "build_report ?e (foldCounters ?e [] ?a) = (rep, c)" by fastforce
  then have c: "ag_ledger c = Some example_outstanding" "\<not> ag_ledgerLost c" "ag_applied c" "ag_lastApplied c = None"
    using build_report_simps[of ?e "foldCounters ?e [] ?a"] by simp_all
  obtain w' where "agent_apply ?e None (c\<lparr>ag_lastErr := None\<rparr>) []
      = Some (Inr (), c\<lparr>ag_lastErr := None, ag_ledger := Some (Clear example_outstanding (open_ids example_outstanding))\<rparr>, w')"
    using model_agent_apply[of None "[]" "c\<lparr>ag_lastErr := None\<rparr>" example_outstanding "Inr None" "[]"] c example_ledgers_wf(3)
    by (auto simp: planned_def)
  moreover have "Present model_nft [] = Inr False" by (simp add: Present_def model_nft_def read_nft_def rbind_def)
  ultimately obtain a' where run: "cycle ?e ?a [] = Some (False, a', w')"
    "ag_ledger a' = Some (Clear example_outstanding (open_ids example_outstanding))"
    using rep c by (simp add: cycle_def ensureAsserted_def)
  have env: "?e = ?e\<lparr>en_Clear := ct_Clear empty_ct, en_Zero := ct_Zero empty_ct\<rparr>" by (simp add: model_env_def)
  have cl: "ClearedEntries (Clear example_outstanding (open_ids example_outstanding))
      = [(fresh_entry example_retirement)\<lparr>e_Cleared := True\<rparr>]"
    using es by (simp add: ClearedEntries_def Clear_def open_ids_def)
  from retirement_lifecycle[OF inv _ _ env run(1)] run(2) cl es
  have "during ?e (no_flows empty_ct example_retirement) [] w'" by (simp add: model_agent_def agent_New_def)
  with run cl show ?thesis by simp
qed

subsection \<open>The ledger over a run\<close>

lemma ledger_moved_steps:
  assumes "ledger_moved evs l l'"
  shows "ledger_step\<^sup>*\<^sup>* l l'"
proof -
  obtain n where "n = l \<or> (\<exists>s. Prepare l s = Inr n)" "l' = n \<or> l' = Clear n (open_ids n)"
    using assms unfolding ledger_moved_def by blast
  then have "ledger_step\<^sup>*\<^sup>* l n" "ledger_step\<^sup>*\<^sup>* n l'" using step_prepare step_clear by blast+
  then show ?thesis by (rule rtranclp_trans)
qed

lemma cycle_steps:
  assumes "agent_inv en a" "\<not> ag_ledgerLost a" "ag_ledger a = Some l" "cycle en a w = Some (b, a', w')"
  shows "\<exists>l'. ag_ledger a' = Some l' \<and> ledger_step\<^sup>*\<^sup>* l l' \<and> agent_inv en a' \<and> \<not> ag_ledgerLost a'"
  using cycle_runs[OF assms] ledger_moved_steps cycle_inv[OF assms(1), of w] assms(2,4) by fastforce

lemma runOnce_steps:
  assumes "agent_inv en a" "\<not> ag_ledgerLost a" "ag_ledger a = Some l" "runOnce en a w = Some (a', w')"
  shows "\<exists>l'. ag_ledger a' = Some l' \<and> ledger_step\<^sup>*\<^sup>* l l' \<and> agent_inv en a' \<and> \<not> ag_ledgerLost a'"
proof -
  obtain b c v where c: "cycle en a w = Some (b, c, v)" using assms(4) by (auto simp: runOnce_def split: bind_splits)
  from cycle_steps[OF assms(1-3) c] obtain m where m: "ag_ledger c = Some m" "ledger_step\<^sup>*\<^sup>* l m" "agent_inv en c" "\<not> ag_ledgerLost c"
    by blast
  show ?thesis
  proof (cases b)
    case True
    then obtain b' where "cycle en c v = Some (b', a', w')" using assms(4) c by (auto simp: runOnce_def split: bind_splits)
    from cycle_steps[OF m(3,4,1) this] m(2) show ?thesis by (blast intro: rtranclp_trans)
  next
    case False
    then show ?thesis using assms(4) c m by (simp add: runOnce_def)
  qed
qed

lemma Run_steps:
  "agent_inv en a \<Longrightarrow> \<not> ag_ledgerLost a \<Longrightarrow> ag_ledger a = Some l \<Longrightarrow> Run en ticks a w = Some (a', w') \<Longrightarrow>
   \<exists>l'. ag_ledger a' = Some l' \<and> ledger_step\<^sup>*\<^sup>* l l'"
proof (induction ticks arbitrary: a w l)
  case 0
  then show ?case using runOnce_steps by fastforce
next
  case (Suc ticks)
  then obtain c v where c: "runOnce en a w = Some (c, v)" "Run en ticks c v = Some (a', w')" by (auto split: bind_splits)
  from runOnce_steps[OF Suc.prems(1-3) c(1)] obtain m where
    m: "ag_ledger c = Some m" "ledger_step\<^sup>*\<^sup>* l m" "agent_inv en c" "\<not> ag_ledgerLost c" by blast
  from Suc.IH[OF m(3,4,1) c(2)] m(2) show ?case by (blast intro: rtranclp_trans)
qed

text \<open>
  C12: any number of polls moves the agent's ledger by the steps of the ledger alone (preparing
  a snapshot, recording cleared retirements). So no high-water mark falls, the ledger id
  stays, and a mapping id or flow mark at or below its high-water mark that is not active
  before the run is not active after it, whatever the platform answers.
\<close>

theorem agent_ledger_history:
  assumes "agent_inv en a" "\<not> ag_ledgerLost a" "ag_ledger a = Some l" "Run en ticks a w = Some (a', w')"
  shows "\<exists>l'. ag_ledger a' = Some l' \<and> ledger_step\<^sup>*\<^sup>* l l' \<and> wf_ledger l'
    \<and> l_MappingIDHighWater l \<le> l_MappingIDHighWater l' \<and> l_FlowMarkHighWater l \<le> l_FlowMarkHighWater l'
    \<and> (\<forall>i\<le>l_MappingIDHighWater l. epochs_by_id l i = None \<longrightarrow> epochs_by_id l' i = None)
    \<and> (\<forall>k\<le>l_FlowMarkHighWater l. epochs_by_mark l k = None \<longrightarrow> epochs_by_mark l' k = None)"
proof -
  have wf: "wf_ledger l" using assms(1-3) by (auto simp: agent_inv_def)
  obtain l' where l': "ag_ledger a' = Some l'" "ledger_step\<^sup>*\<^sup>* l l'" using Run_steps[OF assms] by blast
  show ?thesis
    using l' id_history.run_inv[OF l'(2) wf] mark_history.run_inv[OF l'(2) wf]
      id_history.not_admitted_again[OF l'(2) wf] mark_history.not_admitted_again[OF l'(2) wf] by blast
qed

lemma agent_ledger_history_witness:
  "\<exists>a' w' l'. Run (model_env (Inr None)) 2 (model_agent example_outstanding) [] = Some (a', w') \<and> ag_ledger a' = Some l'
     \<and> 101 \<le> l_MappingIDHighWater l' \<and> epochs_by_id l' 101 = None"
proof -
  have inv: "agent_inv (model_env (Inr None)) (model_agent example_outstanding)" by (rule model_agent_inv[OF example_ledgers_wf(3)])
  obtain a' w' where run: "Run (model_env (Inr None)) 2 (model_agent example_outstanding) [] = Some (a', w')"
    using Run_inv[OF inv] by blast
  have "l_MappingIDHighWater example_outstanding = 101" "epochs_by_id example_outstanding 101 = None"
    by (simp_all add: example_outstanding_def example_active_def epochs_by_id_def epoch_map_def)
  with agent_ledger_history[OF inv _ _ run, of example_outstanding] run show ?thesis by auto
qed

subsection \<open>Generations\<close>

text \<open>
  C6: what a cycle answers about the generation. If something was applied before, it answers
  true exactly when the applied generation has changed; after a boot that applied nothing,
  exactly when the cycle applied a snapshot, also one whose generation is the initial 0. A
  cycle that answers true holds a snapshot and the generation of that snapshot. In every other
  cycle (a failed exchange, a rejected snapshot, a failed write, a failed apply, a repair) the
  applied generation stays frozen.
\<close>

theorem generation_exact:
  assumes "agent_inv en a" "cycle en a w = Some (b, a', w')"
  shows "(if ag_applied a then b \<longleftrightarrow> ag_appliedGeneration a' \<noteq> ag_appliedGeneration a else b \<longleftrightarrow> ag_lastApplied a' \<noteq> None)
    \<and> (if b then ag_applied a' \<and> (\<exists>s. ag_lastApplied a' = Some s \<and> ag_appliedGeneration a' = s_Generation s)
       else ag_appliedGeneration a' = ag_appliedGeneration a)"
proof (cases "ag_ledgerLost a")
  case True
  then have "\<not> b" "a' = snd (build_report en (foldCounters en w a))" using assms(2) by (auto simp: lost_cycle split: prod.splits)
  moreover have "ag_lastApplied a = None" using True assms(1) by (auto simp: agent_inv_def)
  ultimately show ?thesis by simp
next
  case False
  then obtain l where "ag_ledger a = Some l" using not_lost_ledger[OF assms(1)] by blast
  note runs = cycle_runs[OF assms(1) False this assms(2)]
  have "ag_applied a' \<and> (\<exists>s. ag_lastApplied a' = Some s \<and> ag_appliedGeneration a' = s_Generation s)" if b
    using runs that by (auto simp: recorded_def)
  then show ?thesis using runs by (auto split: if_splits)
qed

lemma generation_exact_witness:
  "\<exists>body s a' w'. cycle (model_env (Inr (Some body))) (model_agent example_ledger) [] = Some (True, a', w')
     \<and> ag_lastApplied a' = Some s \<and> ag_appliedGeneration a' = s_Generation s"
proof -
  obtain body a' w' where run: "cycle (model_env (Inr (Some body))) (model_agent example_ledger) [] = Some (True, a', w')"
    using model_advance by blast
  from generation_exact[OF model_agent_inv[OF example_ledgers_wf(1)] run] run show ?thesis by auto
qed

text \<open>
  C2: the order of a cycle that advances. It exchanges one report, confirms every entry the
  new ledger drops, writes an armed ledger and then the snapshot ahead of the kernel,
  replaces the table, reads a managed table back, clears every open retirement and records
  that in the ledger file: each step succeeded, in this order, with nothing in between. An
  unmanaged snapshot is applied first and its file written (or tried) last. The agent then
  holds this snapshot with no error left.
\<close>

theorem write_ahead_order:
  assumes "agent_inv en a" "\<not> ag_ledgerLost a" "ag_ledger a = Some l" "cycle en a w = Some (True, a', w')"
  shows "\<exists>body s n rules. Parse (en_pt en) body (limits_of en) = Inr s \<and> Prepare l s = Inr n \<and> Plan s = Some rules
    \<and> runs en ([Synced (fst (build_report en (foldCounters en w a))) body] @ map (Zeroed \<circ> e_Retirement) (dropped n l)
        @ (if l_Armed n then [LedgerSaved n, SnapshotSaved s] else [])
        @ (if managed_ledger n
           then [ManagedReplaced rules (Retirements n), ManagedVerified rules (Retirements n)]
                @ map Cleared (open_retirements n) @ [LedgerSaved (Clear n (open_ids n))]
           else [TableReplaced rules])
        @ (if l_Armed n then [] else [SnapshotTried s])) w w'
    \<and> ag_applied a' \<and> ag_appliedGeneration a' = s_Generation s \<and> ag_lastApplied a' = Some s \<and> ag_lastErr a' = None
    \<and> ag_ledger a' = Some (Clear n (open_ids n))"
proof -
  obtain body s n rules where "Parse (en_pt en) body (limits_of en) = Inr s" "Prepare l s = Inr n" "Plan s = Some rules"
    "runs en (Synced (fst (build_report en (foldCounters en w a))) body # map (Zeroed \<circ> e_Retirement) (dropped n l)
        @ converge_events rules n s) w w'" "recorded s n a'"
    using cycle_runs[OF assms] by blast
  then show ?thesis unfolding converge_events_def apply_events_def recorded_def
    by (intro exI[of _ body] exI[of _ s] exI[of _ n] exI[of _ rules]) simp
qed

lemma write_ahead_order_witness:
  "\<exists>body s a' w'. cycle (model_env (Inr (Some body))) (model_agent example_ledger) [] = Some (True, a', w')
     \<and> Parse parse_int body example_limits = Inr s \<and> ag_appliedGeneration a' = s_Generation s \<and> ag_lastErr a' = None"
proof -
  obtain body s a' w' where run: "Parse parse_int body example_limits = Inr s"
    "cycle (model_env (Inr (Some body))) (model_agent example_ledger) [] = Some (True, a', w')"
    "ag_lastApplied a' = Some s" using model_advance by blast
  from write_ahead_order[OF model_agent_inv[OF example_ledgers_wf(1)] _ _ run(2), of example_ledger] run show ?thesis by auto
qed

subsection \<open>A lost ledger\<close>

text \<open>
  C9: with a lost ledger a cycle, whatever the platform answers, only exchanges a report and
  renews the quarantine. The report claims generation 0 and no retirement capability, the
  loss and the retained error stay, and nothing else of the agent but its counters changes.
\<close>

theorem lost_only_quarantines:
  assumes "agent_inv en a" "ag_ledgerLost a"
  shows "\<exists>rep a'. cycle en a w = Some (False, a', ensureQuarantine en (snd (en_Sync en rep w)))
    \<and> rp_AppliedGeneration rep = 0 \<and> rp_Capabilities rep = [Capability] \<and> rp_LastError rep = ag_lastErr a
    \<and> ag_ledgerLost a' \<and> \<not> ag_applied a' \<and> ag_lastErr a' = ag_lastErr a \<and> ag_ledger a' = ag_ledger a"
proof -
  obtain rep a' where rep: "build_report en (foldCounters en w a) = (rep, a')" by fastforce
  have none: "ag_appliedGeneration a = 0" "\<not> ag_applied a" using assms by (auto simp: agent_inv_def)
  have "ag_ledgerLost a'" "\<not> ag_applied a'" "ag_lastErr a' = ag_lastErr a" "ag_ledger a' = ag_ledger a"
    using build_report_simps[of en "foldCounters en w a"] rep none assms(2) by simp_all
  moreover have "rp_AppliedGeneration rep = 0" "rp_Capabilities rep = [Capability]" "rp_LastError rep = ag_lastErr a"
    using rep none assms(2) by (auto simp: build_report_def Let_def split: option.splits)
  moreover have "cycle en a w = Some (False, a', ensureQuarantine en (snd (en_Sync en rep w)))"
    using lost_cycle[OF assms(2), of en w] rep by simp
  ultimately show ?thesis by blast
qed

lemma lost_only_quarantines_witness:
  "\<exists>a'. cycle (model_env (Inr None)) ((agent_New None)\<lparr>ag_ledgerLost := True\<rparr>) []
     = Some (False, a', quarantine_batch model_nft ''eth0'') \<and> ag_ledgerLost a'"
proof -
  have inv: "agent_inv (model_env (Inr None)) ((agent_New None)\<lparr>ag_ledgerLost := True\<rparr>)"
    by (simp add: agent_inv_def agent_New_def newCounterState_def one_entry_def)
  have q: "ensureQuarantine (model_env (Inr None)) [] = quarantine_batch model_nft ''eth0''"
    by (simp add: ensureQuarantine_def ApplyQuarantine_def flush_batch_def model_nft_def split: sum.split)
  from lost_only_quarantines[OF inv, of "[]"] q show ?thesis by auto
qed

subsection \<open>Boot\<close>

lemma boot_cases:
  assumes "BootReapply en (agent_New rnd) w = Some (r, a, w')"
  obtains (lost) e b v where "r = Inl e" "a = noteBootFailure en e b" "agent_inv en b" "ag_ledgerLost b" "w' = ensureQuarantine en v"
  | (converged) wrap s b v where "boot_converge en wrap s b v = Some (r, a, w')" "agent_inv en b" "\<not> ag_ledgerLost b" "\<not> ag_applied b"
      "\<And>x. s = Some x \<Longrightarrow> LoadPersisted (en_pt en) (fs_ReadFile (en_fs en) (snapshot_path en) w) (limits_of en)
        (c_SnapshotMaxAge (en_cfg en)) (en_now en w) = Inr x"
proof -
  define loaded where "loaded = LoadPersisted (en_pt en) (fs_ReadFile (en_fs en) (snapshot_path en) w) (limits_of en)
                     (c_SnapshotMaxAge (en_cfg en)) (en_now en w)"
  define persisted where "persisted = (case loaded of Inl _ \<Rightarrow> None | Inr s \<Rightarrow> Some s)"
  have "good_snapshot en s" if "persisted = Some s" for s
    using that LoadPersisted_good by (auto simp: persisted_def loaded_def split: sum.splits)
  from loadLedger_cases[OF unbooted_New[of rnd] this, where w = w] obtain q b v where
    ld: "loadLedger en persisted (agent_New rnd) w = Some (q, b, v)"
    and b: "agent_inv en b" "\<not> ag_applied b" "if q = Inr () then \<not> ag_ledgerLost b else ag_ledgerLost b" by blast
  note unf = BootReapply_def[of en "agent_New rnd" w, folded loaded_def, unfolded Let_def, folded persisted_def]
  show thesis
  proof (cases q)
    case (Inl e)
    then have "ag_ledgerLost b" using b(3) by simp
    moreover from this have "r = Inl e" "a = noteBootFailure en e b" "w' = ensureQuarantine en v"
      using Inl assms ld by (simp_all add: unf)
    ultimately show thesis using lost b(1) by blast
  next
    case (Inr u)
    then have lost: "\<not> ag_ledgerLost b" using b(3) by simp
    show thesis
    proof (cases loaded)
      case (Inl le)
      then have "boot_converge en ErrBootEmpty None b (if le = ReadFailed ErrNotExist then v
          else fs_Remove (en_fs en) (snapshot_path en) v) = Some (r, a, w')"
        using assms ld \<open>q = Inr u\<close> by (simp add: unf)
      then show thesis using converged b(1,2) lost by blast
    next
      case (Inr s)
      then have "boot_converge en ErrBootReapply (Some s) b v = Some (r, a, w')"
        using assms ld \<open>q = Inr u\<close> by (simp add: unf)
      then show thesis using converged[of ErrBootReapply "Some s"] b(1,2) lost Inr by (simp add: loaded_def)
    qed
  qed
qed

lemma window_of_loaded:
  assumes "LoadPersisted pt file lim maxAge now = Inr s" "maxAge < 2 ^ 63 - 1"
  shows "s_PersistedAt s - now \<le> 300 * 10 ^ 9 \<and> now - s_PersistedAt s \<le> maxAge"
  using assms by (auto simp: LoadPersisted_def clockSkewTolerance_def time_sub_def split: sum.splits if_splits)

text \<open>
  C11: a boot that succeeds has replaced the table, read it back if it is managed and cleared
  the open retirements, either for a persisted snapshot no older than the configured age and
  not from the future (beyond the clock tolerance), or for no mapping at all; the reported
  generation says which. A boot that fails leaves nothing applied, reports generation 0 and
  keeps the error for the next report and the retry.
\<close>

theorem boot_outcome:
  assumes "BootReapply en (agent_New rnd) w = Some (r, a, w')" "c_SnapshotMaxAge (en_cfg en) < 2 ^ 63 - 1"
  shows "case r of
      Inl e \<Rightarrow> \<not> ag_applied a \<and> ag_lastApplied a = None \<and> ag_appliedGeneration a = 0 \<and> ag_bootFailed a
        \<and> ag_lastErr a = Some [\<lparr>ei_MappingID = error_mapping e, ei_Message = en_text en e\<rparr>]
    | Inr _ \<Rightarrow> ag_applied a \<and> (\<exists>l rules v. runs en (apply_events rules l) v w' \<and> ag_ledger a = Some (Clear l (open_ids l))
        \<and> (case ag_lastApplied a of
             None \<Rightarrow> rules = [] \<and> ag_appliedGeneration a = 0
           | Some s \<Rightarrow> Plan s = Some rules \<and> ag_appliedGeneration a = s_Generation s
               \<and> s_PersistedAt s - en_now en w \<le> 300 * 10 ^ 9
               \<and> en_now en w - s_PersistedAt s \<le> c_SnapshotMaxAge (en_cfg en)))"
  using assms(1)
proof (cases rule: boot_cases)
  case (lost e b v)
  then show ?thesis by (auto simp: agent_inv_def noteBootFailure_def setLastErr_def)
next
  case (converged wrap s b v)
  let ?b = "foldCounters en v b"
  have inv: "agent_inv en ?b" "\<not> ag_ledgerLost ?b" using converged(2,3) by simp_all
  then obtain l where l: "ag_ledger ?b = Some l" using not_lost_ledger by blast
  have good: "good_snapshot en x" if "s = Some x" for x using converged(5)[OF that] by (rule LoadPersisted_good)
  obtain rules where rules: "planned s = Some rules" using good_plan[of s en] good by blast
  obtain q c x where ap: "agent_apply en s ?b v = Some (q, c, x)" using converged(1) by (auto simp: boot_converge_def split: bind_splits)
  from apply_moves[OF inv l rules ap] obtain evs l' where m: "runs en evs v x" "ag_ledger c = Some l'" "same_applied ?b c"
    "q = Inr () \<longrightarrow> evs = apply_events rules l \<and> l' = Clear l (open_ids l)" by blast
  show ?thesis
  proof (cases q)
    case (Inl e)
    then have "r = Inl (wrap e)" "a = noteBootFailure en (wrap e) c" using converged(1) ap by (simp_all add: boot_converge_def)
    then show ?thesis using m(3) converged(2,4) by (auto simp: same_applied_def agent_inv_def noteBootFailure_def setLastErr_def)
  next
    case (Inr u)
    then have res: "r = Inr ()" "w' = x" "ag_ledger a = Some l'" "ag_applied a" "ag_lastApplied a = s"
      "ag_appliedGeneration a = (case s of None \<Rightarrow> 0 | Some x \<Rightarrow> s_Generation x)"
      using converged(1) ap m(2) by (auto simp: boot_converge_def)
    have "runs en (apply_events rules l) v w'" "ag_ledger a = Some (Clear l (open_ids l))" using m(1,4) Inr res by simp_all
    moreover have "case s of None \<Rightarrow> rules = [] | Some x \<Rightarrow> Plan x = Some rules \<and> s_PersistedAt x - en_now en w \<le> 300 * 10 ^ 9
               \<and> en_now en w - s_PersistedAt x \<le> c_SnapshotMaxAge (en_cfg en)"
      using rules converged(5) window_of_loaded[OF _ assms(2)] by (auto simp: planned_def split: option.splits)
    ultimately show ?thesis using res by (cases s) auto
  qed
qed

lemma boot_outcome_witness:
  "\<exists>a w l v. BootReapply (model_env (Inr None)) (agent_New None) [] = Some (Inr (), a, w) \<and> ag_appliedGeneration a = 0
     \<and> runs (model_env (Inr None)) (apply_events [] l) v w"
proof -
  obtain a w where boot: "BootReapply (model_env (Inr None)) (agent_New None) [] = Some (Inr (), a, w)" "ag_lastApplied a = None"
    using model_boot by blast
  have "c_SnapshotMaxAge (en_cfg (model_env (Inr None))) < 2 ^ 63 - 1" by (simp add: example_config_def)
  from boot_outcome[OF boot(1) this] boot show ?thesis by auto
qed

subsection \<open>What the kernel does after a cycle\<close>

text \<open>Deleting flows and writing files leaves the rules alone.\<close>

definition tables_apart :: "'w env \<Rightarrow> 'w nft \<Rightarrow> bool" where
  "tables_apart en nf \<longleftrightarrow>
     (\<forall>c r w. nf_GetRules nf c (snd (en_Clear en r w)) = nf_GetRules nf c w)
     \<and> (\<forall>c l w. nf_GetRules nf c (snd (save_ledger en l w)) = nf_GetRules nf c w)
     \<and> (\<forall>c s w. nf_GetRules nf c (snd (save_snapshot en s w)) = nf_GetRules nf c w)"

lemma runs_clears_apart:
  "tables_apart en nf \<Longrightarrow> runs en (map Cleared rs) w w' \<Longrightarrow> nf_GetRules nf c w' = nf_GetRules nf c w"
  by (induction rs arbitrary: w) (auto simp: tables_apart_def, metis snd_conv)

text \<open>
  The chains after a converging run, seen as the rendering of the rules: as they are when
  the table was verified, with the kernel's bursts otherwise.
\<close>

definition chains_as :: "bool \<Rightarrow> string \<Rightarrow> guards \<Rightarrow> rule list \<Rightarrow> retirement list \<Rightarrow> (expr \<Rightarrow> packet \<Rightarrow> regs \<Rightarrow> outcome) \<Rightarrow>
    (rule \<Rightarrow> rule) \<Rightarrow> nl_rule list \<Rightarrow> nl_rule list \<Rightarrow> bool" where
  "chains_as le iface g rules rets ev f natRules fwdRules \<longleftrightarrow>
     (\<forall>p. eval_chain ev (map nr_Exprs natRules) p = eval_chain ev (renderRules le iface (map f rules) g) p)
     \<and> (\<forall>p. eval_chain ev (map nr_Exprs fwdRules) p
          = eval_chain ev (renderForwardRules le iface rules @ retirement_rules le iface rets) p)"

lemma converge_chains:
  assumes "runs en (converge_events rules n s) w w'" "en_kernel en = NFTKernel nf" "kernel_commits nf" "tables_apart en nf"
    "distinct (map ru_MappingID rules)" "documented_nft ev"
  shows "\<exists>f natRules fwdRules. burst_only f \<and> nf_GetRules nf chainName w' = Inr natRules \<and> nf_GetRules nf fwdChainName w' = Inr fwdRules
    \<and> chains_as (nf_little nf) (iface_of en) (guards_of en) rules (Retirements n) ev f natRules fwdRules"
proof -
  have keep: "nf_GetRules nf c y = nf_GetRules nf c x" if "runs en (if l_Armed n then [] else [SnapshotTried s]) x y" for c x y
    using that assms(4) by (auto simp: tables_apart_def split: if_splits)
  obtain x0 x1 where x: "runs en (apply_events rules n) x0 x1" "runs en (if l_Armed n then [] else [SnapshotTried s]) x1 w'"
    using assms(1) by (auto simp: converge_events_def runs_append)
  show ?thesis
  proof (cases "managed_ledger n")
    case True
    then obtain v v2 where v: "VerifyManaged nf (iface_of en) rules (Retirements n) (guards_of en) v = Inr ()"
      "runs en (map Cleared (open_retirements n)) v v2" "save_ledger en (Clear n (open_ids n)) v2 = (Inr (), x1)"
      using x(1) assms(2) by (auto simp: apply_events_def runs_append NFTKernel_def)
    have "nf_GetRules nf c x1 = nf_GetRules nf c v2" for c using v(3) assms(4) by (metis tables_apart_def snd_conv)
    then have "nf_GetRules nf c w' = nf_GetRules nf c v" for c using keep[OF x(2)] runs_clears_apart[OF assms(4) v(2)] by simp
    with verified_chains[OF v(1) assms(6)] show ?thesis
      by (intro exI[of _ "\<lambda>r. r"]) (auto simp: chains_as_def burst_only_id)
  next
    case False
    then have none: "Retirements n = []" "ApplyManaged nf (iface_of en) rules [] (guards_of en) x0 = (Inr (), x1)"
      using x(1) assms(2) by (auto simp: apply_events_def managed_ledger_def nft_Apply_def NFTKernel_def)
    from ApplyManaged_chains[OF assms(3,5) none(2) assms(6)] none(1) keep[OF x(2)] show ?thesis
      by (intro exI[of _ "corrected (guards_of en)"]) (auto simp: chains_as_def burst_only_corrected)
  qed
qed

lemma plan_ids_distinct:
  assumes "Parse pt body lim = Inr s" "s_Mappings s = Some ms"
  shows "distinct (map ru_MappingID (map rule_of ms))"
proof -
  have "map ru_MappingID (map rule_of ms) = map m_ID ms"
    using parsed_rules(3)[OF assms] rule_of_simps(1) by (auto simp: list_eq_iff_nth_eq)
  moreover have "distinct (map m_ID ms)" using Parse_wf(1)[OF assms(1)] assms(2) by (auto simp: wf_snapshot_def)
  ultimately show ?thesis by (simp only:)
qed

text \<open>The chains of the table after a cycle that advances are those of the plan and the retirements.\<close>

lemma advanced_chains:
  assumes "agent_inv en a" "\<not> ag_ledgerLost a" "ag_ledger a = Some l" "cycle en a w = Some (True, a', w')"
    "en_kernel en = NFTKernel nf" "kernel_commits nf" "documented_nft ev" "tables_apart en nf"
  obtains body s ms n f natRules fwdRules where "Parse (en_pt en) body (limits_of en) = Inr s" "s_Mappings s = Some ms"
    "recorded s n a'" "burst_only f" "nf_GetRules nf chainName w' = Inr natRules" "nf_GetRules nf fwdChainName w' = Inr fwdRules"
    "chains_as (nf_little nf) (iface_of en) (guards_of en) (map rule_of ms) (Retirements n) ev f natRules fwdRules"
proof -
  obtain body s n rules where s: "Parse (en_pt en) body (limits_of en) = Inr s" "Plan s = Some rules" "recorded s n a'"
    and run: "runs en (Synced (fst (build_report en (foldCounters en w a))) body # map (Zeroed \<circ> e_Retirement) (dropped n l)
        @ converge_events rules n s) w w'"
    using cycle_runs[OF assms(1-4)] by blast
  obtain ms where ms: "s_Mappings s = Some ms" using Parse_wf(1)[OF s(1)] by (auto simp: wf_snapshot_def)
  note parsed = parsed_rules[OF s(1) ms]
  have rules: "rules = map rule_of ms" using parsed(1) s(2) by simp
  obtain v0 where tail: "runs en (converge_events rules n s) v0 w'" using run by (auto simp: runs_append)
  have "distinct (map ru_MappingID rules)" using plan_ids_distinct[OF s(1) ms] rules by (simp only:)
  from converge_chains[OF tail assms(5,6,8) this assms(7)] that[OF s(1) ms s(3)] show thesis unfolding rules by blast
qed

text \<open>
  C1: after a cycle that advances, on a kernel that commits batches (with the registers and
  bursts it fills in) and evaluates expressions as documented, the agent's table treats every packet as the applied snapshot declares. In
  the nat chain a packet that a mapping selects is dropped if its source is not allowed, and
  otherwise translated to the mapping's target, its connection carrying the mapping's mark,
  or dropped by a guard if one is in effect;
  a packet no mapping selects passes. In the forward chain exactly the translated packets
  of retired flows that cross the public interface are dropped.
\<close>

theorem advanced_kernel_behaves:
  assumes "agent_inv en a" "\<not> ag_ledgerLost a" "ag_ledger a = Some l" "cycle en a w = Some (True, a', w')"
    "en_kernel en = NFTKernel nf" "kernel_commits nf" "documented_nft ev" "tables_apart en nf"
  shows "\<exists>s l' natRules fwdRules. ag_lastApplied a' = Some s \<and> ag_appliedGeneration a' = s_Generation s \<and> ag_ledger a' = Some l'
    \<and> nf_GetRules nf chainName w' = Inr natRules \<and> nf_GetRules nf fwdChainName w' = Inr fwdRules
    \<and> (\<forall>m p src. m \<in> set (slice_of (s_Mappings s)) \<and> selects (iface_of en) (rule_of m) p \<and> source_is p src \<longrightarrow>
         (\<exists>t. ParseAddr (m_TargetAddr m) = Some (IP4 t)
            \<and> (let v = eval_chain ev (map nr_Exprs natRules) p;
                dnat = DnatV (be32 t) (be16 (m_TargetPort m)) (mark_bytes (nf_little nf) (valueOrZero (m_FlowMark m)))
               in if (case m_SourcePolicy m of None \<Rightarrow> True | Some ps \<Rightarrow> \<exists>q\<in>set ps. prefix_contains q (IP4 src))
                  then v \<in> {DropV, dnat} \<and> (no_guards (effectiveGuards (rule_of m) (guards_of en)) \<longrightarrow> v = dnat)
                  else v = DropV)))
    \<and> (\<forall>p. (\<forall>m\<in>set (slice_of (s_Mappings s)). \<not> selects (iface_of en) (rule_of m) p) \<longrightarrow>
         eval_chain ev (map nr_Exprs natRules) p = AcceptV)
    \<and> (\<forall>p st. pk_ct p CtSTATUS = native32 (nf_little nf) st \<longrightarrow>
         eval_chain ev (map nr_Exprs fwdRules) p = (if bit st 5 \<and> crosses (iface_of en) p
           \<and> (\<exists>r\<in>set (Retirements l'). retired_flow (nf_little nf) (iface_of en) r p) then DropV else AcceptV))"
proof -
  from advanced_chains[OF assms] obtain body s ms n f natRules fwdRules where
    s: "Parse (en_pt en) body (limits_of en) = Inr s" and ms: "s_Mappings s = Some ms" and rec: "recorded s n a'"
    and f: "burst_only f"
    and g: "nf_GetRules nf chainName w' = Inr natRules" "nf_GetRules nf fwdChainName w' = Inr fwdRules"
    and ch: "chains_as (nf_little nf) (iface_of en) (guards_of en) (map rule_of ms) (Retirements n) ev f natRules fwdRules" by blast
  have e: "eval_chain ev (map nr_Exprs natRules) p
         = eval_chain ev (renderRules (nf_little nf) (iface_of en) (map (\<lambda>m. f (rule_of m)) ms) (guards_of en)) p"
      "eval_chain ev (map nr_Exprs fwdRules) p = eval_chain ev (renderForwardRules (nf_little nf) (iface_of en) (map rule_of ms)
             @ retirement_rules (nf_little nf) (iface_of en) (Retirements n)) p" for p
    using ch by (simp_all add: chains_as_def o_def)
  show ?thesis
  proof (rule exI[of _ s], rule exI[of _ "Clear n (open_ids n)"], rule exI[of _ natRules], rule exI[of _ fwdRules],
      intro conjI allI impI)
    show "ag_lastApplied a' = Some s" "ag_appliedGeneration a' = s_Generation s" "ag_ledger a' = Some (Clear n (open_ids n))"
      using rec by (simp_all add: recorded_def)
    show "nf_GetRules nf chainName w' = Inr natRules" "nf_GetRules nf fwdChainName w' = Inr fwdRules" by (fact g)+
  next
    fix m p src
    assume "m \<in> set (slice_of (s_Mappings s)) \<and> selects (iface_of en) (rule_of m) p \<and> source_is p src"
    then show "\<exists>t. ParseAddr (m_TargetAddr m) = Some (IP4 t)
            \<and> (let v = eval_chain ev (map nr_Exprs natRules) p;
                dnat = DnatV (be32 t) (be16 (m_TargetPort m)) (mark_bytes (nf_little nf) (valueOrZero (m_FlowMark m)))
               in if (case m_SourcePolicy m of None \<Rightarrow> True | Some ps \<Rightarrow> \<exists>q\<in>set ps. prefix_contains q (IP4 src))
                  then v \<in> {DropV, dnat} \<and> (no_guards (effectiveGuards (rule_of m) (guards_of en)) \<longrightarrow> v = dnat)
                  else v = DropV)"
      using nat_chain_declared[OF assms(7) s ms _ _ _ f, of m "iface_of en" p src "nf_little nf" "guards_of en"] ms
      unfolding e(1) by auto
  next
    fix p
    assume "\<forall>m\<in>set (slice_of (s_Mappings s)). \<not> selects (iface_of en) (rule_of m) p"
    then show "eval_chain ev (map nr_Exprs natRules) p = AcceptV"
      using eval_chain_skip[OF assms(7), of "map (\<lambda>m. f (rule_of m)) ms" "iface_of en" p "nf_little nf" "guards_of en" "[]"] ms
      unfolding e(1) by (simp add: burst_only_facts[OF f])
  next
    fix p :: packet and st
    assume "pk_ct p CtSTATUS = native32 (nf_little nf) st"
    then show "eval_chain ev (map nr_Exprs fwdRules) p = (if bit st 5 \<and> crosses (iface_of en) p
           \<and> (\<exists>r\<in>set (Retirements (Clear n (open_ids n))). retired_flow (nf_little nf) (iface_of en) r p) then DropV else AcceptV)"
      using forward_chain_verdict[OF assms(7)] unfolding e(2) by simp
  qed
qed

lemma model_tables_apart: "tables_apart (model_env ans) model_nft"
proof -
  have "snd (save_ledger (model_env ans) l w) = w" for l w
  proof (cases "wf_ledger l")
    case False
    then have "ledger_Validate l \<noteq> Inr ()" by (simp add: ledger_Validate_iff)
    then show ?thesis
      by (cases "ledger_Validate l") (simp_all add: save_ledger_def ledger_Persist_def ledger_body_def rbind_def map_error_def)
  qed simp
  then show ?thesis by (simp add: tables_apart_def)
qed

lemma advanced_kernel_behaves_witness:
  "\<exists>body a' w' t natRules. cycle (model_env (Inr (Some body))) (model_agent example_ledger) [] = Some (True, a', w')
     \<and> nf_GetRules model_nft chainName w' = Inr natRules \<and> ParseAddr (m_TargetAddr example_marked) = Some (IP4 t)
     \<and> eval_chain model_ev (map nr_Exprs natRules) example_packet = DnatV (be32 t) (be16 8080) (native32 True 7)"
proof -
  let ?m = "example_marked\<lparr>m_target := target_addr example_marked\<rparr>"
  obtain body s a' w' where run: "Parse parse_int body example_limits = Inr s" "s_Mappings s = Some [?m]"
    "cycle (model_env (Inr (Some body))) (model_agent example_ledger) [] = Some (True, a', w')"
    "ag_lastApplied a' = Some s" using model_advance by blast
  have pl: "plan_rule ?m = Some (rule_of ?m)" using parsed_rules(3)[OF run(1,2), of ?m] by simp
  have sel: "selects ''eth0'' (rule_of ?m) example_packet"
    by (rule example_packet_facts(2)[OF pl]) (simp_all add: example_marked_def example_mapping_def)
  have pol: "m_SourcePolicy ?m = None" "m_TargetPort ?m = 8080" "m_TargetAddr ?m = m_TargetAddr example_marked"
    "mark_bytes (nf_little model_nft) (valueOrZero (m_FlowMark ?m)) = native32 True 7"
    by (simp_all add: example_marked_def example_mapping_def mapping_zero_def mark_bytes_def valueOrZero_def model_nft_def)
  have "no_guards (effectiveGuards (rule_of ?m) quiet_guards)" by (rule example_unguarded[OF pl])
  with advanced_kernel_behaves[OF model_agent_inv[OF example_ledgers_wf(1)] _ _ run(3) _ model_kernel_commits
      model_ev_documented model_tables_apart, of example_ledger] run sel pol example_packet_facts(1)
  show ?thesis by (clarsimp simp: Let_def) blast
qed

subsection \<open>A failure that is not retried\<close>

lemma zero_dropped_none:
  "\<forall>old\<in>set olds. old \<in> set kept \<Longrightarrow> zero_dropped en kept olds w = (Inr (), w)"
  by (induction olds) (auto simp: list_ex_iff)

text \<open>
  C38: when the first managed snapshot arrives at the generation that is already applied, and
  the attempt fails after the armed ledger was written (the snapshot write, the replace, the
  readback or the clearing failed), the same answer in the next cycle is taken for the
  converged state: nothing is applied, nothing else changes, and the error is dropped from
  the reports, as long as a table of the agent is present.
\<close>

theorem failed_arming_not_retried:
  assumes "agent_inv en a" "\<not> ag_ledgerLost a" "ag_ledger a = Some l" "ag_applied a" "\<not> l_Armed l"
    "Parse (en_pt en) body (limits_of en) = Inr s" "s_Generation s = ag_appliedGeneration a"
    "handle_changed en body a w = Some (b, a', w')" "ag_lastErr a' \<noteq> None" "ag_ledger a' = Some n" "l_Armed n"
    "kn_Present (en_kernel en) v = Inr True"
  shows "handle_changed en body a' v = Some (False, a'\<lparr>ag_lastErr := None\<rparr>, v)"
proof -
  have wf: "wf_ledger l" using assms(1-3) by (auto simp: agent_inv_def)
  have ne: "n \<noteq> l" using assms(5,11) by blast
  obtain evs where "(\<exists>s n. recorded s n a')
      \<or> same_applied a a' \<and> (\<exists>l'. ag_ledger a' = Some l' \<and> ledger_moved evs l l'
          \<and> (l' = l \<or> (\<exists>s. Parse (en_pt en) body (limits_of en) = Inr s \<and> Prepare l s = Inr l')))"
    using handle_changed_runs[OF assms(1-3,8)] by blast
  then have same: "same_applied a a'" and prep: "Prepare l s = Inr n"
    using assms(6,9,10) ne by (auto simp: recorded_def)
  have "Prepare (Clear n {}) s = Inr (Clear n {})" using Prepare_again[OF prep wf Parse_wf(1)[OF assms(6)]] .
  then have again: "Prepare n s = Inr n" by (simp add: Clear_empty)
  have "zero_dropped en (slice_of (l_Entries n)) (slice_of (l_Entries n)) v = (Inr (), v)" by (rule zero_dropped_none) simp
  then show ?thesis
    using assms(4,6,7,10,12) again same by (simp add: handle_changed_def ledger_changed_def same_applied_def)
qed

lemma failed_arming_not_retried_witness:
  "\<exists>en body a a'. ag_lastErr a' = Some [\<lparr>ei_MappingID = None, ei_Message = ''error''\<rparr>]
     \<and> handle_changed en body a (quarantine_batch model_nft ''eth0'') = Some (False, a', quarantine_batch model_nft ''eth0'')
     \<and> handle_changed en body a' (quarantine_batch model_nft ''eth0'')
       = Some (False, a'\<lparr>ag_lastErr := None\<rparr>, quarantine_batch model_nft ''eth0'')"
proof -
  let ?w = "quarantine_batch model_nft ''eth0''"
  obtain body s where s: "Parse parse_int body example_limits = Inr s" "Prepare example_ledger s = Inr example_active"
    using example_parse_managed by blast
  let ?e = "(model_env (Inr None))\<lparr>en_kernel := (NFTKernel model_nft)\<lparr>kn_managed := None\<rparr>\<rparr>"
  let ?a = "(model_agent example_ledger)\<lparr>ag_applied := True, ag_appliedGeneration := s_Generation s, ag_lastApplied := Some s\<rparr>"
  have good: "good_snapshot ?e s" using Parse_wf[OF s(1)] by (simp add: good_snapshot_def)
  have inv: "agent_inv ?e ?a" using good example_ledgers_wf(1)
    by (simp add: model_agent_def agent_New_def agent_inv_def newCounterState_def one_entry_def)
  have led: "l_Armed example_active" "\<not> l_Armed example_ledger" "l_Entries example_ledger = Some []"
    by (simp_all add: example_active_def example_ledger_def)
  obtain rules where plan: "Plan s = Some rules" using good_Plan[OF good] by blast
  have saves: "save_ledger ?e example_active w = (Inr (), w)" "save_snapshot ?e s w = (Inr (), w)" for w
    using model_saves[of ?e] example_ledgers_wf(2) by simp_all
  have "converge ?e example_active s ?a ?w
      = Some (False, setLastErr ?e ErrKernelLacksRetirement ((foldCounters ?e ?w ?a)\<lparr>ag_ledger := Some example_active\<rparr>), ?w)"
    using led plan saves by (simp add: converge_def persist_ahead_def Let_def agent_apply_def planned_def)
  then obtain a' where run: "handle_changed ?e body ?a ?w = Some (False, a', ?w)" "ag_ledger a' = Some example_active"
    "ag_lastErr a' = Some [\<lparr>ei_MappingID = None, ei_Message = ''error''\<rparr>]"
    using s led by (simp add: handle_changed_def ledger_changed_def setLastErr_def model_env_def)
  have "kn_Present (en_kernel ?e) ?w = Inr True"
    by (simp add: Present_def model_nft_def read_nft_def rbind_def quarantine_batch_def table_prologue_def)
  from failed_arming_not_retried[OF inv _ _ _ led(2) _ _ run(1) _ run(2) led(1) this] run s(1)
  show ?thesis by (intro exI[of _ ?e] exI[of _ body] exI[of _ ?a] exI[of _ a']) simp
qed

end
