(* ===== verification/Relay_Command.thy ===== *)
theory Relay_Command
  imports Agent_Correct
begin

text \<open>
  \<open>cmd/relay-agent/main.go\<close>: the command, with its modes \<open>apply\<close> and \<open>run\<close>.

  The process is the record \<open>host\<close>: its environment variables, \<open>url.Parse\<close>, the kernel, the
  connection-tracking library, the files, the HTTP client, clock, random source and the text
  of times and errors. \<open>run\<close> ends when a signal ends its context: \<open>ticks\<close> is the number of
  timer ticks before that. \<open>None\<close> is a run-time panic. Logging is left out.

  \<open>parse_file_flag\<close> is the standard library's \<open>flag\<close> package for a set with the one string flag
  \<open>file\<close> and \<open>flag.ExitOnError\<close>: its error is the exit code of the process.
\<close>

subsection \<open>Flags\<close>

definition flag_name :: "string \<Rightarrow> string" where
  "flag_name s = (if has_prefix ''--'' s then drop 2 s else drop 1 s)"

text \<open>Name and value of \<open>name=value\<close>; the sign is looked for from the second character on.\<close>

definition flag_value :: "string \<Rightarrow> string \<times> string option" where
  "flag_value n = (case cut CHR ''='' (drop 1 n) of None \<Rightarrow> (n, None) | Some (a, v) \<Rightarrow> (take 1 n @ a, Some v))"

fun parse_file_flag :: "string list \<Rightarrow> string \<Rightarrow> (nat, string) result" where
  "parse_file_flag [] file = Inr file"
| "parse_file_flag (s # args) file =
     (if length s < 2 \<or> hd s \<noteq> CHR ''-'' then Inr file
      else if s = ''--'' then Inr file
      else let n = flag_name s
           in if n = [] \<or> hd n = CHR ''-'' \<or> hd n = CHR ''='' then Inl 2
              else case flag_value n of
                     (name, value) \<Rightarrow>
                       if name = ''file'' then
                         (case value of
                            Some v \<Rightarrow> parse_file_flag args v
                          | None \<Rightarrow> (case args of [] \<Rightarrow> Inl 2 | v # rest \<Rightarrow> parse_file_flag rest v))
                       else if name = ''help'' \<or> name = ''h'' then Inl 0 else Inl 2)"

subsection \<open>The command\<close>

datatype main_error =
    Usage
  | ConfigFailed config_error
  | FlagExit nat
  | FileRequired
  | FileUnreadable io_error
  | SnapshotRejected snap_error
  | ManagedNeedsRun
  | ApplyFailed nft_error
  | AppliedNotPersisted persist_error
  | NoSource
  | UnknownMode string

record 'w host =
  ho_getenv :: "string \<Rightarrow> string"
  ho_url :: "string \<Rightarrow> (string \<times> string) option"
  ho_nft :: "'w nft"
  ho_ct :: "'w ctlib"
  ho_fs :: "'w fsys"
  ho_http :: "'w http"
  ho_now :: "'w \<Rightarrow> int"
  ho_rand :: "'w \<Rightarrow> u8 list option \<times> 'w"
  ho_tt :: "int \<Rightarrow> string"
  ho_pt :: "string \<Rightarrow> int option"
  ho_text :: "agent_error \<Rightarrow> string"
  ho_version :: string

text \<open>What follows the parse of the snapshot in \<open>apply\<close> mode.\<close>

definition apply_snapshot :: "'w host \<Rightarrow> config \<Rightarrow> snapshot \<Rightarrow> 'w \<Rightarrow> ((main_error, unit) result \<times> 'w) option" where
  "apply_snapshot ho cfg s w =
     (if s_Retirements s \<noteq> None then Some (Inl ManagedNeedsRun, w)
      else do {
        rules \<leftarrow> Plan s;
        Some (case nft_Apply (ho_nft ho) (c_PublicIface cfg) rules (c_Guards cfg) w of
                (Inl e, w) \<Rightarrow> (Inl (ApplyFailed e), w)
              | (Inr _, w) \<Rightarrow>
                  (case snapshot_Persist (ho_fs ho) (ho_tt ho) (ho_now ho w) s (SnapshotPath (c_StateDir cfg)) [w] of
                     (Inl e, ws) \<Rightarrow> (Inl (AppliedNotPersisted e), hd ws)
                   | (Inr _, ws) \<Rightarrow> (Inr (), hd ws)))
      })"

definition apply_mode :: "'w host \<Rightarrow> config \<Rightarrow> string list \<Rightarrow> 'w \<Rightarrow> ((main_error, unit) result \<times> 'w) option" where
  "apply_mode ho cfg args w =
     (case parse_file_flag args [] of
        Inl code \<Rightarrow> Some (Inl (FlagExit code), w)
      | Inr file \<Rightarrow>
          if file = [] then Some (Inl FileRequired, w)
          else case fs_ReadFile (ho_fs ho) file w of
                 Inl e \<Rightarrow> Some (Inl (FileUnreadable e), w)
               | Inr body \<Rightarrow>
                   (case Parse (ho_pt ho) body (c_Limits cfg) of
                      Inl e \<Rightarrow> Some (Inl (SnapshotRejected e), w)
                    | Inr s \<Rightarrow> apply_snapshot ho cfg s w))"

definition source_of :: "'w host \<Rightarrow> config \<Rightarrow> (report \<Rightarrow> 'w \<Rightarrow> (sync_error, jbody option) result \<times> 'w) option" where
  "source_of ho cfg =
     (if c_SyncURL cfg \<noteq> [] then Some (http_Sync (ho_http ho) (NewHTTP (c_SyncURL cfg) (c_SyncToken cfg)))
      else if c_SourceFile cfg \<noteq> [] then Some (file_Sync (fs_ReadFile (ho_fs ho)) (c_SourceFile cfg))
      else None)"

text \<open>The agent's collaborators in production: \<open>NFTKernel\<close> and \<open>conntrackctl.Netlink\<close>.\<close>

definition host_env :: "'w host \<Rightarrow> config \<Rightarrow> (report \<Rightarrow> 'w \<Rightarrow> (sync_error, jbody option) result \<times> 'w) \<Rightarrow> 'w env" where
  "host_env ho cfg src = \<lparr>en_cfg = cfg, en_kernel = NFTKernel (ho_nft ho), en_Clear = ct_Clear (ho_ct ho), en_Zero = ct_Zero (ho_ct ho),
     en_Sync = src, en_fs = ho_fs ho, en_now = ho_now ho, en_rand = ho_rand ho, en_tt = ho_tt ho, en_pt = ho_pt ho,
     en_text = ho_text ho, en_version = ho_version ho\<rparr>"

definition run_mode :: "'w host \<Rightarrow> config \<Rightarrow> nat \<Rightarrow> 'w \<Rightarrow> ((main_error, unit) result \<times> 'w) option" where
  "run_mode ho cfg ticks w =
     (case source_of ho cfg of
        None \<Rightarrow> Some (Inl NoSource, w)
      | Some src \<Rightarrow>
          (let en = host_env ho cfg src
           in case ho_rand ho w of (rnd, w) \<Rightarrow>
              do {
                (r, a, w) \<leftarrow> BootReapply en (agent_New rnd) w;
                (a, w) \<leftarrow> Run en ticks a w;
                Some (Inr (), w)
              }))"

text \<open>\<open>args\<close> is \<open>os.Args\<close>.\<close>

definition main_run :: "'w host \<Rightarrow> nat \<Rightarrow> string list \<Rightarrow> 'w \<Rightarrow> ((main_error, unit) result \<times> 'w) option" where
  "main_run ho ticks args w =
     (if length args < 2 then Some (Inl Usage, w)
      else case config_Load (ho_url ho) (ho_getenv ho) of
             Inl e \<Rightarrow> Some (Inl (ConfigFailed e), w)
           | Inr cfg \<Rightarrow>
               if args ! 1 = ''apply'' then apply_mode ho cfg (drop 2 args) w
               else if args ! 1 = ''run'' then run_mode ho cfg ticks w
               else Some (Inl (UnknownMode (args ! 1)), w))"

subsection \<open>Properties\<close>

lemma apply_snapshot_parsed:
  assumes "Parse pt body (c_Limits cfg) = Inr s"
  shows "\<exists>r w'. apply_snapshot ho cfg s w = Some (r, w')"
proof -
  note wf = Parse_wf[OF assms]
  have "Plan s \<noteq> None" using Plan_wf[OF wf(1,3)] by simp
  then show ?thesis by (auto simp: apply_snapshot_def split: prod.split sum.split)
qed

lemma run_mode_ends:
  assumes "source_of ho cfg = Some src"
  shows "\<exists>w'. run_mode ho cfg ticks w = Some (Inr (), w')"
proof -
  obtain rnd v where rnd: "ho_rand ho w = (rnd, v)" by fastforce
  let ?en = "host_env ho cfg src"
  obtain r a u where boot: "BootReapply ?en (agent_New rnd) v = Some (r, a, u)" "agent_inv ?en a"
    using BootReapply_inv[OF unbooted_New[of rnd], of ?en v] by blast
  obtain a' w' where "Run ?en ticks a u = Some (a', w')" using Run_inv[OF boot(2)] by blast
  then show ?thesis using assms rnd boot(1) by (simp add: run_mode_def Let_def)
qed

text \<open>An error before the apply leaves the world alone.\<close>

definition untouched :: "(main_error, unit) result \<Rightarrow> 'w \<Rightarrow> 'w \<Rightarrow> bool" where
  "untouched r w w' \<longleftrightarrow>
     (case r of Inl e \<Rightarrow> (case e of ApplyFailed _ \<Rightarrow> True | AppliedNotPersisted _ \<Rightarrow> True | _ \<Rightarrow> w' = w) | Inr _ \<Rightarrow> True)"

lemma apply_snapshot_untouched: "apply_snapshot ho cfg s w = Some (r, w') \<Longrightarrow> untouched r w w'"
  by (auto simp: apply_snapshot_def untouched_def split: if_splits bind_splits prod.splits sum.splits)

lemma apply_mode_total: "\<exists>r w'. apply_mode ho cfg args w = Some (r, w') \<and> untouched r w w'"
proof -
  have "\<exists>r w'. apply_snapshot ho cfg s w = Some (r, w') \<and> untouched r w w'" if p: "Parse (ho_pt ho) body (c_Limits cfg) = Inr s" for body s
  proof -
    obtain r w' where "apply_snapshot ho cfg s w = Some (r, w')" using apply_snapshot_parsed[OF p, of ho w] by blast
    then show ?thesis using apply_snapshot_untouched[of ho cfg s w r w'] by blast
  qed
  then show ?thesis by (auto simp: apply_mode_def untouched_def split: sum.split)
qed

text \<open>
  C39: the command never panics, and it touches nothing unless it gets past its checks: a
  missing mode, a configuration that does not load, a bad flag, an unreadable or rejected
  file, a managed snapshot in \<open>apply\<close> mode, a missing source and an unknown mode all leave the
  world as it is. With a loaded configuration that names a source, \<open>run\<close> always reaches its
  poll loop and ends without an error when it is told to stop, whatever the boot did.
\<close>

theorem command_total:
  "\<exists>r w'. main_run ho ticks args w = Some (r, w') \<and> untouched r w w'
    \<and> (case config_Load (ho_url ho) (ho_getenv ho) of
         Inl e \<Rightarrow> r = Inl (if length args < 2 then Usage else ConfigFailed e)
       | Inr cfg \<Rightarrow> if length args < 2 then r = Inl Usage
           else if args ! 1 = ''run'' then r = (if source_of ho cfg = None then Inl NoSource else Inr ())
           else if args ! 1 = ''apply'' then apply_mode ho cfg (drop 2 args) w = Some (r, w')
           else r = Inl (UnknownMode (args ! 1)))"
proof (cases "config_Load (ho_url ho) (ho_getenv ho)")
  case (Inl e)
  then show ?thesis by (simp add: main_run_def untouched_def)
next
  case (Inr cfg)
  consider "length args < 2" | "length args \<ge> 2" "args ! 1 = ''apply''" | "length args \<ge> 2" "args ! 1 = ''run''"
    | "length args \<ge> 2" "args ! 1 \<noteq> ''apply''" "args ! 1 \<noteq> ''run''" by linarith
  then show ?thesis
  proof cases
    case 2
    then show ?thesis using Inr apply_mode_total[of ho cfg "drop 2 args" w] by (auto simp: main_run_def)
  next
    case 3
    show ?thesis
    proof (cases "source_of ho cfg")
      case None
      then show ?thesis using Inr 3 by (simp add: main_run_def run_mode_def untouched_def)
    next
      case (Some src)
      then show ?thesis using Inr 3 run_mode_ends[OF Some, of ticks w] by (auto simp: main_run_def untouched_def)
    qed
  qed (use Inr in \<open>simp_all add: main_run_def untouched_def\<close>)
qed

text \<open>
  C40: \<open>apply\<close> mode succeeds only for a valid, unmanaged snapshot of the named file, under the
  loaded configuration: every public port of it lies in the configured band and is no
  service port of the relay, the table was replaced with exactly its plan and the snapshot
  file was written. A managed snapshot never reaches the kernel in this mode.
\<close>

theorem apply_mode_exact:
  assumes "main_run ho ticks (prog # ''apply'' # args) w = Some (Inr (), w')"
  shows "\<exists>cfg file body s rules v ws. config_Load (ho_url ho) (ho_getenv ho) = Inr cfg
    \<and> parse_file_flag args [] = Inr file \<and> fs_ReadFile (ho_fs ho) file w = Inr body
    \<and> Parse (ho_pt ho) body (c_Limits cfg) = Inr s \<and> s_Retirements s = None \<and> Plan s = Some rules
    \<and> list_all (\<lambda>r. ru_PublicPort r \<in> {lim_BandMin (c_Limits cfg)..lim_BandMax (c_Limits cfg)} - {2222, 51820}) rules
    \<and> nft_Apply (ho_nft ho) (c_PublicIface cfg) rules (c_Guards cfg) w = (Inr (), v)
    \<and> snapshot_Persist (ho_fs ho) (ho_tt ho) (ho_now ho v) s (SnapshotPath (c_StateDir cfg)) [v] = (Inr (), ws) \<and> w' = hd ws"
proof -
  obtain cfg where cfg: "config_Load (ho_url ho) (ho_getenv ho) = Inr cfg" "apply_mode ho cfg args w = Some (Inr (), w')"
    using assms by (auto simp: main_run_def split: sum.splits)
  then obtain path body s where s: "parse_file_flag args [] = Inr path" "fs_ReadFile (ho_fs ho) path w = Inr body"
    "Parse (ho_pt ho) body (c_Limits cfg) = Inr s" "apply_snapshot ho cfg s w = Some (Inr (), w')"
    by (auto simp: apply_mode_def split: sum.splits if_splits)
  obtain ms where ms: "s_Mappings s = Some ms" using Parse_wf(1)[OF s(3)] by (auto simp: wf_snapshot_def)
  note parsed = parsed_rules[OF s(3) ms]
  have "s_Retirements s = None" using s(4) by (auto simp: apply_snapshot_def split: if_splits)
  moreover obtain v ws where "nft_Apply (ho_nft ho) (c_PublicIface cfg) (map rule_of ms) (c_Guards cfg) w = (Inr (), v)"
    "snapshot_Persist (ho_fs ho) (ho_tt ho) (ho_now ho v) s (SnapshotPath (c_StateDir cfg)) [v] = (Inr (), ws)" "w' = hd ws"
    using s(4) parsed(1) by (auto simp: apply_snapshot_def split: if_splits prod.splits sum.splits)
  moreover have "list_all (\<lambda>r. ru_PublicPort r \<in> {lim_BandMin (c_Limits cfg)..lim_BandMax (c_Limits cfg)} - {2222, 51820}) (map rule_of ms)"
  proof -
    have "m_PublicPort m \<in> {lim_BandMin (c_Limits cfg)..lim_BandMax (c_Limits cfg)} - {2222, 51820}" if "m \<in> set ms" for m
      using Parse_wf(1)[OF s(3)] ms that Load_sound[OF cfg(1)]
      by (auto simp: wf_snapshot_def wf_mapping_def sound_config_def)
    moreover have "ru_PublicPort (rule_of m) = m_PublicPort m" if "m \<in> set ms" for m
      using rule_of_simps(3) parsed(3)[OF that] by blast
    ultimately show ?thesis by (simp add: list_all_iff)
  qed
  ultimately show ?thesis using cfg(1) s(1-3) parsed(1) by blast
qed

lemma apply_mode_exact_witness:
  "\<exists>(ho :: nl_op list host) w'. main_run ho 0 [''relay-agent'', ''apply'', ''-file'', ''/tmp/s.json''] [] = Some (Inr (), w') \<and> Present (ho_nft ho) w' = Inr True"
proof -
  obtain cfg where cfg: "config_Load (\<lambda>_. None) example_env = Inr cfg" "c_Limits cfg = example_limits" using example_load by blast
  obtain body s where s: "Parse parse_int body example_limits = Inr s" "s_Retirements s = None" using example_parse by blast
  let ?fs = "empty_fs\<lparr>fs_ReadFile := \<lambda>p w. Inr body\<rparr>"
  let ?ho = "\<lparr>ho_getenv = example_env, ho_url = \<lambda>_. None, ho_nft = model_nft, ho_ct = empty_ct, ho_fs = ?fs,
    ho_http = \<lparr>ht_New = \<lambda>_. None, ht_Do = \<lambda>h q w. (Inl ''offline'', w)\<rparr>, ho_now = \<lambda>w. 2000, ho_rand = \<lambda>w. (None, w),
    ho_tt = format_int, ho_pt = parse_int, ho_text = \<lambda>e. ''error'', ho_version = ''dev''\<rparr>"
  let ?args = "[''-file'', ''/tmp/s.json'']"
  have flag: "parse_file_flag ?args [] = Inr ''/tmp/s.json''"
    by (simp add: flag_name_def flag_value_def has_prefix_def)
  obtain rules where plan: "Plan s = Some rules" using Plan_wf Parse_wf[OF s(1)] by blast
  obtain v where v: "nft_Apply model_nft (c_PublicIface cfg) rules (c_Guards cfg) [] = (Inr (), v)"
    unfolding nft_Apply_def using model_apply by blast
  obtain ws where "snapshot_Persist ?fs format_int 2000 s (SnapshotPath (c_StateDir cfg)) [v] = (Inr (), ws)" "hd ws = v"
    by (simp add: snapshot_Persist_def via_temp_def fill_temp_def install_def call_def empty_fs_def)
  then have run: "main_run ?ho 0 (''relay-agent'' # ''apply'' # ?args) [] = Some (Inr (), v)"
    using cfg s flag plan v by (simp add: main_run_def apply_mode_def apply_snapshot_def)
  from apply_mode_exact[OF run] v have "v \<noteq> []"
    by (auto simp: nft_Apply_def dest!: ApplyManaged_ok managed_batch_ok simp: model_nft_def table_prologue_def)
  then have "Present model_nft v = Inr True" by (simp add: Present_def model_nft_def read_nft_def rbind_def)
  with run show ?thesis by (intro exI[of _ ?ho] exI[of _ v]) simp
qed

end
