(* ===== verification/Spec2Isabelle.thy ===== *)
theory Spec2Isabelle
  imports Relay_Command
begin

text \<open>
  A verification development of the relay agent, a daemon that keeps the DNAT rules of one host
  in line with the mapping set a platform desires, and retires old mappings so that a port, an
  address or a flow mark is never handed on while packets of its former owner still pass.

  \<^bold>\<open>The program and its parts.\<close> \<open>cmd/relay-agent\<close> loads the configuration
  (\<open>internal/config\<close>) and starts the agent (\<open>internal/agent\<close>). A cycle of the agent
  reads the kernel's counters, posts a report and gets a desired-state snapshot back
  (\<open>internal/source\<close>), validates it (\<open>internal/snapshot\<close>, \<open>internal/sourcepolicy\<close>),
  prepares the retirement ledger for it (\<open>internal/retirement\<close>), writes ledger and snapshot
  to disk, replaces the nftables table in one batch and reads it back
  (\<open>internal/nftctl\<close>), deletes the connection-tracking entries of retired mappings
  (\<open>internal/conntrackctl\<close>) and records that in the ledger.

  \<^bold>\<open>Theories and sources.\<close>
  \<^item> \<open>Relay_Prelude\<close>: results as sums, scans over lists that stop at an error, and the
    generic lemmas the components share. \<open>Go_Strings\<close>, \<open>Utf8\<close>, \<open>Netip\<close>, \<open>Json\<close>
    and \<open>Sha256\<close> model what the source uses of the Go standard library.
  \<^item> \<open>Source_Policy\<close>: \<open>sourcepolicy/policy.go\<close> and \<open>optional.go\<close>.
  \<^item> \<open>Snapshot_Data\<close> and \<open>Snapshot\<close>: \<open>snapshot/snapshot.go\<close>, its records, hashes and
    JSON forms; \<open>Validate\<close>, \<open>Parse\<close>, \<open>LoadPersisted\<close>.
  \<^item> \<open>Ledger\<close>: \<open>retirement/ledger.go\<close>. \<open>Prepare\<close> is split into one definition for
    each of its checks, in the order of the code.
  \<^item> \<open>Nft_Render\<close>: the pure half of \<open>nftctl/nftctl.go\<close> and \<open>source_policy.go\<close>: plans,
    names, tags and expression lists. \<open>Nft_Semantics\<close>: what those expressions do to a packet.
    \<open>Nft_Control\<close>: batches, apply, quarantine, readback verification, presence, counters.
  \<^item> \<open>Sync_Source\<close>: \<open>source/source.go\<close> and \<open>http.go\<close>. \<open>Counters\<close>:
    \<open>agent/counters.go\<close>. \<open>Conntrack\<close>: both files of \<open>conntrackctl\<close>. \<open>State_File\<close>:
    the two \<open>Persist\<close> methods and the file names. \<open>Config\<close>: \<open>config/config.go\<close>.
  \<^item> \<open>Agent\<close>: \<open>agent/agent.go\<close>, the state as the record \<open>agent\<close>, one definition for
    each method, \<open>cycle\<close> split at its stages, with the invariant every method keeps.
    \<open>Agent_Trace\<close>: the events of a cycle in order. \<open>Agent_Model\<close>: an environment to run the
    agent in. \<open>Agent_Correct\<close>: the agent's properties. \<open>Relay_Command\<close>: \<open>main.go\<close>.

  \<^bold>\<open>State, effects and errors.\<close> Operations take and return their state. The kernel, the
  files, the network and the connection-tracking table are one world of a type variable,
  passed through every call; the operations on it are records of functions (\<open>nft\<close>,
  \<open>ctlib\<close>, \<open>fsys\<close>, \<open>http\<close>, \<open>env\<close>, \<open>host\<close>). Errors are values of a datatype for each
  component, in the left of a sum; their text is a parameter where it is reported. A
  run-time panic is \<open>None\<close> (\<open>Agent\<close>, \<open>Plan\<close>) and shown not to occur. Ports, marks,
  guard values and counters are words of their width; int64 values are integers whose range
  decoding enforces.

  \<^bold>\<open>Parameters and what is assumed of them.\<close> Code outside the repository is a parameter.
  \<open>documented_nft\<close> says how the kernel evaluates the expressions the agent emits, the store to
  the connection mark included, \<open>kernel_commits\<close> that a flushed batch is what the kernel then
  holds and reports in order, up to what the kernel fills in itself (\<open>echoes\<close>: the upper
  registers of a translation, counter values, a burst of 5 for a burst of 0),
  \<open>documented_conntrack\<close> what a dump and a delete do, \<open>documented_fs\<close> which files a call
  leaves alone and that a rename is all or nothing, and \<open>tables_apart\<close> that deleting flows
  and writing files changes no rule. Each has an instance that satisfies it (\<open>model_ev\<close>,
  \<open>model_nft\<close>, \<open>model_ct\<close>, \<open>model_fs\<close>, \<open>model_env\<close>). The text of times, \<open>url.Parse\<close>, the
  HTTP client, native byte order and the numbers of the kernel's meta keys are parameters
  with no hypothesis.

  \<^bold>\<open>What is shown.\<close>
  \<^item> Validation accepts exactly the well-formed snapshots; policies, snapshots and ledgers are
    read back as written; a restored snapshot is inside the age window.
  \<^item> Over any history of the ledger no identity returns, no epoch is lost without a retirement
    that names it, and a generation has one content. The locale \<open>epoch_history\<close> holds the
    argument once; it is interpreted for mapping ids and for flow marks.
  \<^item> The rendered chains do to every packet what the mappings and retirements declare, the
    flow mark of a translated connection included; a table that verification accepts behaves
    like them; an apply verifies afterwards exactly when no burst of 0 is in effect; a batch
    replaces the agent's own table as a whole and touches no other (\<open>run_batch\<close> is the reference
    for what a batch does).
  \<^item> Counter totals are the sums of what the kernel counted between resets; a report is
    bounded and, rotating, reaches every mapping; its window is that of a linear reference. The
    binary search is proved once in the locale \<open>monotone_search\<close>.
  \<^item> Clearing removes the flows of a retirement and no others. The contract of a controller
    is the locale \<open>controller\<close>, interpreted for both implementations; the agent relies on it
    through the locale \<open>conntrack_agent\<close>.
  \<^item> State files are old or new at every moment; a loaded configuration is sound and protects
    the relay's own ports; error reports are bounded; an exchange has, on every branch, the
    outcome its response stands for.
  \<^item> The agent: its invariant over all histories, no panic, the order of the steps of a cycle,
    the frozen generation, the life of a retirement, the ledger's history over any run, the
    lost ledger, the outcome of a boot, and end to end what the kernel does after a cycle
    that advances. One property shows a failure that is not retried.
  \<^item> The command: total, and exact in \<open>apply\<close> mode.

  \<^bold>\<open>Bounds and fuel.\<close> \<open>Run\<close> and \<open>main_run\<close> take the number of timer ticks before the
  context ends; the properties hold for every number, and every run of that many ticks is
  shown to end. All other recursions are structural or have a termination proof; a few trims
  and scans of \<open>Go_Strings\<close> recur on a number that the length of their input bounds.

  \<^bold>\<open>Not modelled.\<close> Logging. The lexing of JSON text: a body is a syntax tree with the bytes
  after it, or malformed. The text of RFC 3339 times. The order of Go's map iteration, where
  it only chooses among error texts. \<open>strings.ToLower\<close> beyond ASCII. The timer and goroutine
  of \<open>withConn\<close>: whether an operation timed out is a parameter, and an operation that timed
  out is one that ran to its end, not part of it. Registers that keep their value from one rule
  to the next: no rule of the agent reads a register it has not written. The process itself: exit
  codes, signals, and \<open>main\<close>, which only logs the error. \<open>internal/version\<close> is one
  build-time string.
\<close>

end
